(* ===== verification/Prelude.thy ===== *)
theory Prelude
  imports Main "HOL-Library.Word" "HOL-Library.Monad_Syntax" "HOL-Library.Signed_Division"
    "HOL-Library.Multiset"
begin

text \<open>
  What every component shares: the C integer types and their conversions, bounds-checked array
  accesses, and the proof collections.

  Conventions of the whole development. The C code runs on an LP64 target with two's complement
  integers (gcc on Linux, as the Makefile uses).
  \<^item> \<open>uint32_t\<close> and \<open>addr_t\<close> are \<open>32 word\<close>, \<open>unsigned long\<close> is \<open>64 word\<close>, \<open>BYTE\<close> (a signed
    \<open>char\<close>) is \<open>8 word\<close>.
  \<^item> \<open>int\<close> is HOL's \<open>int\<close>: an arithmetic operation whose exact result leaves the range of a
    32-bit \<open>int\<close> is undefined in C and yields \<open>None\<close>; a conversion to \<open>int\<close> wraps around.
  \<^item> A function that can run into undefined behaviour (a null or wild pointer is dereferenced, an
    array is accessed out of bounds, an \<open>int\<close> overflows) or that may not return has an \<open>option\<close>
    result, and \<open>None\<close> is that case; the error codes the C functions return are ordinary values
    inside \<open>Some\<close>.
\<close>

named_theorems c_int \<open>C integer conversions and checked arithmetic\<close>
named_theorems arr_simps \<open>bounds-checked array accesses\<close>
named_theorems frame_simps \<open>fields that an operation leaves alone\<close>

type_synonym u8 = "8 word"
type_synonym u32 = "32 word"
type_synonym u64 = "64 word"
type_synonym cint = int

unbundle bit_operations_syntax

subsection \<open>Conversions between the C integer types\<close>

definition is_cint :: "int \<Rightarrow> bool" where
  "is_cint i \<longleftrightarrow> - (2 ^ 31) \<le> i \<and> i < 2 ^ 31"

definition int_of_u32 :: "u32 \<Rightarrow> cint" where
  "int_of_u32 w = sint w"

definition int_of_u64 :: "u64 \<Rightarrow> cint" where
  "int_of_u64 w = sint (ucast w :: u32)"

definition int_of_byte :: "u8 \<Rightarrow> cint" where
  "int_of_byte b = sint b"

definition u32_of_int :: "cint \<Rightarrow> u32" where
  "u32_of_int i = word_of_int i"

definition u64_of_int :: "cint \<Rightarrow> u64" where
  "u64_of_int i = word_of_int i"

definition u64_of_u32 :: "u32 \<Rightarrow> u64" where
  "u64_of_u32 w = ucast w"

definition byte_of_u32 :: "u32 \<Rightarrow> u8" where
  "byte_of_u32 w = ucast w"

definition u32_of_byte :: "u8 \<Rightarrow> u32" where
  "u32_of_byte b = scast b"

lemma sint_word_of_int_32 [c_int]: "is_cint i \<Longrightarrow> sint (word_of_int i :: u32) = i"
  by (simp add: is_cint_def signed_of_int signed_take_bit_int_eq_self)

lemma uint_word_of_int_32 [c_int]:
  "0 \<le> i \<Longrightarrow> i < 2 ^ 32 \<Longrightarrow> uint (word_of_int i :: u32) = i"
  by (simp add: unsigned_of_int take_bit_int_eq_self)

lemma uint_word_of_int_64 [c_int]:
  "0 \<le> i \<Longrightarrow> i < 2 ^ 64 \<Longrightarrow> uint (word_of_int i :: u64) = i"
  by (simp add: unsigned_of_int take_bit_int_eq_self)

lemma int_of_u32_of_int [c_int]: "is_cint i \<Longrightarrow> int_of_u32 (u32_of_int i) = i"
  by (simp add: int_of_u32_def u32_of_int_def c_int)

lemma ucast_word_of_int_64_32 [c_int]: "(ucast (word_of_int i :: u64) :: u32) = word_of_int i"
  by (rule bit_word_eqI) (simp add: bit_simps)

lemma int_of_u64_of_int [c_int]: "is_cint i \<Longrightarrow> int_of_u64 (u64_of_int i) = i"
  by (simp add: int_of_u64_def u64_of_int_def c_int)

lemma int_of_u64_minus_1 [simp]: "int_of_u64 (-1) = -1"
  using int_of_u64_of_int [of "-1"] by (simp add: u64_of_int_def is_cint_def)

lemma is_cint_int_of_u32 [simp]: "is_cint (int_of_u32 w)"
  using sint_range_size [of w] by (simp add: is_cint_def int_of_u32_def word_size)

subsection \<open>Checked arithmetic on \<open>int\<close>\<close>

definition c_ret :: "int \<Rightarrow> cint option" where
  "c_ret i = (if is_cint i then Some i else None)"

lemma c_ret_Some [c_int]: "is_cint i \<Longrightarrow> c_ret i = Some i"
  by (simp add: c_ret_def)

lemma c_ret_eq_Some_iff [c_int]: "c_ret i = Some j \<longleftrightarrow> is_cint i \<and> j = i"
  by (auto simp: c_ret_def)

subsection \<open>Arrays: an access out of bounds is undefined\<close>

definition arr_get :: "'a list \<Rightarrow> int \<Rightarrow> 'a option" where
  "arr_get xs i = (if 0 \<le> i \<and> i < int (length xs) then Some (xs ! nat i) else None)"

definition arr_set :: "'a list \<Rightarrow> int \<Rightarrow> 'a \<Rightarrow> 'a list option" where
  "arr_set xs i x = (if 0 \<le> i \<and> i < int (length xs) then Some (xs[nat i := x]) else None)"

lemma arr_get_Some_iff [arr_simps]:
  "arr_get xs i = Some x \<longleftrightarrow> 0 \<le> i \<and> i < int (length xs) \<and> x = xs ! nat i"
  by (auto simp: arr_get_def)

lemma arr_set_Some_iff [arr_simps]:
  "arr_set xs i x = Some ys \<longleftrightarrow> 0 \<le> i \<and> i < int (length xs) \<and> ys = xs[nat i := x]"
  by (auto simp: arr_set_def)

lemma arr_get_in: "0 \<le> i \<Longrightarrow> i < int (length xs) \<Longrightarrow> arr_get xs i = Some (xs ! nat i)"
  by (simp add: arr_get_def)

lemma arr_set_in: "0 \<le> i \<Longrightarrow> i < int (length xs) \<Longrightarrow> arr_set xs i x = Some (xs[nat i := x])"
  by (simp add: arr_set_def)

lemma length_arr_set: "arr_set xs i x = Some ys \<Longrightarrow> length ys = length xs"
  by (auto simp: arr_simps)

lemma arr_get_arr_set:
  assumes "arr_set xs i x = Some ys"
  shows "arr_get ys j = (if j = i then Some x else arr_get xs j)"
proof -
  from assms have "0 \<le> i" "i < int (length xs)" "ys = xs[nat i := x]"
    by (auto simp: arr_simps)
  then show ?thesis
    by (auto simp: arr_get_def nth_list_update nat_eq_iff)
qed

end
