(* ===== verification/Bitops.thy ===== *)
theory Bitops
  imports Prelude
begin

text \<open>
  The macros of \<open>include/bitops.h\<close> and of the paging part of \<open>include/mm.h\<close>: bit masks over
  \<open>unsigned int\<close>, the layout of a 32-bit page table entry (PTE) and the split of a 22-bit
  virtual address in a page number (bits 8 to 21) and an offset (bits 0 to 7). The masks are
  computed by the same shifts as in the headers; \<open>bit_GENMASK\<close> says which bits they hold, and the
  lemmas below read and write fields through it.
\<close>

subsection \<open>\<open>bitops.h\<close>\<close>

definition BITS_PER_LONG :: nat where
  "BITS_PER_LONG = 32"

definition BIT :: "nat \<Rightarrow> u32" where
  "BIT nr = push_bit nr 1"

definition GENMASK :: "nat \<Rightarrow> nat \<Rightarrow> u32" where
  "GENMASK h l = push_bit l (NOT 0) AND drop_bit (BITS_PER_LONG - h - 1) (NOT 0)"

definition NBITS2 :: "u32 \<Rightarrow> nat" where
  "NBITS2 n = (if n AND 2 \<noteq> 0 then 1 else 0)"

definition NBITS4 :: "u32 \<Rightarrow> nat" where
  "NBITS4 n = (if n AND 0xC \<noteq> 0 then 2 + NBITS2 (drop_bit 2 n) else NBITS2 n)"

definition NBITS8 :: "u32 \<Rightarrow> nat" where
  "NBITS8 n = (if n AND 0xF0 \<noteq> 0 then 4 + NBITS4 (drop_bit 4 n) else NBITS4 n)"

definition NBITS16 :: "u32 \<Rightarrow> nat" where
  "NBITS16 n = (if n AND 0xFF00 \<noteq> 0 then 8 + NBITS8 (drop_bit 8 n) else NBITS8 n)"

definition NBITS32 :: "u32 \<Rightarrow> nat" where
  "NBITS32 n = (if n AND 0xFFFF0000 \<noteq> 0 then 16 + NBITS16 (drop_bit 16 n) else NBITS16 n)"

definition NBITS :: "u32 \<Rightarrow> nat" where
  "NBITS n = (if n = 0 then 0 else NBITS32 n)"

lemmas NBITS_defs = NBITS_def NBITS32_def NBITS16_def NBITS8_def NBITS4_def NBITS2_def

text \<open>\<open>DIV_ROUND_UP\<close> on \<open>int\<close> operands (C's division truncates) and on unsigned ones.\<close>

definition DIV_ROUND_UP :: "cint \<Rightarrow> cint \<Rightarrow> cint option" where
  "DIV_ROUND_UP n d = do {
     a \<leftarrow> c_ret (n + d);
     b \<leftarrow> c_ret (a - 1);
     if d = 0 then None else c_ret (b sdiv d)
   }"

definition DIV_ROUND_UP_u32 :: "u32 \<Rightarrow> u32 \<Rightarrow> u32" where
  "DIV_ROUND_UP_u32 n d = (n + d - 1) div d"

subsection \<open>\<open>mm.h\<close>: paging geometry\<close>

definition PAGING_CPU_BUS_WIDTH :: nat where
  "PAGING_CPU_BUS_WIDTH = 22"

definition PAGING_PAGESZ :: cint where
  "PAGING_PAGESZ = 256"

definition PAGING_PAGE_ALIGNSZ :: "cint \<Rightarrow> cint option" where
  "PAGING_PAGE_ALIGNSZ sz = do {
     n \<leftarrow> DIV_ROUND_UP sz PAGING_PAGESZ;
     c_ret (n * PAGING_PAGESZ)
   }"

definition PAGING_SWPFPN_OFFSET :: nat where
  "PAGING_SWPFPN_OFFSET = 5"

definition PAGING_MAX_PGN :: u32 where
  "PAGING_MAX_PGN = DIV_ROUND_UP_u32 (BIT PAGING_CPU_BUS_WIDTH) (u32_of_int PAGING_PAGESZ)"

subsection \<open>\<open>mm.h\<close>: the bits of a page table entry\<close>

definition PAGING_PTE_PRESENT_MASK :: u32 where
  "PAGING_PTE_PRESENT_MASK = BIT 31"

definition PAGING_PTE_SWAPPED_MASK :: u32 where
  "PAGING_PTE_SWAPPED_MASK = BIT 30"

definition PAGING_PTE_DIRTY_MASK :: u32 where
  "PAGING_PTE_DIRTY_MASK = BIT 28"

definition PAGING_PAGE_PRESENT :: "u32 \<Rightarrow> u32" where
  "PAGING_PAGE_PRESENT pte = pte AND PAGING_PTE_PRESENT_MASK"

definition PAGING_PTE_FPN_LOBIT :: nat where "PAGING_PTE_FPN_LOBIT = 0"
definition PAGING_PTE_FPN_HIBIT :: nat where "PAGING_PTE_FPN_HIBIT = 12"
definition PAGING_PTE_SWPTYP_LOBIT :: nat where "PAGING_PTE_SWPTYP_LOBIT = 0"
definition PAGING_PTE_SWPTYP_HIBIT :: nat where "PAGING_PTE_SWPTYP_HIBIT = 4"
definition PAGING_PTE_SWPOFF_LOBIT :: nat where "PAGING_PTE_SWPOFF_LOBIT = 5"
definition PAGING_PTE_SWPOFF_HIBIT :: nat where "PAGING_PTE_SWPOFF_HIBIT = 25"

definition PAGING_PTE_FPN_MASK :: u32 where
  "PAGING_PTE_FPN_MASK = GENMASK PAGING_PTE_FPN_HIBIT PAGING_PTE_FPN_LOBIT"

definition PAGING_PTE_SWPTYP_MASK :: u32 where
  "PAGING_PTE_SWPTYP_MASK = GENMASK PAGING_PTE_SWPTYP_HIBIT PAGING_PTE_SWPTYP_LOBIT"

definition PAGING_PTE_SWPOFF_MASK :: u32 where
  "PAGING_PTE_SWPOFF_MASK = GENMASK PAGING_PTE_SWPOFF_HIBIT PAGING_PTE_SWPOFF_LOBIT"

definition PAGING_SWP :: "u32 \<Rightarrow> u32" where
  "PAGING_SWP pte = drop_bit PAGING_SWPFPN_OFFSET (pte AND PAGING_PTE_SWPOFF_MASK)"

subsection \<open>\<open>mm.h\<close>: value operators and address fields\<close>

definition SETBIT :: "u32 \<Rightarrow> u32 \<Rightarrow> u32" where
  "SETBIT v msk = v OR msk"

definition CLRBIT :: "u32 \<Rightarrow> u32 \<Rightarrow> u32" where
  "CLRBIT v msk = v AND NOT msk"

definition SETVAL :: "u32 \<Rightarrow> u32 \<Rightarrow> u32 \<Rightarrow> nat \<Rightarrow> u32" where
  "SETVAL v value msk offst = (v AND NOT msk) OR (push_bit offst value AND msk)"

definition GETVAL :: "u32 \<Rightarrow> u32 \<Rightarrow> nat \<Rightarrow> u32" where
  "GETVAL v msk offst = drop_bit offst (v AND msk)"

definition PAGING_ADDR_OFFST_LOBIT :: nat where
  "PAGING_ADDR_OFFST_LOBIT = 0"

definition PAGING_ADDR_OFFST_HIBIT :: nat where
  "PAGING_ADDR_OFFST_HIBIT = NBITS (u32_of_int PAGING_PAGESZ) - 1"

definition PAGING_ADDR_PGN_LOBIT :: nat where
  "PAGING_ADDR_PGN_LOBIT = NBITS (u32_of_int PAGING_PAGESZ)"

definition PAGING_ADDR_PGN_HIBIT :: nat where
  "PAGING_ADDR_PGN_HIBIT = PAGING_CPU_BUS_WIDTH - 1"

definition PAGING_OFFST_MASK :: u32 where
  "PAGING_OFFST_MASK = GENMASK PAGING_ADDR_OFFST_HIBIT PAGING_ADDR_OFFST_LOBIT"

definition PAGING_PGN_MASK :: u32 where
  "PAGING_PGN_MASK = GENMASK PAGING_ADDR_PGN_HIBIT PAGING_ADDR_PGN_LOBIT"

definition PAGING_OFFST :: "u32 \<Rightarrow> u32" where
  "PAGING_OFFST x = GETVAL x PAGING_OFFST_MASK PAGING_ADDR_OFFST_LOBIT"

definition PAGING_PGN :: "u32 \<Rightarrow> u32" where
  "PAGING_PGN x = GETVAL x PAGING_PGN_MASK PAGING_ADDR_PGN_LOBIT"

definition PAGING_FPN :: "u32 \<Rightarrow> u32" where
  "PAGING_FPN x = GETVAL x PAGING_PTE_FPN_MASK PAGING_PTE_FPN_LOBIT"

subsection \<open>Which bits the masks hold\<close>

lemma bit_BIT [bit_simps]: "bit (BIT nr) n \<longleftrightarrow> n = nr \<and> nr < 32"
  by (auto simp: BIT_def bit_simps)

lemma bit_GENMASK: "h < 32 \<Longrightarrow> bit (GENMASK h l) n \<longleftrightarrow> l \<le> n \<and> n \<le> h"
  by (auto simp: GENMASK_def BITS_PER_LONG_def bit_simps)

lemma bit_SETVAL [bit_simps]:
  "bit (SETVAL v x m k) n \<longleftrightarrow> (if bit m n then k \<le> n \<and> bit x (n - k) else bit v n)"
  by (cases "n < 32") (auto simp: SETVAL_def bit_simps dest: bit_imp_le_length)

lemma bit_GETVAL [bit_simps]: "bit (GETVAL v m k) n \<longleftrightarrow> bit v (k + n) \<and> bit m (k + n)"
  by (simp add: GETVAL_def bit_simps)

lemma bit_SETBIT [bit_simps]: "bit (SETBIT v m) n \<longleftrightarrow> bit v n \<or> bit m n"
  by (simp add: SETBIT_def bit_simps)

lemma bit_CLRBIT [bit_simps]: "bit (CLRBIT v m) n \<longleftrightarrow> bit v n \<and> \<not> bit m n"
  by (auto simp: CLRBIT_def bit_simps dest: bit_imp_le_length)

lemma NBITS_PAGESZ: "NBITS (u32_of_int PAGING_PAGESZ) = 8"
  by code_simp

lemmas paging_bits =
  PAGING_PTE_FPN_LOBIT_def PAGING_PTE_FPN_HIBIT_def PAGING_PTE_SWPTYP_LOBIT_def
  PAGING_PTE_SWPTYP_HIBIT_def PAGING_PTE_SWPOFF_LOBIT_def PAGING_PTE_SWPOFF_HIBIT_def
  PAGING_ADDR_OFFST_LOBIT_def PAGING_ADDR_OFFST_HIBIT_def PAGING_ADDR_PGN_LOBIT_def
  PAGING_ADDR_PGN_HIBIT_def PAGING_CPU_BUS_WIDTH_def NBITS_PAGESZ

lemma bit_pte_masks [bit_simps]:
  "bit PAGING_PTE_FPN_MASK n \<longleftrightarrow> n \<le> 12"
  "bit PAGING_PTE_SWPTYP_MASK n \<longleftrightarrow> n \<le> 4"
  "bit PAGING_PTE_SWPOFF_MASK n \<longleftrightarrow> 5 \<le> n \<and> n \<le> 25"
  "bit PAGING_PTE_PRESENT_MASK n \<longleftrightarrow> n = 31"
  "bit PAGING_PTE_SWAPPED_MASK n \<longleftrightarrow> n = 30"
  "bit PAGING_PTE_DIRTY_MASK n \<longleftrightarrow> n = 28"
  by (simp_all add: PAGING_PTE_FPN_MASK_def PAGING_PTE_SWPTYP_MASK_def PAGING_PTE_SWPOFF_MASK_def
      PAGING_PTE_PRESENT_MASK_def PAGING_PTE_SWAPPED_MASK_def PAGING_PTE_DIRTY_MASK_def
      paging_bits bit_GENMASK bit_BIT)

lemma bit_addr_masks [bit_simps]:
  "bit PAGING_OFFST_MASK n \<longleftrightarrow> n \<le> 7"
  "bit PAGING_PGN_MASK n \<longleftrightarrow> 8 \<le> n \<and> n \<le> 21"
  by (simp_all add: PAGING_OFFST_MASK_def PAGING_PGN_MASK_def paging_bits bit_GENMASK)

subsection \<open>The field macros as truncations\<close>

lemma PAGING_OFFST_take_bit: "PAGING_OFFST x = take_bit 8 x"
  by (rule bit_word_eqI) (auto simp: PAGING_OFFST_def paging_bits bit_simps)

lemma PAGING_PGN_take_bit: "PAGING_PGN x = take_bit 14 (drop_bit 8 x)"
  by (rule bit_word_eqI) (auto simp: PAGING_PGN_def paging_bits bit_simps)

lemma PAGING_FPN_take_bit: "PAGING_FPN x = take_bit 13 x"
  by (rule bit_word_eqI) (auto simp: PAGING_FPN_def paging_bits bit_simps)

lemma PAGING_SWP_take_bit: "PAGING_SWP x = take_bit 21 (drop_bit 5 x)"
  by (rule bit_word_eqI) (auto simp: PAGING_SWP_def PAGING_SWPFPN_OFFSET_def bit_simps)

lemma PAGE_PRESENT_iff: "PAGING_PAGE_PRESENT pte \<noteq> 0 \<longleftrightarrow> bit pte 31"
proof
  assume "bit pte 31"
  then have "bit (PAGING_PAGE_PRESENT pte) 31"
    by (simp add: PAGING_PAGE_PRESENT_def bit_simps)
  then show "PAGING_PAGE_PRESENT pte \<noteq> 0" by auto
next
  assume "PAGING_PAGE_PRESENT pte \<noteq> 0"
  then obtain n where "bit (PAGING_PAGE_PRESENT pte) n"
    by (auto simp: bit_eq_iff)
  then show "bit pte 31" by (auto simp: PAGING_PAGE_PRESENT_def bit_simps)
qed

subsection \<open>Address fields as division by the page size\<close>

lemma uint_take_drop:
  fixes x :: u32
  shows "uint (take_bit n (drop_bit k x)) = (uint x div 2 ^ k) mod 2 ^ n"
proof -
  have "uint x mod 2 ^ LENGTH(32) = uint x"
    by (rule mod_pos_pos_trivial) (simp_all only: uint_ge_0 uint_bounded)
  then show ?thesis
    unfolding unsigned_take_bit_eq unsigned_drop_bit_eq by (simp only: take_bit_eq_mod drop_bit_eq_div)
qed

lemma uint_take_bit_u32:
  fixes x :: u32
  shows "uint (take_bit n x) = uint x mod 2 ^ n"
  unfolding unsigned_take_bit_eq by (simp only: take_bit_eq_mod)

lemma uint_PAGING_OFFST: "uint (PAGING_OFFST x) = uint x mod 256"
  by (simp only: PAGING_OFFST_take_bit uint_take_bit_u32) simp

lemma uint_PAGING_PGN: "uint (PAGING_PGN x) = (uint x div 256) mod 16384"
  by (simp only: PAGING_PGN_take_bit uint_take_drop) simp

lemma uint_PAGING_FPN: "uint (PAGING_FPN x) = uint x mod 8192"
  by (simp only: PAGING_FPN_take_bit uint_take_bit_u32) simp

lemma uint_PAGING_SWP: "uint (PAGING_SWP x) = (uint x div 32) mod 2097152"
  by (simp only: PAGING_SWP_take_bit uint_take_drop) simp

lemma int_of_u32_small: "uint w < 2 ^ 31 \<Longrightarrow> int_of_u32 w = uint w"
  unfolding int_of_u32_def using sint_word_of_int_32 [of "uint w"] uint_ge_0 [of w]
  by (simp add: is_cint_def del: uint_ge_0)

lemma int_of_PAGING_OFFST: "int_of_u32 (PAGING_OFFST x) = uint x mod 256"
  using pos_mod_bound [of 256 "uint x"]
  by (subst int_of_u32_small) (simp_all only: uint_PAGING_OFFST, simp)

lemma int_of_PAGING_PGN: "int_of_u32 (PAGING_PGN x) = (uint x div 256) mod 16384"
  using pos_mod_bound [of 16384 "uint x div 256"]
  by (subst int_of_u32_small) (simp_all only: uint_PAGING_PGN, simp)

lemma int_of_PAGING_FPN: "int_of_u32 (PAGING_FPN x) = uint x mod 8192"
  using pos_mod_bound [of 8192 "uint x"]
  by (subst int_of_u32_small) (simp_all only: uint_PAGING_FPN, simp)

lemma int_of_PAGING_SWP: "int_of_u32 (PAGING_SWP x) = (uint x div 32) mod 2097152"
  using pos_mod_bound [of 2097152 "uint x div 32"]
  by (subst int_of_u32_small) (simp_all only: uint_PAGING_SWP, simp)

lemmas int_of_PAGING_fields =
  int_of_PAGING_OFFST int_of_PAGING_PGN int_of_PAGING_FPN int_of_PAGING_SWP

subsection \<open>Rounding up to a page\<close>

lemma PAGING_PAGE_ALIGNSZ_eq:
  assumes "0 \<le> sz" "sz + 256 < 2 ^ 31"
  shows "PAGING_PAGE_ALIGNSZ sz = Some ((sz + 255) div 256 * 256)"
proof -
  have "(sz + 255) sdiv 256 = (sz + 255) div 256"
    using assms by (cases "sz + 255 = 0") (auto simp: signed_divide_int_def)
  moreover have "(sz + 255) div 256 * 256 \<le> sz + 255" by simp
  moreover have "0 \<le> (sz + 255) div 256"
    using assms by simp
  ultimately show ?thesis
    using assms
    by (simp add: PAGING_PAGE_ALIGNSZ_def DIV_ROUND_UP_def PAGING_PAGESZ_def c_ret_def is_cint_def
        add.commute)
qed

text \<open>
  C38. A virtual address inside the 22-bit bus is rebuilt from its page number and its offset, the
  two fields stay in their ranges (16384 pages of 256 bytes), and addresses outside the bus alias:
  the page number only sees the address modulo 4 MB.
\<close>

theorem address_fields:
  "uint (PAGING_PGN a) * 256 + uint (PAGING_OFFST a) = uint a mod 2 ^ PAGING_CPU_BUS_WIDTH \<and>
   uint (PAGING_PGN a) < uint PAGING_MAX_PGN \<and> uint (PAGING_OFFST a) < PAGING_PAGESZ"
proof -
  have "uint a mod (256 * 16384) = 256 * (uint a div 256 mod 16384) + uint a mod 256"
    by (rule zmod_zmult2_eq) simp
  then have "uint (PAGING_PGN a) * 256 + uint (PAGING_OFFST a) = uint a mod 2 ^ PAGING_CPU_BUS_WIDTH"
    by (simp add: uint_PAGING_PGN uint_PAGING_OFFST PAGING_CPU_BUS_WIDTH_def mult.commute)
  moreover have "uint PAGING_MAX_PGN = 16384" by code_simp
  then have "uint (PAGING_PGN a) < uint PAGING_MAX_PGN" by (simp add: uint_PAGING_PGN)
  moreover have "uint (PAGING_OFFST a) < PAGING_PAGESZ" by (simp add: uint_PAGING_OFFST PAGING_PAGESZ_def)
  ultimately show ?thesis by blast
qed

text \<open>
  Rounding a non-negative size up to whole pages gives the least multiple of the page size that
  is not below the size, as long as the size is 257 bytes or more below \<open>INT_MAX\<close>.
\<close>

lemma page_alignsz_least:
  assumes "0 \<le> sz" "sz + PAGING_PAGESZ < 2 ^ 31"
  shows "\<exists>r. PAGING_PAGE_ALIGNSZ sz = Some r \<and> sz \<le> r \<and> r < sz + PAGING_PAGESZ \<and>
    PAGING_PAGESZ dvd r"
proof -
  have "PAGING_PAGE_ALIGNSZ sz = Some ((sz + 255) div 256 * 256)"
    using assms by (intro PAGING_PAGE_ALIGNSZ_eq) (simp_all add: PAGING_PAGESZ_def)
  moreover have "(sz + 255) div 256 * 256 = sz + 255 - (sz + 255) mod 256"
    by (simp add: minus_mod_eq_div_mult)
  with pos_mod_bound [of 256 "sz + 255"] pos_mod_sign [of 256 "sz + 255"]
  have "sz \<le> (sz + 255) div 256 * 256" "(sz + 255) div 256 * 256 < sz + 256"
    by linarith+
  ultimately show ?thesis by (simp add: PAGING_PAGESZ_def)
qed

lemma page_alignsz_least_witness:
  "PAGING_PAGE_ALIGNSZ 300 = Some 512 \<and>
   (\<exists>r. PAGING_PAGE_ALIGNSZ 300 = Some r \<and> 300 \<le> r \<and> r < 300 + PAGING_PAGESZ \<and> PAGING_PAGESZ dvd r)"
proof -
  have "PAGING_PAGE_ALIGNSZ 300 = Some 512" by code_simp
  then show ?thesis
    using page_alignsz_least [of 300] by (simp add: PAGING_PAGESZ_def)
qed

end
