(* ===== verification/Interfaces.thy ===== *)
theory Interfaces
  imports Prelude
begin

text \<open>
  The interfaces the components of the kernel rely on, as locales.
  \<^item> \<open>byte_store\<close>: a device of addressable bytes; its client \<open>address_space\<close> adds a translation of
    virtual addresses, and gives read-over-write and separation laws for virtual memory.
  \<^item> \<open>prio_queue\<close>: a bounded queue whose head is the first element of highest priority; draining it
    sorts, and moving a selection to another queue keeps that order.
  \<^item> \<open>ready_pool\<close>: where runnable processes wait; taking one and putting it back never lets a process
    be in two places.
  \<^item> \<open>frame_pool\<close>: a source of page frames; its client lemmas say what taking several frames yields.
  The components that provide the operations interpret them.
\<close>

subsection \<open>Byte-addressed storage\<close>

locale byte_store =
  fixes rd :: "'m \<Rightarrow> int \<Rightarrow> u8 option"
    and wr :: "'m \<Rightarrow> int \<Rightarrow> u8 \<Rightarrow> 'm option"
    and ok :: "'m \<Rightarrow> bool"
  assumes wr_defined: "ok m \<Longrightarrow> wr m a v \<noteq> None \<longleftrightarrow> rd m a \<noteq> None"
    and rd_wr: "ok m \<Longrightarrow> wr m a v = Some m' \<Longrightarrow> rd m' b = (if b = a then Some v else rd m b)"
    and ok_wr: "ok m \<Longrightarrow> wr m a v = Some m' \<Longrightarrow> ok m'"
begin

lemma rd_wr_same: "ok m \<Longrightarrow> wr m a v = Some m' \<Longrightarrow> rd m' a = Some v"
  by (simp add: rd_wr)

lemma rd_wr_other: "ok m \<Longrightarrow> wr m a v = Some m' \<Longrightarrow> b \<noteq> a \<Longrightarrow> rd m' b = rd m b"
  by (simp add: rd_wr)

lemma rd_defined_wr: "ok m \<Longrightarrow> wr m a v = Some m' \<Longrightarrow> rd m' b \<noteq> None \<longleftrightarrow> rd m b \<noteq> None"
  using wr_defined [of m a v] by (auto simp: rd_wr)

lemma wr_succeeds: "ok m \<Longrightarrow> rd m a = Some u \<Longrightarrow> \<exists>m'. wr m a v = Some m'"
  using wr_defined [of m a v] by auto

end

subsection \<open>Virtual memory over a byte store\<close>

text \<open>
  \<open>tr\<close> maps virtual addresses to addresses of the store. Where it is injective, virtual memory
  behaves as a memory of its own; where two translations have disjoint ranges, a write through one
  is invisible through the other.
\<close>

locale address_space = byte_store rd wr ok
  for rd :: "'m \<Rightarrow> int \<Rightarrow> u8 option" and wr :: "'m \<Rightarrow> int \<Rightarrow> u8 \<Rightarrow> 'm option"
    and ok :: "'m \<Rightarrow> bool" +
  fixes tr :: "'t \<Rightarrow> 'v \<Rightarrow> int option"
    and wf :: "'t \<Rightarrow> bool"
  assumes tr_inj: "wf t \<Longrightarrow> tr t a = Some p \<Longrightarrow> tr t b = Some p \<Longrightarrow> a = b"
begin

definition vread :: "'t \<Rightarrow> 'm \<Rightarrow> 'v \<Rightarrow> u8 option" where
  "vread t m a = Option.bind (tr t a) (rd m)"

definition vwrite :: "'t \<Rightarrow> 'm \<Rightarrow> 'v \<Rightarrow> u8 \<Rightarrow> 'm option" where
  "vwrite t m a v = Option.bind (tr t a) (\<lambda>p. wr m p v)"

lemma vread_vwrite:
  assumes "ok m" "wf t" "vwrite t m a v = Some m'"
  shows "vread t m' b = (if b = a then Some v else vread t m b)"
proof -
  from assms(3) obtain p where p: "tr t a = Some p" "wr m p v = Some m'"
    by (auto simp: vwrite_def bind_eq_Some_conv)
  show ?thesis
  proof (cases "tr t b")
    case None
    with p show ?thesis by (auto simp: vread_def)
  next
    case (Some q)
    with tr_inj [OF assms(2), of a p b] p have "b = a \<longleftrightarrow> q = p" by auto
    with Some p(2) assms(1) show ?thesis by (simp add: vread_def rd_wr)
  qed
qed

lemma vread_vwrite_separate:
  assumes "ok m" "vwrite t m a v = Some m'" "\<And>x y p. tr t x = Some p \<Longrightarrow> tr u y \<noteq> Some p"
  shows "vread u m' b = vread u m b"
  using assms
  by (auto simp: vread_def vwrite_def bind_eq_Some_conv rd_wr intro!: Option.bind_cong)

lemma vwrite_defined:
  assumes "ok m"
  shows "vwrite t m a v \<noteq> None \<longleftrightarrow> vread t m a \<noteq> None"
  using wr_defined [OF assms] by (cases "tr t a") (auto simp: vread_def vwrite_def)

end

subsection \<open>Pools of page frames\<close>

locale frame_pool =
  fixes take_frame :: "'s \<Rightarrow> (int \<times> 's) option"
    and give_frame :: "int \<Rightarrow> 's \<Rightarrow> 's"
    and frames :: "'s \<Rightarrow> int list"
    and good :: "'s \<Rightarrow> bool"
  assumes take_None: "good s \<Longrightarrow> take_frame s = None \<longleftrightarrow> frames s = []"
    and take_Some: "good s \<Longrightarrow> take_frame s = Some (n, s') \<Longrightarrow> frames s = n # frames s' \<and> good s'"
    and give: "good s \<Longrightarrow> frames (give_frame n s) = n # frames s \<and> good (give_frame n s)"
begin

fun take_frames :: "nat \<Rightarrow> 's \<Rightarrow> (int list \<times> 's) option" where
  "take_frames 0 s = Some ([], s)"
| "take_frames (Suc k) s =
    (case take_frame s of
       None \<Rightarrow> None
     | Some (n, s') \<Rightarrow>
         (case take_frames k s' of None \<Rightarrow> None | Some (ns, s'') \<Rightarrow> Some (n # ns, s'')))"

lemma take_frames_Some:
  "good s \<Longrightarrow> k \<le> length (frames s) \<Longrightarrow>
   \<exists>s'. take_frames k s = Some (take k (frames s), s') \<and> frames s' = drop k (frames s) \<and> good s'"
proof (induction k arbitrary: s)
  case 0
  then show ?case by simp
next
  case (Suc k)
  then have "take_frame s \<noteq> None" using take_None by auto
  then obtain n s1 where t: "take_frame s = Some (n, s1)" by auto
  with take_Some Suc.prems have s1: "frames s = n # frames s1" "good s1" by auto
  with Suc.prems Suc.IH [of s1] obtain s2 where
    "take_frames k s1 = Some (take k (frames s1), s2)" "frames s2 = drop k (frames s1)" "good s2"
    by auto
  with t s1 show ?case by simp
qed

lemma take_frames_None: "good s \<Longrightarrow> length (frames s) < k \<Longrightarrow> take_frames k s = None"
proof (induction k arbitrary: s)
  case 0
  then show ?case by simp
next
  case (Suc k)
  show ?case
  proof (cases "take_frame s")
    case (Some r)
    then obtain n s1 where "take_frame s = Some (n, s1)" by (cases r) auto
    with take_Some Suc.prems Suc.IH [of s1] show ?thesis by auto
  qed simp
qed

lemma take_distinct:
  assumes "good s" "distinct (frames s)" "take_frame s = Some (n, s')"
  shows "n \<notin> set (frames s') \<and> distinct (frames s')"
  using take_Some [OF assms(1,3)] assms(2) by auto

lemma take_give:
  assumes "good s"
  shows "\<exists>s'. take_frame (give_frame n s) = Some (n, s') \<and> frames s' = frames s"
proof -
  have g: "frames (give_frame n s) = n # frames s" "good (give_frame n s)"
    using give [OF assms] by simp_all
  with take_None obtain m s' where t: "take_frame (give_frame n s) = Some (m, s')" by fastforce
  from take_Some [OF g(2) t] g(1) have "m = n" "frames s' = frames s" by simp_all
  with t show ?thesis by simp
qed

end

subsection \<open>Bounded priority queues\<close>

text \<open>
  \<open>deq\<close> removes the first element of highest key and keeps the order of the others; \<open>enq\<close> appends
  while there is room and otherwise does nothing. \<open>good\<close> elements are those that may be queued.
\<close>

locale prio_queue =
  fixes enq :: "'a \<Rightarrow> 'q \<Rightarrow> 'q"
    and deq :: "'q \<Rightarrow> ('a \<times> 'q) option"
    and elems :: "'q \<Rightarrow> 'a list"
    and key :: "'a \<Rightarrow> int"
    and cap :: nat
    and ok :: "'q \<Rightarrow> bool"
    and good :: "'a \<Rightarrow> bool"
  assumes enq_room: "ok q \<Longrightarrow> good x \<Longrightarrow> length (elems q) < cap \<Longrightarrow> elems (enq x q) = elems q @ [x] \<and> ok (enq x q)"
    and enq_full: "ok q \<Longrightarrow> cap \<le> length (elems q) \<Longrightarrow> enq x q = q"
    and deq_None: "ok q \<Longrightarrow> deq q = None \<longleftrightarrow> elems q = []"
    and deq_Some: "ok q \<Longrightarrow> deq q = Some (x, q') \<Longrightarrow> ok q' \<and>
      (\<exists>xs ys. elems q = xs @ x # ys \<and> elems q' = xs @ ys \<and>
        (\<forall>y \<in> set xs. key y < key x) \<and> (\<forall>y \<in> set ys. key y \<le> key x))"
    and ok_good: "ok q \<Longrightarrow> x \<in> set (elems q) \<Longrightarrow> good x"
begin

abbreviation by_key :: "'a list \<Rightarrow> 'a list" where
  "by_key \<equiv> sort_key (\<lambda>x. - key x)"

lemma by_key_first_max:
  assumes "\<forall>y \<in> set xs. key y < key x" "\<forall>y \<in> set ys. key y \<le> key x"
  shows "by_key (xs @ x # ys) = x # by_key (xs @ ys)"
proof (rule properties_for_sort_key)
  show "mset (x # by_key (xs @ ys)) = mset (xs @ x # ys)" by simp
  show "sorted (map (\<lambda>x. - key x) (x # by_key (xs @ ys)))" using assms by (auto simp: less_imp_le)
  fix k
  have "filter (\<lambda>y. - key k = - key y) (by_key (xs @ ys)) = filter (\<lambda>y. - key k = - key y) (xs @ ys)"
    using sort_key_stable [of "\<lambda>y. - key y" "- key k" "xs @ ys"] by (simp add: eq_commute)
  moreover have "- key k = - key x \<Longrightarrow> filter (\<lambda>y. - key k = - key y) xs = []"
    using assms(1) by (auto simp: filter_empty_conv)
  ultimately show "filter (\<lambda>y. - key k = - key y) (x # by_key (xs @ ys)) =
      filter (\<lambda>y. - key k = - key y) (xs @ x # ys)" by (cases "key k = key x") simp_all
qed

lemma by_key_idem: "by_key (by_key xs) = by_key xs"
  by (rule sort_key_id_if_sorted) simp

text \<open>Move the elements that satisfy \<open>P\<close> from \<open>q\<close> to \<open>t\<close> and drop the others.\<close>

fun transfer :: "nat \<Rightarrow> ('a \<Rightarrow> bool) \<Rightarrow> 'q \<Rightarrow> 'q \<Rightarrow> 'q \<times> 'q" where
  "transfer 0 P q t = (q, t)"
| "transfer (Suc n) P q t =
    (case deq q of None \<Rightarrow> (q, t) | Some (x, q') \<Rightarrow> transfer n P q' (if P x then enq x t else t))"

lemma transfer_elems:
  assumes "ok q" "ok t" "length (elems q) \<le> n" "length (elems t) + length (elems q) \<le> cap"
    "transfer n P q t = (q', t')"
  shows "ok q' \<and> ok t' \<and> elems q' = [] \<and> elems t' = elems t @ filter P (by_key (elems q))"
  using assms
proof (induction n arbitrary: q t)
  case 0
  then show ?case by simp
next
  case (Suc n)
  show ?case
  proof (cases "deq q")
    case None
    with Suc.prems deq_None [of q] show ?thesis by auto
  next
    case (Some r)
    then obtain x q1 where d: "deq q = Some (x, q1)" by (cases r) auto
    from deq_Some [OF Suc.prems(1) d] obtain xs ys where q1: "ok q1" "elems q = xs @ x # ys" "elems q1 = xs @ ys"
      and mx: "\<forall>y \<in> set xs. key y < key x" "\<forall>y \<in> set ys. key y \<le> key x" by blast
    have g: "good x" using ok_good [OF Suc.prems(1), of x] q1(2) by simp
    define t1 where "t1 = (if P x then enq x t else t)"
    have t1: "ok t1" "elems t1 = elems t @ filter P [x]"
      using enq_room [OF Suc.prems(2) g] Suc.prems(2,4) q1(2) by (auto simp: t1_def)
    have len: "length (elems t1) \<le> Suc (length (elems t))" using t1(2) by simp
    have "ok q' \<and> ok t' \<and> elems q' = [] \<and> elems t' = elems t1 @ filter P (by_key (elems q1))"
      using Suc.IH [OF q1(1) t1(1)] Suc.prems(3-5) q1(2,3) d len by (simp add: t1_def)
    then show ?thesis using by_key_first_max [OF mx] q1(2,3) t1(2) by simp
  qed
qed

end

subsection \<open>Pools of runnable processes\<close>

text \<open>
  \<open>fetch\<close> removes one process; \<open>put\<close> adds one or, when there is no room for it, loses it. \<open>exclusive\<close>
  says that no process is both in the pool and held outside, or in either of them twice.
\<close>

locale ready_pool =
  fixes fetch :: "'s \<Rightarrow> ('p \<times> 's) option"
    and put :: "'p \<Rightarrow> 's \<Rightarrow> 's"
    and ready :: "'s \<Rightarrow> 'p multiset"
    and ok :: "'s \<Rightarrow> bool"
    and fits :: "'p \<Rightarrow> 's \<Rightarrow> bool"
  assumes fetch_None: "ok s \<Longrightarrow> fetch s = None \<longleftrightarrow> ready s = {#}"
    and fetch_Some: "ok s \<Longrightarrow> fetch s = Some (p, s') \<Longrightarrow> ready s = add_mset p (ready s') \<and> ok s'"
    and put: "ok s \<Longrightarrow> fits p s \<Longrightarrow>
      ok (put p s) \<and> (ready (put p s) = add_mset p (ready s) \<or> ready (put p s) = ready s)"
begin

definition exclusive :: "'p multiset \<Rightarrow> 's \<Rightarrow> bool" where
  "exclusive held s \<longleftrightarrow> (\<forall>p. count (held + ready s) p \<le> 1)"

lemma exclusive_not_ready:
  assumes "exclusive (add_mset p held) s"
  shows "p \<notin># ready s \<and> p \<notin># held"
proof -
  have "count (add_mset p held + ready s) p \<le> 1" using assms by (simp only: exclusive_def)
  then show ?thesis by (simp add: not_in_iff)
qed

lemma exclusive_fetch:
  assumes "ok s" "fetch s = Some (p, s')" "exclusive held s"
  shows "exclusive (add_mset p held) s' \<and> p \<notin># held"
proof -
  have "held + ready s = add_mset p held + ready s'" using fetch_Some [OF assms(1,2)] by simp
  with assms(3) have "exclusive (add_mset p held) s'" by (simp only: exclusive_def simp_thms)
  with exclusive_not_ready show ?thesis by blast
qed

lemma exclusive_put:
  assumes "ok s" "fits p s" "exclusive (add_mset p held) s"
  shows "exclusive held (put p s)"
proof -
  have "ready (put p s) \<subseteq># add_mset p (ready s)" using put [OF assms(1,2)] by auto
  then have "count (held + ready (put p s)) q \<le> count (add_mset p held + ready s) q" for q
    using mset_subset_eq_count [of "ready (put p s)" "add_mset p (ready s)" q] by auto
  with assms(3) show ?thesis unfolding exclusive_def using order_trans by blast
qed

lemma exclusive_drop:
  assumes "exclusive (add_mset p held) s"
  shows "exclusive held s"
proof -
  have "count (held + ready s) q \<le> count (add_mset p held + ready s) q" for q by simp
  with assms show ?thesis unfolding exclusive_def using order_trans by blast
qed

end

subsection \<open>Steps of several parties\<close>

text \<open>
  \<open>step s p\<close> is a step of party \<open>p\<close>. A \<open>calm\<close> step keeps the invariant \<open>good\<close> and changes nothing that
  another party can see (\<open>same q s t\<close>). Then so does every interleaving of calm steps.
\<close>

locale bystanders =
  fixes step :: "'s \<Rightarrow> 'p \<Rightarrow> 's option"
    and calm :: "'s \<Rightarrow> 'p \<Rightarrow> bool"
    and good :: "'s \<Rightarrow> bool"
    and same :: "'p \<Rightarrow> 's \<Rightarrow> 's \<Rightarrow> bool"
  assumes keeps: "good s \<Longrightarrow> calm s p \<Longrightarrow> step s p = Some t \<Longrightarrow> good t"
    and leaves: "good s \<Longrightarrow> calm s p \<Longrightarrow> step s p = Some t \<Longrightarrow> q \<noteq> p \<Longrightarrow> same q s t"
    and same_refl: "same q s s"
    and same_trans: "same q s t \<Longrightarrow> same q t u \<Longrightarrow> good t \<Longrightarrow> same q s u"
begin

fun steps :: "'s \<Rightarrow> 'p list \<Rightarrow> 's option" where
  "steps s [] = Some s"
| "steps s (p # ps) = Option.bind (step s p) (\<lambda>t. steps t ps)"

fun calm_steps :: "'s \<Rightarrow> 'p list \<Rightarrow> bool" where
  "calm_steps s [] = True"
| "calm_steps s (p # ps) = (calm s p \<and> (case step s p of None \<Rightarrow> True | Some t \<Rightarrow> calm_steps t ps))"

lemma steps_keep:
  "good s \<Longrightarrow> steps s ps = Some t \<Longrightarrow> calm_steps s ps \<Longrightarrow> good t \<and> (\<forall>q. q \<notin> set ps \<longrightarrow> same q s t)"
proof (induction ps arbitrary: s)
  case Nil
  then show ?case using same_refl by simp
next
  case (Cons p ps)
  from Cons.prems(2) obtain s1 where s1: "step s p = Some s1" "steps s1 ps = Some t"
    by (auto simp: bind_eq_Some_conv)
  then have calm: "calm s p" "calm_steps s1 ps" using Cons.prems(3) by simp_all
  have good: "good s1" using keeps [OF Cons.prems(1) calm(1) s1(1)] .
  note rest = Cons.IH [OF good s1(2) calm(2)]
  have "same q s t" if "q \<notin> set (p # ps)" for q
    using leaves [OF Cons.prems(1) calm(1) s1(1), of q] rest same_trans [of q s s1 t] good that by simp
  with rest show ?case by blast
qed

end

end
