(* ===== verification/Memphy.thy ===== *)
theory Memphy
  imports Bitops Interfaces
begin

text \<open>
  The physical memory devices of \<open>src/mm-memphy.c\<close> (and \<open>__swap_cp_page\<close> of \<open>src/mm.c\<close>, which
  only uses them): a byte array with a free list of page frames.

  A \<open>struct memphy_struct *\<close> is an \<open>option\<close>: \<open>None\<close> is the null pointer, which \<open>MEMPHY_read\<close>
  and \<open>MEMPHY_write\<close> test for and the other operations dereference (so they yield \<open>None\<close>). The
  nodes of a frame list are owned by the list they are in, so the list is a datatype: \<open>FpNull\<close> ends
  it, and \<open>FpWild\<close> is a \<open>fp_next\<close> (or a list head) that was never assigned. The field \<open>owner\<close> of
  the nodes is never used and is left out. An operation with an out parameter returns \<open>None\<close> for it
  where the C code leaves it unwritten. \<open>malloc\<close> of a node is assumed to succeed.
\<close>

datatype framephy = FpNull | FpNode (fpn: cint) (fp_next: framephy) | FpWild

record memphy =
  storage :: "u8 list"
  maxsz :: cint
  rdmflg :: cint
  cursor :: cint
  free_fp_list :: framephy
  used_fp_list :: framephy

subsection \<open>Sequential access\<close>

function mv_csr_loop :: "memphy \<Rightarrow> cint \<Rightarrow> cint \<Rightarrow> memphy" where
  "mv_csr_loop mp offset numstep =
    (if numstep < offset \<and> numstep < maxsz mp
     then mv_csr_loop (mp\<lparr>cursor := (cursor mp + 1) mod maxsz mp\<rparr>) offset (numstep + 1)
     else mp)"
  by pat_completeness auto
termination
  by (relation "measure (\<lambda>(mp, offset, numstep). nat (maxsz mp - numstep))") auto

declare mv_csr_loop.simps [simp del]

definition MEMPHY_mv_csr :: "memphy \<Rightarrow> cint \<Rightarrow> cint \<times> memphy" where
  "MEMPHY_mv_csr mp offset = (0, mv_csr_loop (mp\<lparr>cursor := 0\<rparr>) offset 0)"

definition MEMPHY_seq_read ::
  "memphy option \<Rightarrow> cint \<Rightarrow> (cint \<times> u8 option \<times> memphy option) option" where
  "MEMPHY_seq_read mp addr =
    (case mp of
       None \<Rightarrow> Some (-1, None, mp)
     | Some m \<Rightarrow>
         if rdmflg m = 0 then Some (-1, None, mp)
         else do {
           let (_, m') = MEMPHY_mv_csr m addr;
           v \<leftarrow> arr_get (storage m') addr;
           Some (0, Some v, Some m')
         })"

definition MEMPHY_read ::
  "memphy option \<Rightarrow> cint \<Rightarrow> (cint \<times> u8 option \<times> memphy option) option" where
  "MEMPHY_read mp addr =
    (case mp of
       None \<Rightarrow> Some (-1, None, mp)
     | Some m \<Rightarrow>
         if rdmflg m \<noteq> 0 then do {
           v \<leftarrow> arr_get (storage m) addr;
           Some (0, Some v, mp)
         }
         else MEMPHY_seq_read mp addr)"

definition MEMPHY_seq_write ::
  "memphy option \<Rightarrow> cint \<Rightarrow> u8 \<Rightarrow> (cint \<times> memphy option) option" where
  "MEMPHY_seq_write mp addr v =
    (case mp of
       None \<Rightarrow> Some (-1, mp)
     | Some m \<Rightarrow>
         if rdmflg m = 0 then Some (-1, mp)
         else do {
           let (_, m') = MEMPHY_mv_csr m addr;
           st \<leftarrow> arr_set (storage m') addr v;
           Some (0, Some (m'\<lparr>storage := st\<rparr>))
         })"

definition MEMPHY_write ::
  "memphy option \<Rightarrow> cint \<Rightarrow> u8 \<Rightarrow> (cint \<times> memphy option) option" where
  "MEMPHY_write mp addr data =
    (case mp of
       None \<Rightarrow> Some (-1, mp)
     | Some m \<Rightarrow>
         if rdmflg m \<noteq> 0 then do {
           st \<leftarrow> arr_set (storage m) addr data;
           Some (0, Some (m\<lparr>storage := st\<rparr>))
         }
         else MEMPHY_seq_write mp addr data)"

subsection \<open>The free frame list\<close>

text \<open>The store \<open>fst->fp_next = newfst\<close> through the pointer to the last node of a list.\<close>

fun fp_link_tail :: "framephy \<Rightarrow> framephy \<Rightarrow> framephy" where
  "fp_link_tail (FpNode n (FpNode m r)) x = FpNode n (fp_link_tail (FpNode m r) x)"
| "fp_link_tail (FpNode n r) x = FpNode n x"
| "fp_link_tail l x = l"

text \<open>The loop over \<open>iter = 1, \<dots>, numfp - 1\<close>, given as the list of the values it runs through.\<close>

fun format_loop :: "framephy \<Rightarrow> int list \<Rightarrow> framephy" where
  "format_loop l [] = l"
| "format_loop l (iter # is) = format_loop (fp_link_tail l (FpNode iter FpNull)) is"

definition MEMPHY_format :: "memphy \<Rightarrow> cint \<Rightarrow> (cint \<times> memphy) option" where
  "MEMPHY_format mp pagesz =
    (if pagesz = 0 then None
     else let numfp = maxsz mp sdiv pagesz in
       if numfp \<le> 0 then Some (-1, mp)
       else Some (0, mp\<lparr>free_fp_list := format_loop (FpNode 0 FpWild) [1..numfp - 1]\<rparr>))"

definition MEMPHY_get_freefp ::
  "memphy option \<Rightarrow> (cint \<times> cint option \<times> memphy option) option" where
  "MEMPHY_get_freefp mp = do {
     m \<leftarrow> mp;
     (case free_fp_list m of
        FpNull \<Rightarrow> Some (-1, None, mp)
      | FpNode n nx \<Rightarrow> Some (0, Some n, Some (m\<lparr>free_fp_list := nx\<rparr>))
      | FpWild \<Rightarrow> None)
   }"

definition MEMPHY_put_freefp :: "memphy option \<Rightarrow> cint \<Rightarrow> (cint \<times> memphy option) option" where
  "MEMPHY_put_freefp mp n = do {
     m \<leftarrow> mp;
     Some (0, Some (m\<lparr>free_fp_list := FpNode n (free_fp_list m)\<rparr>))
   }"

definition MEMPHY_dump :: "memphy option \<Rightarrow> cint" where
  "MEMPHY_dump mp = 0"

text \<open>
  \<open>init_memphy\<close> fills a structure whose previous contents are \<open>mp\<close> (in \<open>main\<close> an uninitialised
  stack variable). A negative size makes \<open>malloc\<close> fail and \<open>memset\<close> write through a null pointer.
\<close>

definition init_memphy :: "memphy \<Rightarrow> cint \<Rightarrow> cint \<Rightarrow> (cint \<times> memphy) option" where
  "init_memphy mp max_size randomflg =
    (if max_size < 0 then None
     else do {
       let m1 = mp\<lparr>storage := replicate (nat max_size) 0, maxsz := max_size\<rparr>;
       (_, m2) \<leftarrow> MEMPHY_format m1 PAGING_PAGESZ;
       let m3 = m2\<lparr>rdmflg := (if randomflg \<noteq> 0 then 1 else 0)\<rparr>;
       let m4 = (if rdmflg m3 = 0 then m3\<lparr>cursor := 0\<rparr> else m3);
       Some (0, m4)
     })"

subsection \<open>Copying a page between devices (\<open>__swap_cp_page\<close>)\<close>

text \<open>
  The byte \<open>data\<close> is an uninitialised local in each round: writing it when the read failed would
  store an indeterminate value, which is undefined here.
\<close>

fun swap_cp_loop ::
  "memphy option \<Rightarrow> cint \<Rightarrow> memphy option \<Rightarrow> cint \<Rightarrow> int list \<Rightarrow>
   (memphy option \<times> memphy option) option" where
  "swap_cp_loop mpsrc srcfpn mpdst dstfpn [] = Some (mpsrc, mpdst)"
| "swap_cp_loop mpsrc srcfpn mpdst dstfpn (cellidx # is) = do {
     s \<leftarrow> c_ret (srcfpn * PAGING_PAGESZ);
     addrsrc \<leftarrow> c_ret (s + cellidx);
     d \<leftarrow> c_ret (dstfpn * PAGING_PAGESZ);
     addrdst \<leftarrow> c_ret (d + cellidx);
     (_, data, mpsrc') \<leftarrow> MEMPHY_read mpsrc addrsrc;
     v \<leftarrow> data;
     (_, mpdst') \<leftarrow> MEMPHY_write mpdst addrdst v;
     swap_cp_loop mpsrc' srcfpn mpdst' dstfpn is
   }"

definition swap_cp_page ::
  "memphy option \<Rightarrow> cint \<Rightarrow> memphy option \<Rightarrow> cint \<Rightarrow>
   (cint \<times> memphy option \<times> memphy option) option" where
  "swap_cp_page mpsrc srcfpn mpdst dstfpn = do {
     (s, d) \<leftarrow> swap_cp_loop mpsrc srcfpn mpdst dstfpn [0..PAGING_PAGESZ - 1];
     Some (0, s, d)
   }"

subsection \<open>Frame lists as HOL lists\<close>

fun fp_list :: "framephy \<Rightarrow> int list" where
  "fp_list (FpNode n r) = n # fp_list r"
| "fp_list _ = []"

fun fp_ended :: "framephy \<Rightarrow> bool" where
  "fp_ended FpNull = True"
| "fp_ended (FpNode n r) = fp_ended r"
| "fp_ended FpWild = False"

fun list_fp :: "int list \<Rightarrow> framephy" where
  "list_fp [] = FpNull"
| "list_fp (n # ns) = FpNode n (list_fp ns)"

lemma fp_list_list_fp [simp]: "fp_list (list_fp ns) = ns" "fp_ended (list_fp ns)"
  by (induction ns) simp_all

lemma list_fp_fp_list: "fp_ended l \<Longrightarrow> list_fp (fp_list l) = l"
  by (induction l) simp_all

lemma fp_link_tail_list_fp: "fp_link_tail (list_fp (n # ns)) (FpNode m FpNull) = list_fp (n # ns @ [m])"
  by (induction ns arbitrary: n) simp_all

lemma format_loop_list_fp: "format_loop (list_fp (n # ns)) is = list_fp (n # ns @ is)"
  by (induction "is" arbitrary: ns) (simp_all add: fp_link_tail_list_fp del: list_fp.simps)

lemma format_loop_wild: "is \<noteq> [] \<Longrightarrow> format_loop (FpNode 0 FpWild) is = list_fp (0 # is)"
  using format_loop_list_fp [of 0 "[hd is]" "tl is"] by (cases "is") simp_all

text \<open>The frames of a device, and the device's well-formedness.\<close>

definition free_frames :: "memphy \<Rightarrow> int list" where
  "free_frames m = fp_list (free_fp_list m)"

definition pool_ok :: "memphy \<Rightarrow> bool" where
  "pool_ok m \<longleftrightarrow> fp_ended (free_fp_list m)"

definition ram_ok :: "memphy \<Rightarrow> bool" where
  "ram_ok m \<longleftrightarrow> rdmflg m \<noteq> 0 \<and> int (length (storage m)) = maxsz m \<and> is_cint (maxsz m)"

subsection \<open>The operations on a well-formed device\<close>

lemma get_freefp_cases:
  assumes "pool_ok m"
  shows "MEMPHY_get_freefp (Some m) =
    (case free_frames m of
       [] \<Rightarrow> Some (-1, None, Some m)
     | n # ns \<Rightarrow> Some (0, Some n, Some (m\<lparr>free_fp_list := list_fp ns\<rparr>)))"
  using assms list_fp_fp_list
  by (cases "free_fp_list m")
    (auto simp: MEMPHY_get_freefp_def free_frames_def pool_ok_def)

lemma get_freefp_Null [simp]: "MEMPHY_get_freefp None = None"
  by (simp add: MEMPHY_get_freefp_def)

lemma put_freefp_Some:
  "MEMPHY_put_freefp (Some m) n = Some (0, Some (m\<lparr>free_fp_list := FpNode n (free_fp_list m)\<rparr>))"
  by (simp add: MEMPHY_put_freefp_def)

lemma free_frames_upd [simp]:
  "free_frames (m\<lparr>free_fp_list := l\<rparr>) = fp_list l"
  "free_frames (m\<lparr>storage := st\<rparr>) = free_frames m"
  "pool_ok (m\<lparr>free_fp_list := l\<rparr>) = fp_ended l"
  "pool_ok (m\<lparr>storage := st\<rparr>) = pool_ok m"
  "ram_ok (m\<lparr>free_fp_list := l\<rparr>) = ram_ok m"
  by (simp_all add: free_frames_def pool_ok_def ram_ok_def)

definition mp_take :: "memphy \<Rightarrow> (int \<times> memphy) option" where
  "mp_take m =
    (case MEMPHY_get_freefp (Some m) of Some (_, Some n, Some m') \<Rightarrow> Some (n, m') | _ \<Rightarrow> None)"

definition mp_give :: "int \<Rightarrow> memphy \<Rightarrow> memphy" where
  "mp_give n m = (case MEMPHY_put_freefp (Some m) n of Some (_, Some m') \<Rightarrow> m' | _ \<Rightarrow> m)"

interpretation mpool: frame_pool mp_take mp_give free_frames pool_ok
proof
  fix s :: memphy and n s'
  assume g: "pool_ok s"
  show "mp_take s = None \<longleftrightarrow> free_frames s = []"
    using get_freefp_cases [OF g] by (auto simp: mp_take_def split: list.splits)
  show "mp_take s = Some (n, s') \<Longrightarrow> free_frames s = n # free_frames s' \<and> pool_ok s'"
    using get_freefp_cases [OF g] by (auto simp: mp_take_def split: list.splits)
  show "free_frames (mp_give n s) = n # free_frames s \<and> pool_ok (mp_give n s)"
    using g by (simp add: mp_give_def put_freefp_Some free_frames_def pool_ok_def)
qed

lemma MEMPHY_read_random:
  "rdmflg m \<noteq> 0 \<Longrightarrow>
   MEMPHY_read (Some m) a = map_option (\<lambda>v. (0, Some v, Some m)) (arr_get (storage m) a)"
  by (cases "arr_get (storage m) a") (simp_all add: MEMPHY_read_def)

lemma MEMPHY_write_random:
  "rdmflg m \<noteq> 0 \<Longrightarrow>
   MEMPHY_write (Some m) a v = map_option (\<lambda>st. (0, Some (m\<lparr>storage := st\<rparr>))) (arr_set (storage m) a v)"
  by (cases "arr_set (storage m) a v") (simp_all add: MEMPHY_write_def)

definition mp_rd :: "memphy \<Rightarrow> int \<Rightarrow> u8 option" where
  "mp_rd m a = (case MEMPHY_read (Some m) a of Some (_, d, _) \<Rightarrow> d | None \<Rightarrow> None)"

definition mp_wr :: "memphy \<Rightarrow> int \<Rightarrow> u8 \<Rightarrow> memphy option" where
  "mp_wr m a v = (case MEMPHY_write (Some m) a v of Some (_, m') \<Rightarrow> m' | None \<Rightarrow> None)"

lemma mp_rd_random: "rdmflg m \<noteq> 0 \<Longrightarrow> mp_rd m a = arr_get (storage m) a"
  by (cases "arr_get (storage m) a") (simp_all add: mp_rd_def MEMPHY_read_random)

lemma mp_wr_random:
  "rdmflg m \<noteq> 0 \<Longrightarrow> mp_wr m a v = map_option (\<lambda>st. m\<lparr>storage := st\<rparr>) (arr_set (storage m) a v)"
  by (cases "arr_set (storage m) a v") (simp_all add: mp_wr_def MEMPHY_write_random)

interpretation mbytes: byte_store mp_rd mp_wr ram_ok
proof
  fix m a v m' b
  assume ok: "ram_ok m"
  then have r: "rdmflg m \<noteq> 0" by (simp add: ram_ok_def)
  show "mp_wr m a v \<noteq> None \<longleftrightarrow> mp_rd m a \<noteq> None"
    by (simp add: mp_rd_random mp_wr_random r arr_get_def arr_set_def)
  assume w: "mp_wr m a v = Some m'"
  then obtain st where st: "arr_set (storage m) a v = Some st" "m' = m\<lparr>storage := st\<rparr>"
    by (auto simp: mp_wr_random r)
  then show "mp_rd m' b = (if b = a then Some v else mp_rd m b)"
    using r by (simp add: mp_rd_random arr_get_arr_set)
  show "ram_ok m'"
    using st ok length_arr_set [OF st(1)] by (simp add: ram_ok_def)
qed

subsection \<open>The cursor of a sequential device\<close>

lemma mv_csr_loop_eq:
  assumes "0 \<le> k" "cursor m = k mod maxsz m"
  shows "mv_csr_loop m off k =
    (if k < off \<and> k < maxsz m then m\<lparr>cursor := min off (maxsz m) mod maxsz m\<rparr> else m)"
  using assms
proof (induction m off k rule: mv_csr_loop.induct)
  case (1 m off k)
  show ?case
  proof (cases "k < off \<and> k < maxsz m")
    case True
    let ?m = "m\<lparr>cursor := (cursor m + 1) mod maxsz m\<rparr>"
    have c: "cursor ?m = (k + 1) mod maxsz ?m"
      using "1.prems" by (simp add: mod_add_left_eq)
    have "mv_csr_loop m off k = mv_csr_loop ?m off (k + 1)"
      using True by (subst mv_csr_loop.simps) simp
    also have "\<dots> = (if k + 1 < off \<and> k + 1 < maxsz m
        then m\<lparr>cursor := min off (maxsz m) mod maxsz m\<rparr> else ?m)"
      using "1.IH" [OF True] "1.prems" c by simp
    also have "\<dots> = m\<lparr>cursor := min off (maxsz m) mod maxsz m\<rparr>"
    proof (cases "k + 1 < off \<and> k + 1 < maxsz m")
      case False
      with True have "min off (maxsz m) = k + 1" by auto
      with c show ?thesis using False by simp
    qed simp
    finally show ?thesis using True by simp
  next
    case False
    then show ?thesis by (subst mv_csr_loop.simps) auto
  qed
qed

text \<open>
  Moving the cursor of a device to an offset inside it leaves the cursor there; an offset beyond
  the end stops after one round, back at cell 0; a non-positive offset or an empty device leaves
  it at 0. Nothing else changes.
\<close>

lemma MEMPHY_mv_csr_cursor:
  "MEMPHY_mv_csr mp offset =
    (0, mp\<lparr>cursor := (if 0 < offset \<and> offset < maxsz mp then offset else 0)\<rparr>)"
  using mv_csr_loop_eq [of 0 "mp\<lparr>cursor := 0\<rparr>" offset]
  by (auto simp: MEMPHY_mv_csr_def min_def)

subsection \<open>Initialisation\<close>

lemma sdiv_256: "0 \<le> (x::int) \<Longrightarrow> x sdiv 256 = x div 256"
  by (cases "x = 0") (auto simp: signed_divide_int_def)

lemma init_memphy_cases:
  assumes "0 \<le> sz"
  shows "init_memphy mp sz flg = Some (0, mp\<lparr>
    storage := replicate (nat sz) 0, maxsz := sz, rdmflg := (if flg \<noteq> 0 then 1 else 0),
    cursor := (if flg \<noteq> 0 then cursor mp else 0),
    free_fp_list :=
      (if sz < 256 then free_fp_list mp else format_loop (FpNode 0 FpWild) [1..sz div 256 - 1])\<rparr>)"
proof -
  have "sz div 256 \<le> 0 \<longleftrightarrow> sz < 256" using assms by arith
  then show ?thesis
    using assms by (simp add: init_memphy_def MEMPHY_format_def PAGING_PAGESZ_def sdiv_256)
qed

text \<open>
  A device of at least two pages starts zeroed, with every whole page of it on the free list, in
  ascending order, and with a properly terminated list.
\<close>

lemma init_memphy_frames:
  assumes "2 * PAGING_PAGESZ \<le> sz" "is_cint sz"
  shows "\<exists>m. init_memphy mp sz 1 = Some (0, m) \<and> ram_ok m \<and> pool_ok m \<and>
    free_frames m = [0..sz div PAGING_PAGESZ - 1] \<and> (\<forall>a. 0 \<le> a \<and> a < sz \<longrightarrow> mp_rd m a = Some 0)"
proof -
  have sz: "512 \<le> sz" using assms(1) by (simp add: PAGING_PAGESZ_def)
  then have "2 \<le> sz div 256" by simp
  then have "[1..sz div 256 - 1] \<noteq> []" "[0..sz div 256 - 1] = 0 # [1..sz div 256 - 1]"
    by (simp_all add: upto_rec1)
  with sz assms(2) show ?thesis
    by (simp add: init_memphy_cases ram_ok_def pool_ok_def free_frames_def format_loop_wild
        mp_rd_random arr_get_in PAGING_PAGESZ_def del: list_fp.simps)
qed

text \<open>
  A device of exactly one page (256 to 511 bytes) gets a free list whose only node has a
  \<open>fp_next\<close> that was never assigned: the first frame is handed out, and the next request follows
  the wild pointer instead of reporting that the device is exhausted.
\<close>

lemma init_memphy_one_frame:
  assumes "PAGING_PAGESZ \<le> sz" "sz < 2 * PAGING_PAGESZ"
  shows "\<exists>m m'. init_memphy mp sz flg = Some (0, m) \<and>
    MEMPHY_get_freefp (Some m) = Some (0, Some 0, Some m') \<and> MEMPHY_get_freefp (Some m') = None"
proof -
  have "sz div 256 = 1" "0 \<le> sz" "256 \<le> sz"
    using assms div_pos_pos_trivial [of "sz - 256" 256] by (simp_all add: PAGING_PAGESZ_def)
  then show ?thesis by (simp add: init_memphy_cases MEMPHY_get_freefp_def)
qed

text \<open>
  A device initialised as sequential (\<open>randomflg = 0\<close>) can never be read or written: the test of
  \<open>rdmflg\<close> in \<open>MEMPHY_seq_read\<close> and \<open>MEMPHY_seq_write\<close> is the wrong way round, so both report an
  error and change nothing, whatever the address.
\<close>

lemma sequential_device_dead:
  assumes "init_memphy mp sz 0 = Some (r, m)"
  shows "MEMPHY_read (Some m) a = Some (-1, None, Some m) \<and> MEMPHY_write (Some m) a v = Some (-1, Some m)"
proof -
  have "0 \<le> sz" using assms by (simp add: init_memphy_def split: if_splits)
  with assms have "rdmflg m = 0" by (auto simp: init_memphy_cases)
  then show ?thesis
    by (simp add: MEMPHY_read_def MEMPHY_write_def MEMPHY_seq_read_def MEMPHY_seq_write_def)
qed

definition blank_memphy :: memphy where
  "blank_memphy = \<lparr>storage = [], maxsz = 0, rdmflg = 0, cursor = 0, free_fp_list = FpWild,
     used_fp_list = FpWild\<rparr>"

lemma sequential_device_dead_witness:
  "\<exists>m. init_memphy blank_memphy 4 0 = Some (0, m) \<and> MEMPHY_read (Some m) 2 = Some (-1, None, Some m)"
proof -
  obtain m where "init_memphy blank_memphy 4 0 = Some (0, m)" by (simp add: init_memphy_cases)
  with sequential_device_dead [OF this, of 2 0] show ?thesis by blast
qed

lemma init_memphy_frames_witness:
  "\<exists>m. init_memphy blank_memphy 1024 1 = Some (0, m) \<and> free_frames m = [0, 1, 2, 3]"
proof -
  have "[0..(1024::int) div PAGING_PAGESZ - 1] = [0, 1, 2, 3]" by code_simp
  then show ?thesis
    using init_memphy_frames [of 1024 blank_memphy] by (auto simp: PAGING_PAGESZ_def is_cint_def)
qed

lemma init_memphy_one_frame_witness:
  "\<exists>m m'. init_memphy blank_memphy 300 1 = Some (0, m) \<and>
    MEMPHY_get_freefp (Some m) = Some (0, Some 0, Some m') \<and> MEMPHY_get_freefp (Some m') = None"
  using init_memphy_one_frame [of 300 blank_memphy 1] by (simp add: PAGING_PAGESZ_def)

subsection \<open>Taking and returning frames\<close>

text \<open>
  \<open>MEMPHY_get_freefp\<close> hands out the first free frame and keeps the rest in order; the frame it
  hands out is no longer free, so no frame is ever given to two users; on an exhausted device it
  reports an error and changes nothing.
\<close>

lemma get_freefp_spec:
  assumes "pool_ok m" "distinct (free_frames m)"
  shows "(free_frames m = [] \<longrightarrow> MEMPHY_get_freefp (Some m) = Some (-1, None, Some m)) \<and>
    (\<forall>n ns. free_frames m = n # ns \<longrightarrow>
      (\<exists>m'. MEMPHY_get_freefp (Some m) = Some (0, Some n, Some m') \<and> free_frames m' = ns \<and>
        pool_ok m' \<and> distinct (free_frames m') \<and> n \<notin> set (free_frames m') \<and>
        storage m' = storage m))"
  using assms get_freefp_cases [OF assms(1)] by auto

lemma get_freefp_spec_witness:
  "MEMPHY_get_freefp (Some (blank_memphy\<lparr>free_fp_list := list_fp [7, 3]\<rparr>)) =
   Some (0, Some 7, Some (blank_memphy\<lparr>free_fp_list := list_fp [3]\<rparr>))"
proof -
  let ?m = "blank_memphy\<lparr>free_fp_list := list_fp [7, 3]\<rparr>"
  have "pool_ok ?m" "distinct (free_frames ?m)" "free_frames ?m = 7 # [3]" by simp_all
  then have "\<exists>m'. MEMPHY_get_freefp (Some ?m) = Some (0, Some 7, Some m') \<and> free_frames m' = [3]"
    using get_freefp_spec [of ?m] by blast
  then show ?thesis by (auto simp: MEMPHY_get_freefp_def)
qed

text \<open>
  A frame that is put back is the next one handed out, and the free list is then what it was: the
  pool is a stack.
\<close>

lemma put_get_freefp:
  assumes "MEMPHY_put_freefp (Some m) n = Some (r, mp)"
  shows "r = 0 \<and> MEMPHY_get_freefp mp = Some (0, Some n, Some m)"
  using assms by (auto simp: put_freefp_Some MEMPHY_get_freefp_def)

lemma put_get_freefp_witness:
  "\<exists>mp. MEMPHY_put_freefp (Some blank_memphy) 9 = Some (0, mp) \<and>
    MEMPHY_get_freefp mp = Some (0, Some 9, Some blank_memphy)"
  using put_get_freefp [OF put_freefp_Some [of blank_memphy 9]] put_freefp_Some by blast

subsection \<open>Reading, writing and copying\<close>

text \<open>
  On a random-access device a write in range succeeds and is read back; every other address
  keeps its byte, and the free list is untouched.
\<close>

lemma memphy_read_after_write:
  assumes "ram_ok m" "0 \<le> a" "a < maxsz m"
  shows "\<exists>m'. MEMPHY_write (Some m) a v = Some (0, Some m') \<and> ram_ok m' \<and>
    MEMPHY_read (Some m') a = Some (0, Some v, Some m') \<and>
    (\<forall>b. b \<noteq> a \<longrightarrow> mp_rd m' b = mp_rd m b) \<and> free_frames m' = free_frames m"
proof -
  have r: "rdmflg m \<noteq> 0" and len: "a < int (length (storage m))"
    using assms by (simp_all add: ram_ok_def)
  let ?m' = "m\<lparr>storage := (storage m)[nat a := v]\<rparr>"
  have w: "MEMPHY_write (Some m) a v = Some (0, Some ?m')"
    using r len assms(2) by (simp add: MEMPHY_write_random arr_set_in)
  then have mw: "mp_wr m a v = Some ?m'" by (simp add: mp_wr_def)
  have "MEMPHY_read (Some ?m') a = Some (0, Some v, Some ?m')"
    using r len assms(2) by (simp add: MEMPHY_read_random arr_get_in)
  then show ?thesis
    using w mbytes.ok_wr [OF assms(1) mw] mbytes.rd_wr_other [OF assms(1) mw] by simp
qed

lemma memphy_read_after_write_witness:
  "\<exists>m'. MEMPHY_write (Some (blank_memphy\<lparr>storage := [1, 2], maxsz := 2, rdmflg := 1\<rparr>)) 1 7 =
      Some (0, Some m') \<and> MEMPHY_read (Some m') 1 = Some (0, Some 7, Some m')"
  using memphy_read_after_write [of "blank_memphy\<lparr>storage := [1, 2], maxsz := 2, rdmflg := 1\<rparr>" 1 7]
  by (auto simp: ram_ok_def is_cint_def)

definition page_in :: "memphy \<Rightarrow> int \<Rightarrow> bool" where
  "page_in m n \<longleftrightarrow> 0 \<le> n \<and> n * PAGING_PAGESZ + PAGING_PAGESZ \<le> maxsz m"

lemma page_in_addr:
  assumes "ram_ok m" "page_in m n" "0 \<le> i" "i < PAGING_PAGESZ"
  shows "c_ret (n * PAGING_PAGESZ) = Some (n * PAGING_PAGESZ)"
    "c_ret (n * PAGING_PAGESZ + i) = Some (n * PAGING_PAGESZ + i)"
    "0 \<le> n * PAGING_PAGESZ + i" "n * PAGING_PAGESZ + i < maxsz m"
  using assms by (auto simp: ram_ok_def page_in_def PAGING_PAGESZ_def is_cint_def c_ret_def)

lemma ram_ok_store [simp]:
  "ram_ok d \<Longrightarrow> ram_ok (d\<lparr>storage := (storage d)[k := v]\<rparr>)"
  by (simp add: ram_ok_def)

lemma swap_cp_loop_eq:
  assumes "ram_ok s" "ram_ok d" "page_in s sf" "page_in d df" "set is \<subseteq> {0..<PAGING_PAGESZ}"
  shows "\<exists>st. swap_cp_loop (Some s) sf (Some d) df is = Some (Some s, Some (d\<lparr>storage := st\<rparr>)) \<and>
    length st = length (storage d) \<and>
    (\<forall>k. st ! k = (if int k - df * PAGING_PAGESZ \<in> set is
      then storage s ! nat (sf * PAGING_PAGESZ + (int k - df * PAGING_PAGESZ)) else storage d ! k))"
  using assms
proof (induction "is" arbitrary: d)
  case Nil
  then show ?case by (auto intro!: exI [of _ "storage d"])
next
  case (Cons i "is")
  then have i: "0 \<le> i" "i < PAGING_PAGESZ" by auto
  note sa = page_in_addr [OF Cons.prems(1,3) i] and da = page_in_addr [OF Cons.prems(2,4) i]
  let ?v = "storage s ! nat (sf * PAGING_PAGESZ + i)"
  let ?d = "d\<lparr>storage := (storage d)[nat (df * PAGING_PAGESZ + i) := ?v]\<rparr>"
  have "MEMPHY_read (Some s) (sf * PAGING_PAGESZ + i) = Some (0, Some ?v, Some s)"
    using sa Cons.prems(1) by (simp add: MEMPHY_read_random arr_get_in ram_ok_def)
  moreover have "MEMPHY_write (Some d) (df * PAGING_PAGESZ + i) ?v = Some (0, Some ?d)"
    using da Cons.prems(2) by (simp add: MEMPHY_write_random arr_set_in ram_ok_def)
  ultimately have step: "swap_cp_loop (Some s) sf (Some d) df (i # is) = swap_cp_loop (Some s) sf (Some ?d) df is"
    using sa da by simp
  have pd: "page_in ?d df" using Cons.prems(4) by (simp add: page_in_def)
  have sub: "set is \<subseteq> {0..<PAGING_PAGESZ}" using Cons.prems(5) by simp
  obtain st where st:
    "swap_cp_loop (Some s) sf (Some ?d) df is = Some (Some s, Some (?d\<lparr>storage := st\<rparr>))"
    "length st = length (storage d)"
    "\<And>k. st ! k = (if int k - df * PAGING_PAGESZ \<in> set is
      then storage s ! nat (sf * PAGING_PAGESZ + (int k - df * PAGING_PAGESZ)) else storage ?d ! k)"
    using Cons.IH [OF Cons.prems(1) ram_ok_store [OF Cons.prems(2)] Cons.prems(3) pd sub] by auto
  have len: "nat (df * PAGING_PAGESZ + i) < length (storage d)"
    using da(3,4) Cons.prems(2) unfolding ram_ok_def by linarith
  have "st ! k = (if int k - df * PAGING_PAGESZ \<in> set (i # is)
      then storage s ! nat (sf * PAGING_PAGESZ + (int k - df * PAGING_PAGESZ)) else storage d ! k)" for k
  proof (cases "int k = df * PAGING_PAGESZ + i")
    case True
    then have "k = nat (df * PAGING_PAGESZ + i)" "int k - df * PAGING_PAGESZ = i" by linarith+
    then have "storage ?d ! k = ?v" "int k - df * PAGING_PAGESZ = i" using len by simp_all
    then show ?thesis unfolding st(3) by simp
  next
    case False
    then have "k \<noteq> nat (df * PAGING_PAGESZ + i)" using da(3) by linarith
    then have "storage ?d ! k = storage d ! k" by simp
    then show ?thesis unfolding st(3) using False by auto
  qed
  with step st(1,2) show ?case by (intro exI [of _ st]) (simp del: swap_cp_loop.simps)
qed

lemma swap_cp_page_full:
  assumes "ram_ok s" "ram_ok d" "page_in s sf" "page_in d df"
  shows "\<exists>d'. swap_cp_page (Some s) sf (Some d) df = Some (0, Some s, Some d') \<and> ram_ok d' \<and>
    free_fp_list d' = free_fp_list d \<and> maxsz d' = maxsz d \<and>
    (\<forall>i. 0 \<le> i \<and> i < PAGING_PAGESZ \<longrightarrow>
      mp_rd d' (df * PAGING_PAGESZ + i) = mp_rd s (sf * PAGING_PAGESZ + i)) \<and>
    (\<forall>a. a < df * PAGING_PAGESZ \<or> df * PAGING_PAGESZ + PAGING_PAGESZ \<le> a \<longrightarrow> mp_rd d' a = mp_rd d a)"
proof -
  have "set [0..PAGING_PAGESZ - 1] \<subseteq> {0..<PAGING_PAGESZ}" by auto
  from swap_cp_loop_eq [OF assms this] obtain st where st:
    "swap_cp_loop (Some s) sf (Some d) df [0..PAGING_PAGESZ - 1] = Some (Some s, Some (d\<lparr>storage := st\<rparr>))"
    "length st = length (storage d)"
    "\<And>k. st ! k = (if 0 \<le> int k - df * PAGING_PAGESZ \<and> int k - df * PAGING_PAGESZ < PAGING_PAGESZ
      then storage s ! nat (sf * PAGING_PAGESZ + (int k - df * PAGING_PAGESZ)) else storage d ! k)"
    by auto
  let ?d = "d\<lparr>storage := st\<rparr>"
  have ok: "ram_ok ?d" using assms(2) st(2) by (simp add: ram_ok_def)
  have rs: "mp_rd s a = arr_get (storage s) a" "mp_rd d a = arr_get (storage d) a"
    "mp_rd ?d a = arr_get st a" for a
    using assms(1,2) by (simp_all add: mp_rd_random ram_ok_def)
  have "mp_rd ?d (df * PAGING_PAGESZ + i) = mp_rd s (sf * PAGING_PAGESZ + i)"
    if i: "0 \<le> i" "i < PAGING_PAGESZ" for i
    using page_in_addr [OF assms(1,3) i] page_in_addr [OF assms(2,4) i] assms(1,2) i st(2)
    by (simp add: rs arr_get_in ram_ok_def st(3))
  moreover have "mp_rd ?d a = mp_rd d a"
    if "a < df * PAGING_PAGESZ \<or> df * PAGING_PAGESZ + PAGING_PAGESZ \<le> a" for a
    using that st(2) by (auto simp: rs arr_get_def st(3))
  ultimately show ?thesis
    using st(1) ok by (simp add: swap_cp_page_def)
qed

text \<open>
  C24. \<open>__swap_cp_page\<close> between two random-access devices copies exactly the 256 bytes of the source
  frame to the destination frame: it returns, the source device is unchanged, and every byte of the
  destination device outside the frame is unchanged.
\<close>

theorem swap_cp_page_copies:
  assumes "ram_ok s" "ram_ok d" "page_in s sf" "page_in d df"
  shows "\<exists>d'. swap_cp_page (Some s) sf (Some d) df = Some (0, Some s, Some d') \<and> ram_ok d' \<and>
    free_fp_list d' = free_fp_list d \<and>
    (\<forall>i. 0 \<le> i \<and> i < PAGING_PAGESZ \<longrightarrow>
      mp_rd d' (df * PAGING_PAGESZ + i) = mp_rd s (sf * PAGING_PAGESZ + i)) \<and>
    (\<forall>a. a < df * PAGING_PAGESZ \<or> df * PAGING_PAGESZ + PAGING_PAGESZ \<le> a \<longrightarrow> mp_rd d' a = mp_rd d a)"
  using swap_cp_page_full [OF assms] by blast

theorem swap_cp_page_copies_witness:
  "\<exists>d'. swap_cp_page
      (Some (blank_memphy\<lparr>storage := replicate 512 7, maxsz := 512, rdmflg := 1\<rparr>)) 1
      (Some (blank_memphy\<lparr>storage := replicate 256 0, maxsz := 256, rdmflg := 1\<rparr>)) 0 =
      Some (0, Some (blank_memphy\<lparr>storage := replicate 512 7, maxsz := 512, rdmflg := 1\<rparr>), Some d')
    \<and> mp_rd d' 3 = Some 7"
proof -
  let ?s = "blank_memphy\<lparr>storage := replicate 512 7, maxsz := 512, rdmflg := 1\<rparr>"
  let ?d = "blank_memphy\<lparr>storage := replicate 256 0, maxsz := 256, rdmflg := 1\<rparr>"
  have ok: "ram_ok ?s" "ram_ok ?d" "page_in ?s 1" "page_in ?d 0"
    by (simp_all add: ram_ok_def page_in_def is_cint_def PAGING_PAGESZ_def)
  have "mp_rd ?s (1 * PAGING_PAGESZ + 3) = Some 7"
    by (simp add: mp_rd_random arr_get_def PAGING_PAGESZ_def)
  moreover have "(3::int) < PAGING_PAGESZ" by (simp add: PAGING_PAGESZ_def)
  ultimately show ?thesis using swap_cp_page_copies [OF ok] by fastforce
qed

end
