(* ===== verification/Common.thy ===== *)
theory Common
  imports Memphy
begin

text \<open>
  The data of \<open>include/common.h\<close> and \<open>include/os-mm.h\<close>: instructions, the virtual memory
  structures of a process, and its control block \<open>pcb_t\<close>.

  Memory regions are linked by pointers that alias: a node of the free region list is either a
  block of the heap or, after \<open>__free\<close>, a slot of the symbol table of the same process. So region
  pointers are values of \<open>rg_ptr\<close>, and \<open>mm_struct\<close> holds, beside the C fields, the heap blocks
  of type \<open>vm_rg_struct\<close> that belong to the process (\<open>rg_heap\<close>) and the next fresh block name
  (\<open>rg_fresh\<close>). \<open>RgWild\<close> is a non-null pointer to no object (an unassigned one). The list of areas
  hangs on \<open>mmap\<close> and is never shared, so it is a list (\<open>vm_next\<close> is the next element, the last
  one has a null \<open>vm_next\<close>), and a \<open>vm_area_struct *\<close> is an index in it; the back pointer \<open>vm_mm\<close>
  is never read and is left out. A \<open>pgn_t\<close> list is owned by its process.
\<close>

subsection \<open>Instructions and code\<close>

datatype ins_opcode_t = CALC | ALLOC | FREE | READ | WRITE | SYSCALL

record inst_t =
  opcode :: ins_opcode_t
  arg_0 :: u32
  arg_1 :: u32
  arg_2 :: u32
  arg_3 :: u32

record code_seg_t =
  cs_text :: "inst_t list"
  cs_size :: u32

subsection \<open>Virtual memory of a process\<close>

definition PAGING_MAX_SYMTBL_SZ :: cint where
  "PAGING_MAX_SYMTBL_SZ = 30"

definition PAGING_MAX_MMSWP :: cint where
  "PAGING_MAX_MMSWP = 4"

datatype rg_ptr = RgNull | RgSym nat | RgHeap nat | RgWild

record vm_rg_struct =
  rg_start :: u64
  rg_end :: u64
  rg_next :: rg_ptr

record vm_area_struct =
  vm_id :: u64
  vm_start :: u64
  vm_end :: u64
  sbrk :: u64
  vm_freerg_list :: rg_ptr

datatype pgn_list = PgNull | PgNode (pgn: cint) (pg_next: pgn_list) | PgWild

record mm_struct =
  pgd :: "u32 list"
  mmap :: "vm_area_struct list"
  symrgtbl :: "vm_rg_struct list"
  fifo_pgn :: pgn_list
  rg_heap :: "nat \<Rightarrow> vm_rg_struct option"
  rg_fresh :: nat

subsection \<open>The two-level page table of the flat memory (\<open>src/mem.c\<close>)\<close>

text \<open>
  A row that was never assigned is \<open>None\<close>; the second-level tables are owned by the rows of the
  first level.
\<close>

record trans_row =
  tv_index :: u32
  p_index :: u32

record trans_table_t =
  tt_table :: "trans_row option list"
  tt_size :: cint

record page_row =
  v_index :: u32
  next_lv :: trans_table_t

record page_table_t =
  pt_table :: "page_row option list"
  pt_size :: cint

subsection \<open>Process control block\<close>

text \<open>
  Pointers to the queues of the scheduler: the three static queues and the array of ready queues
  (a pointer to the array is one to its first queue). \<open>Q_wild\<close> is an unassigned field.
\<close>

datatype queue_ref = Q_null | Q_ready | Q_running | Q_mlq nat | Q_wild

text \<open>
  The device pointers \<open>mram\<close>, \<open>mswp\<close>, \<open>active_mswp\<close> are not fields here: the loader gives every
  process the same two devices, which are the state \<open>devs\<close> below. \<open>mm\<close> is \<open>None\<close> until the
  loader has allocated and initialised it. \<open>page_table\<close> is the table the field points to.
\<close>

record pcb_t =
  pid :: u32
  priority :: u32
  path :: string
  code :: code_seg_t
  regs :: "u32 list"
  pc :: u32
  ready_queue :: queue_ref
  running_list :: queue_ref
  mlq_ready_queue :: queue_ref
  prio :: u32
  mm :: "mm_struct option"
  page_table :: page_table_t
  bp :: u32

text \<open>The devices every process works on: \<open>caller->mram\<close> and \<open>caller->active_mswp\<close>.\<close>

record devs =
  mram :: "memphy option"
  active_mswp :: "memphy option"

end
