(* ===== verification/Pte.thy ===== *)
theory Pte
  imports Bitops
begin

text \<open>
  The page table entry constructors of \<open>src/mm.c\<close>. Each C function takes the entry by reference
  and returns a code; the model takes the entry and returns the code and the new entry. An \<open>int\<close>
  operand of a mask operation is converted to \<open>unsigned int\<close>. A left shift of a negative or large
  \<open>int\<close> (only \<open>swpoff << 5\<close>) is the two's complement shift gcc computes.
\<close>

definition init_pte ::
  "u32 \<Rightarrow> cint \<Rightarrow> cint \<Rightarrow> cint \<Rightarrow> cint \<Rightarrow> cint \<Rightarrow> cint \<Rightarrow> cint \<times> u32" where
  "init_pte pte pre fpn drt swp swptyp swpoff =
    (if pre \<noteq> 0 then
       if swp = 0 then
         if fpn = 0 then (-1, pte)
         else
           (let p1 = SETBIT pte PAGING_PTE_PRESENT_MASK;
                p2 = CLRBIT p1 PAGING_PTE_SWAPPED_MASK;
                p3 = CLRBIT p2 PAGING_PTE_DIRTY_MASK;
                p4 = SETVAL p3 (u32_of_int fpn) PAGING_PTE_FPN_MASK PAGING_PTE_FPN_LOBIT
            in (0, p4))
       else
         (let p1 = SETBIT pte PAGING_PTE_PRESENT_MASK;
              p2 = SETBIT p1 PAGING_PTE_SWAPPED_MASK;
              p3 = CLRBIT p2 PAGING_PTE_DIRTY_MASK;
              p4 = SETVAL p3 (u32_of_int swptyp) PAGING_PTE_SWPTYP_MASK PAGING_PTE_SWPTYP_LOBIT;
              p5 = SETVAL p4 (u32_of_int swpoff) PAGING_PTE_SWPOFF_MASK PAGING_PTE_SWPOFF_LOBIT
          in (0, p5))
     else (0, pte))"

definition pte_set_swap :: "u32 \<Rightarrow> cint \<Rightarrow> cint \<Rightarrow> cint \<times> u32" where
  "pte_set_swap pte swptyp swpoff =
    (let p1 = SETBIT pte PAGING_PTE_PRESENT_MASK;
         p2 = SETBIT p1 PAGING_PTE_SWAPPED_MASK;
         p3 = SETVAL p2 (u32_of_int swptyp) PAGING_PTE_SWPTYP_MASK PAGING_PTE_SWPTYP_LOBIT;
         p4 = SETVAL p3 (u32_of_int swpoff) PAGING_PTE_SWPOFF_MASK PAGING_PTE_SWPOFF_LOBIT
     in (0, p4))"

definition pte_set_fpn :: "u32 \<Rightarrow> cint \<Rightarrow> cint \<times> u32" where
  "pte_set_fpn pte fpn =
    (let p1 = SETBIT pte PAGING_PTE_PRESENT_MASK;
         p2 = CLRBIT p1 PAGING_PTE_SWAPPED_MASK;
         p3 = SETVAL p2 (u32_of_int fpn) PAGING_PTE_FPN_MASK PAGING_PTE_FPN_LOBIT
     in (0, p3))"

subsection \<open>The entries bit by bit\<close>

lemma bit_pte_set_fpn:
  "bit (snd (pte_set_fpn pte fpn)) n \<longleftrightarrow>
    (if n \<le> 12 then bit (u32_of_int fpn) n
     else if n = 30 then False else if n = 31 then True else bit pte n)"
  by (auto simp: pte_set_fpn_def Let_def bit_simps PAGING_PTE_FPN_LOBIT_def)

lemma bit_pte_set_swap:
  "bit (snd (pte_set_swap pte swptyp swpoff)) n \<longleftrightarrow>
    (if n \<le> 4 then bit (u32_of_int swptyp) n
     else if n \<le> 25 then bit (u32_of_int swpoff) (n - 5)
     else if n = 30 \<or> n = 31 then True else bit pte n)"
  by (auto simp: pte_set_swap_def Let_def bit_simps PAGING_PTE_SWPTYP_LOBIT_def
      PAGING_PTE_SWPOFF_LOBIT_def)

lemma PAGING_FPN_u32_of_int:
  assumes "0 \<le> i" "i < 8192"
  shows "int_of_u32 (PAGING_FPN (u32_of_int i)) = i"
  using assms by (simp add: int_of_PAGING_FPN u32_of_int_def uint_word_of_int_32)

lemma PAGING_FPN_pte_set_fpn: "PAGING_FPN (snd (pte_set_fpn pte fpn)) = PAGING_FPN (u32_of_int fpn)"
  by (rule bit_word_eqI) (auto simp: PAGING_FPN_take_bit bit_take_bit_iff bit_pte_set_fpn)

lemma PAGE_PRESENT_pte_set_fpn: "PAGING_PAGE_PRESENT (snd (pte_set_fpn pte fpn)) \<noteq> 0"
  by (simp add: PAGE_PRESENT_iff bit_pte_set_fpn)

lemma int_of_FPN_pte_set_fpn:
  "0 \<le> fpn \<Longrightarrow> fpn < 8192 \<Longrightarrow> int_of_u32 (PAGING_FPN (snd (pte_set_fpn pte fpn))) = fpn"
  by (simp add: PAGING_FPN_pte_set_fpn PAGING_FPN_u32_of_int)


text \<open>
  \<open>pte_set_fpn\<close> stores any 13-bit frame number so that \<open>PAGING_FPN\<close> reads it back, marks the
  entry present and not swapped, and keeps every other bit of the old entry.
\<close>

lemma pte_set_fpn_roundtrip:
  assumes "0 \<le> fpn" "fpn < 2 ^ (PAGING_PTE_FPN_HIBIT + 1)" "pte_set_fpn pte fpn = (r, pte')"
  shows "r = 0 \<and> int_of_u32 (PAGING_FPN pte') = fpn \<and> PAGING_PAGE_PRESENT pte' \<noteq> 0 \<and>
    pte' AND PAGING_PTE_SWAPPED_MASK = 0 \<and>
    (\<forall>n. PAGING_PTE_FPN_HIBIT < n \<and> n < 30 \<longrightarrow> bit pte' n = bit pte n)"
proof -
  have pte': "pte' = snd (pte_set_fpn pte fpn)" and "r = 0"
    using assms(3) by (simp_all add: pte_set_fpn_def Let_def)
  moreover have "pte' AND PAGING_PTE_SWAPPED_MASK = 0"
    by (rule bit_word_eqI) (auto simp: pte' bit_pte_set_fpn bit_simps)
  ultimately show ?thesis
    using assms(1,2) PAGE_PRESENT_pte_set_fpn [of pte fpn]
    by (simp add: int_of_FPN_pte_set_fpn bit_pte_set_fpn PAGING_PTE_FPN_HIBIT_def)
qed

lemma pte_set_fpn_roundtrip_witness:
  "pte_set_fpn 0xFFFFFFFF 5 = (0, 0xBFFFE005) \<and> int_of_u32 (PAGING_FPN 0xBFFFE005) = 5"
proof -
  have *: "pte_set_fpn 0xFFFFFFFF 5 = (0, 0xBFFFE005)" by code_simp
  have "(5::int) < 2 ^ (PAGING_PTE_FPN_HIBIT + 1)" by (simp add: PAGING_PTE_FPN_HIBIT_def)
  from * pte_set_fpn_roundtrip [OF _ this *] show ?thesis by simp
qed

text \<open>
  \<open>pte_set_swap\<close> stores a swap type and a swap frame that \<open>PAGING_SWP\<close> reads back, but it also
  sets the PRESENT bit: an entry that says "swapped out" passes the presence test, so the page
  fault path of \<open>pg_getpage\<close> is never taken for it.
\<close>

lemma pte_set_swap_roundtrip:
  assumes "0 \<le> swpoff" "swpoff < 2 ^ 21" "0 \<le> swptyp" "swptyp < 2 ^ 5"
    and "pte_set_swap pte swptyp swpoff = (r, pte')"
  shows "r = 0 \<and> int_of_u32 (PAGING_SWP pte') = swpoff \<and>
    GETVAL pte' PAGING_PTE_SWPTYP_MASK PAGING_PTE_SWPTYP_LOBIT = u32_of_int swptyp \<and>
    pte' AND PAGING_PTE_SWAPPED_MASK \<noteq> 0 \<and> PAGING_PAGE_PRESENT pte' \<noteq> 0"
proof -
  have pte': "pte' = snd (pte_set_swap pte swptyp swpoff)" and r: "r = 0"
    using assms(5) by (simp_all add: pte_set_swap_def Let_def)
  have "PAGING_SWP pte' = take_bit 21 (u32_of_int swpoff)"
    by (rule bit_word_eqI) (auto simp: PAGING_SWP_take_bit bit_take_bit_iff bit_drop_bit_eq pte'
        bit_pte_set_swap)
  then have swp: "int_of_u32 (PAGING_SWP pte') = swpoff"
    using assms(1,2) by (simp add: int_of_u32_small uint_take_bit_u32 u32_of_int_def
        uint_word_of_int_32)
  have small: "u32_of_int swptyp = take_bit 5 (u32_of_int swptyp)"
    using assms(3,4) by (simp add: u32_of_int_def word_uint_eq_iff uint_take_bit_u32
        uint_word_of_int_32)
  have "GETVAL pte' PAGING_PTE_SWPTYP_MASK PAGING_PTE_SWPTYP_LOBIT = take_bit 5 (u32_of_int swptyp)"
    by (rule bit_word_eqI) (auto simp: bit_simps PAGING_PTE_SWPTYP_LOBIT_def pte' bit_pte_set_swap)
  moreover have "bit (pte' AND PAGING_PTE_SWAPPED_MASK) 30"
    by (simp add: bit_simps pte' bit_pte_set_swap)
  then have "pte' AND PAGING_PTE_SWAPPED_MASK \<noteq> 0" by auto
  ultimately show ?thesis
    using r swp small by (simp add: PAGE_PRESENT_iff pte' bit_pte_set_swap)
qed

lemma pte_set_swap_roundtrip_witness:
  "pte_set_swap 0 3 77 = (0, 0xC00009A3) \<and> int_of_u32 (PAGING_SWP 0xC00009A3) = 77 \<and>
   PAGING_PAGE_PRESENT 0xC00009A3 \<noteq> 0"
proof -
  have "pte_set_swap 0 3 77 = (0, 0xC00009A3)" by code_simp
  with pte_set_swap_roundtrip [OF _ _ _ _ this] show ?thesis by simp
qed

end
