(* ===== verification/Vm.thy ===== *)
theory Vm
  imports Common Pte
begin

text \<open>
  Virtual memory management: \<open>src/mm-vm.c\<close> and the mapping part of \<open>src/mm.c\<close>.

  An operation that takes \<open>struct pcb_t *caller\<close> takes the control block and the devices and
  returns the C result with the new control block and devices. A region structure that is only
  used as a local (\<open>newrg_tmp\<close>, the region \<open>get_vm_area_node_at_brk\<close> returns) is a value; both
  blocks are leaked by the C code on some paths, which has no effect on later behaviour. A name that
  starts with two underscores in C has none here.
\<close>

subsection \<open>Region pointers\<close>

fun rg_load :: "mm_struct \<Rightarrow> rg_ptr \<Rightarrow> vm_rg_struct option" where
  "rg_load m RgNull = None"
| "rg_load m RgWild = None"
| "rg_load m (RgSym i) = (if i < length (symrgtbl m) then Some (symrgtbl m ! i) else None)"
| "rg_load m (RgHeap a) = rg_heap m a"

fun rg_store :: "mm_struct \<Rightarrow> rg_ptr \<Rightarrow> vm_rg_struct \<Rightarrow> mm_struct option" where
  "rg_store m RgNull r = None"
| "rg_store m RgWild r = None"
| "rg_store m (RgSym i) r =
    (if i < length (symrgtbl m) then Some (m\<lparr>symrgtbl := (symrgtbl m)[i := r]\<rparr>) else None)"
| "rg_store m (RgHeap a) r =
    (if rg_heap m a = None then None else Some (m\<lparr>rg_heap := (rg_heap m)(a := Some r)\<rparr>))"

definition rg_malloc :: "mm_struct \<Rightarrow> vm_rg_struct \<Rightarrow> rg_ptr \<times> mm_struct" where
  "rg_malloc m r =
    (RgHeap (rg_fresh m),
     m\<lparr>rg_heap := (rg_heap m)(rg_fresh m := Some r), rg_fresh := Suc (rg_fresh m)\<rparr>)"

text \<open>\<open>free\<close> of anything but a live heap block is undefined.\<close>

fun rg_free :: "mm_struct \<Rightarrow> rg_ptr \<Rightarrow> mm_struct option" where
  "rg_free m (RgHeap a) =
    (if rg_heap m a = None then None else Some (m\<lparr>rg_heap := (rg_heap m)(a := None)\<rparr>))"
| "rg_free m RgNull = Some m"
| "rg_free m _ = None"

subsection \<open>Areas (\<open>get_vma_by_num\<close>)\<close>

fun get_vma_loop :: "vm_area_struct list \<Rightarrow> cint \<Rightarrow> nat \<Rightarrow> nat option" where
  "get_vma_loop [] vmaid k = None"
| "get_vma_loop (v # vs) vmaid k =
    (if int_of_u64 (vm_id v) < vmaid then get_vma_loop vs vmaid (Suc k) else Some k)"

definition get_vma_by_num :: "mm_struct \<Rightarrow> cint \<Rightarrow> nat option" where
  "get_vma_by_num m vmaid = get_vma_loop (mmap m) vmaid 0"

definition vma_set :: "mm_struct \<Rightarrow> nat \<Rightarrow> vm_area_struct \<Rightarrow> mm_struct" where
  "vma_set m k v = m\<lparr>mmap := (mmap m)[k := v]\<rparr>"

subsection \<open>Lists and initialisation (\<open>mm.c\<close>)\<close>

definition init_vm_rg :: "mm_struct \<Rightarrow> cint \<Rightarrow> cint \<Rightarrow> rg_ptr \<times> mm_struct" where
  "init_vm_rg m s e =
    rg_malloc m \<lparr>rg_start = u64_of_int s, rg_end = u64_of_int e, rg_next = RgNull\<rparr>"

definition enlist_vm_rg_node ::
  "mm_struct \<Rightarrow> rg_ptr \<Rightarrow> rg_ptr \<Rightarrow> (cint \<times> rg_ptr \<times> mm_struct) option" where
  "enlist_vm_rg_node m rglist rgnode = do {
     r \<leftarrow> rg_load m rgnode;
     m' \<leftarrow> rg_store m rgnode (r\<lparr>rg_next := rglist\<rparr>);
     Some (0, rgnode, m')
   }"

definition enlist_pgn_node :: "pgn_list \<Rightarrow> cint \<Rightarrow> cint \<times> pgn_list" where
  "enlist_pgn_node plist n = (0, PgNode n plist)"

text \<open>
  \<open>init_mm\<close>: \<open>m\<close> is the freshly allocated structure, \<open>pgd0\<close> the contents of the block allocated
  for the page directory and \<open>freerg0\<close> the unassigned \<open>vm_freerg_list\<close> of the block allocated for
  the area. \<open>symrgtbl\<close>, \<open>fifo_pgn\<close> and the entries of the directory keep what the blocks held.
\<close>

definition init_mm :: "mm_struct \<Rightarrow> u32 list \<Rightarrow> rg_ptr \<Rightarrow> (cint \<times> mm_struct) option" where
  "init_mm m pgd0 freerg0 = do {
     let m1 = m\<lparr>pgd := pgd0\<rparr>;
     let (first_rg, m2) = init_vm_rg m1 0 0;
     (_, freerg, m3) \<leftarrow> enlist_vm_rg_node m2 freerg0 first_rg;
     let vma0 = \<lparr>vm_id = 0, vm_start = 0, vm_end = 0, sbrk = 0, vm_freerg_list = freerg\<rparr>;
     Some (0, m3\<lparr>mmap := [vma0]\<rparr>)
   }"

subsection \<open>Mapping pages to frames (\<open>mm.c\<close>)\<close>

fun vmap_loop :: "u32 list \<Rightarrow> cint \<Rightarrow> cint \<Rightarrow> cint \<Rightarrow> framephy \<Rightarrow> u32 list option" where
  "vmap_loop pd addr pgnum i FpNull = Some pd"
| "vmap_loop pd addr pgnum i FpWild = (if i < pgnum then None else Some pd)"
| "vmap_loop pd addr pgnum i (FpNode n nx) =
    (if i < pgnum then do {
       o1 \<leftarrow> c_ret (i * PAGING_PAGESZ);
       a \<leftarrow> c_ret (addr + o1);
       let cur_pgn = int_of_u32 (PAGING_PGN (u32_of_int a));
       pte \<leftarrow> arr_get pd cur_pgn;
       pd' \<leftarrow> arr_set pd cur_pgn (snd (pte_set_fpn pte n));
       vmap_loop pd' addr pgnum (i + 1) nx
     }
     else Some pd)"

definition vmap_page_range ::
  "pcb_t \<Rightarrow> cint \<Rightarrow> cint \<Rightarrow> framephy \<Rightarrow> (cint \<times> (u64 \<times> u64) \<times> pcb_t) option" where
  "vmap_page_range caller addr pgnum frames = do {
     let pgit = 0;
     let pgn0 = int_of_u32 (PAGING_PGN (u32_of_int addr));
     sz \<leftarrow> c_ret (pgnum * PAGING_PAGESZ);
     e \<leftarrow> c_ret (addr + sz);
     m \<leftarrow> mm caller;
     pd \<leftarrow> vmap_loop (pgd m) addr pgnum 0 frames;
     let (_, fifo) = enlist_pgn_node (fifo_pgn m) (pgn0 + pgit);
     Some (0, (u64_of_int addr, u64_of_int e), caller\<lparr>mm := Some (m\<lparr>pgd := pd, fifo_pgn := fifo\<rparr>)\<rparr>)
   }"

text \<open>
  \<open>alloc_pages_range\<close>: the loop body does not use its counter, so the loop is a recursion on the
  rounds left. The second result is the list written to \<open>*frm_lst\<close>, if it is written.
\<close>

fun alloc_pages_loop ::
  "nat \<Rightarrow> memphy option \<Rightarrow> framephy \<Rightarrow> (bool \<times> framephy \<times> memphy option) option" where
  "alloc_pages_loop 0 mp hd0 = Some (True, hd0, mp)"
| "alloc_pages_loop (Suc k) mp hd0 = do {
     (r, f, mp') \<leftarrow> MEMPHY_get_freefp mp;
     if r = 0 then do {
       n \<leftarrow> f;
       let temp = FpNode n FpNull;
       alloc_pages_loop k mp' (if hd0 = FpNull then temp else fp_link_tail hd0 temp)
     }
     else Some (False, hd0, mp')
   }"

definition alloc_pages_range ::
  "devs \<Rightarrow> cint \<Rightarrow> (cint \<times> framephy option \<times> devs) option" where
  "alloc_pages_range d req_pgnum = do {
     (okay, lst, mp) \<leftarrow> alloc_pages_loop (nat req_pgnum) (mram d) FpNull;
     let d' = d\<lparr>mram := mp\<rparr>;
     if okay then Some (req_pgnum, Some lst, d') else Some (-3000, None, d')
   }"

definition vm_map_ram ::
  "pcb_t \<Rightarrow> devs \<Rightarrow> cint \<Rightarrow> cint \<Rightarrow> cint \<Rightarrow> cint \<Rightarrow> (cint \<times> (u64 \<times> u64) option \<times> pcb_t \<times> devs) option" where
  "vm_map_ram caller d astart aend mapstart incpgnum = do {
     (ret_alloc, out, d') \<leftarrow> alloc_pages_range d incpgnum;
     let frm_lst = (case out of Some l \<Rightarrow> l | None \<Rightarrow> FpNull);
     if ret_alloc < 0 \<and> ret_alloc \<noteq> -3000 then Some (-1, None, caller, d')
     else if ret_alloc = -3000 then Some (-1, None, caller, d')
     else do {
       (_, rg, caller') \<leftarrow> vmap_page_range caller mapstart incpgnum frm_lst;
       Some (0, Some rg, caller', d')
     }
   }"

subsection \<open>\<open>mm-vm.c\<close>\<close>

definition mm_swap_page :: "devs \<Rightarrow> cint \<Rightarrow> cint \<Rightarrow> (cint \<times> devs) option" where
  "mm_swap_page d vicfpn swpfpn = do {
     (_, s, t) \<leftarrow> swap_cp_page (mram d) vicfpn (active_mswp d) swpfpn;
     Some (0, d\<lparr>mram := s, active_mswp := t\<rparr>)
   }"

definition get_vm_area_node_at_brk ::
  "pcb_t \<Rightarrow> cint \<Rightarrow> cint \<Rightarrow> cint \<Rightarrow> vm_rg_struct \<times> pcb_t" where
  "get_vm_area_node_at_brk caller vmaid sz alignedsz =
    (\<lparr>rg_start = u64_of_u32 (bp caller), rg_end = u64_of_u32 (bp caller + u32_of_int alignedsz),
      rg_next = RgNull\<rparr>,
     caller\<lparr>bp := bp caller + u32_of_int alignedsz\<rparr>)"

definition validate_overlap_vm_area :: "pcb_t \<Rightarrow> cint \<Rightarrow> cint \<Rightarrow> cint \<Rightarrow> cint option" where
  "validate_overlap_vm_area caller vmaid vmastart vmaend = do {
     m \<leftarrow> mm caller;
     (case get_vma_by_num m vmaid of
        None \<Rightarrow> Some (-1)
      | Some k \<Rightarrow> Some (if u64_of_int vmastart < vm_end (mmap m ! k) then -1 else 0))
   }"

definition inc_vma_limit ::
  "pcb_t \<Rightarrow> devs \<Rightarrow> cint \<Rightarrow> cint \<Rightarrow> (cint \<times> pcb_t \<times> devs) option" where
  "inc_vma_limit caller d vmaid inc_sz = do {
     inc_amt \<leftarrow> PAGING_PAGE_ALIGNSZ inc_sz;
     let incnumpage = inc_amt sdiv PAGING_PAGESZ;
     let (area, caller1) = get_vm_area_node_at_brk caller vmaid inc_sz inc_amt;
     m \<leftarrow> mm caller1;
     (case get_vma_by_num m vmaid of
        None \<Rightarrow> Some (-1, caller1, d)
      | Some k \<Rightarrow> do {
          let cur_vma = mmap m ! k;
          let old_end = int_of_u64 (vm_end cur_vma);
          ov \<leftarrow> validate_overlap_vm_area caller1 vmaid
                  (int_of_u64 (rg_start area)) (int_of_u64 (rg_end area));
          if ov < 0 then Some (-1, caller1, d)
          else do {
            let caller2 = caller1\<lparr>mm := Some (vma_set m k (cur_vma\<lparr>vm_end := rg_end area\<rparr>))\<rparr>;
            (r, _, caller3, d') \<leftarrow> vm_map_ram caller2 d (int_of_u64 (rg_start area))
                  (int_of_u64 (rg_end area)) old_end incnumpage;
            if r < 0 then Some (-1, caller3, d') else Some (0, caller3, d')
          }
        })
   }"

subsection \<open>Loads and stores through region pointers\<close>

lemma rg_load_store:
  "rg_store m q r = Some m' \<Longrightarrow> rg_load m' x = (if x = q then Some r else rg_load m x)"
  by (cases q; cases x) (auto split: if_splits)

lemma rg_store_defined: "rg_load m q = Some r0 \<Longrightarrow> \<exists>m'. rg_store m q r = Some m'"
  by (cases q) (auto split: if_splits)

lemma rg_load_free:
  "rg_free m q = Some m' \<Longrightarrow> rg_load m' x = (if x = q then None else rg_load m x)"
  by (cases q; cases x) (auto split: if_splits)

lemma rg_load_vma_set [simp]: "rg_load (vma_set m k v) x = rg_load m x"
  by (cases x) (simp_all add: vma_set_def)

lemma vma_set_fields [frame_simps]:
  "pgd (vma_set m k v) = pgd m" "symrgtbl (vma_set m k v) = symrgtbl m"
  "fifo_pgn (vma_set m k v) = fifo_pgn m" "mmap (vma_set m k v) = (mmap m)[k := v]"
  by (simp_all add: vma_set_def)

lemma rg_store_fields [frame_simps]:
  "rg_store m q r = Some m' \<Longrightarrow> pgd m' = pgd m"
  "rg_store m q r = Some m' \<Longrightarrow> mmap m' = mmap m"
  "rg_store m q r = Some m' \<Longrightarrow> fifo_pgn m' = fifo_pgn m"
  by (cases q; auto split: if_splits)+

lemma rg_free_fields [frame_simps]:
  "rg_free m q = Some m' \<Longrightarrow> pgd m' = pgd m"
  "rg_free m q = Some m' \<Longrightarrow> mmap m' = mmap m"
  "rg_free m q = Some m' \<Longrightarrow> fifo_pgn m' = fifo_pgn m"
  "rg_free m q = Some m' \<Longrightarrow> symrgtbl m' = symrgtbl m"
  by (cases q; auto split: if_splits)+

lemma get_vma_loop_bound: "get_vma_loop vs i k = Some j \<Longrightarrow> k \<le> j \<and> j < k + length vs"
  by (induction vs i k rule: get_vma_loop.induct) (auto split: if_splits)

lemma get_vma_by_num_bound: "get_vma_by_num m i = Some k \<Longrightarrow> k < length (mmap m)"
  using get_vma_loop_bound [of "mmap m" i 0 k] by (simp add: get_vma_by_num_def)

subsection \<open>Taking several frames\<close>

lemma list_fp_snoc:
  "(if list_fp ns = FpNull then FpNode n FpNull else fp_link_tail (list_fp ns) (FpNode n FpNull)) =
   list_fp (ns @ [n])"
  using fp_link_tail_list_fp [of "hd ns" "tl ns" n] by (cases ns) simp_all

lemma alloc_pages_loop_eq:
  assumes "pool_ok m"
  shows "alloc_pages_loop k (Some m) (list_fp ns) =
    (case mpool.take_frames k m of
       Some (fs, m') \<Rightarrow> Some (True, list_fp (ns @ fs), Some m')
     | None \<Rightarrow> Some (False, list_fp (ns @ free_frames m), Some (m\<lparr>free_fp_list := FpNull\<rparr>)))"
  using assms
proof (induction k arbitrary: m ns)
  case 0
  then show ?case by simp
next
  case (Suc k)
  show ?case
  proof (cases "free_frames m")
    case Nil
    with Suc.prems list_fp_fp_list [of "free_fp_list m"] have "free_fp_list m = FpNull"
      by (simp add: pool_ok_def free_frames_def)
    moreover have "MEMPHY_get_freefp (Some m) = Some (-1, None, Some m)"
      using get_freefp_cases [OF Suc.prems] Nil by simp
    moreover from this have "mp_take m = None" by (simp add: mp_take_def)
    ultimately show ?thesis using Nil by simp
  next
    case (Cons n fs)
    let ?m = "m\<lparr>free_fp_list := list_fp fs\<rparr>"
    have g: "MEMPHY_get_freefp (Some m) = Some (0, Some n, Some ?m)"
      using get_freefp_cases [OF Suc.prems] Cons by simp
    then have t: "mp_take m = Some (n, ?m)" by (simp add: mp_take_def)
    have "alloc_pages_loop (Suc k) (Some m) (list_fp ns) =
        alloc_pages_loop k (Some ?m) (list_fp (ns @ [n]))"
      using g list_fp_snoc [of ns n] by simp
    then show ?thesis
      using Suc.IH [of ?m "ns @ [n]"] t Cons by (auto split: option.split)
  qed
qed

lemma mp_take_only_list: "mp_take m = Some (n, m') \<Longrightarrow> \<exists>l. m' = m\<lparr>free_fp_list := l\<rparr>"
  by (cases "free_fp_list m") (auto simp: mp_take_def MEMPHY_get_freefp_def)

lemma take_frames_only_list:
  "mpool.take_frames k m = Some (fs, m') \<Longrightarrow> \<exists>l. m' = m\<lparr>free_fp_list := l\<rparr>"
proof (induction k arbitrary: m fs)
  case 0
  then show ?case by (auto intro!: exI [of _ "free_fp_list m"])
next
  case (Suc k)
  then obtain n m1 where "mp_take m = Some (n, m1)" by (auto split: option.splits)
  moreover from this Suc.prems obtain fs1 where "mpool.take_frames k m1 = Some (fs1, m')"
    by (auto split: option.splits)
  ultimately show ?case using Suc.IH [of m1 fs1] mp_take_only_list [of m n m1] by auto
qed

lemma alloc_pages_range_Some:
  assumes "mram d = Some m" "pool_ok m" "0 \<le> n" "nat n \<le> length (free_frames m)"
  shows "\<exists>l. alloc_pages_range d n = Some (n, Some (list_fp (take (nat n) (free_frames m))),
      d\<lparr>mram := Some (m\<lparr>free_fp_list := l\<rparr>)\<rparr>) \<and>
    fp_list l = drop (nat n) (free_frames m) \<and> fp_ended l"
proof -
  from mpool.take_frames_Some [OF assms(2,4)] obtain m' where
    t: "mpool.take_frames (nat n) m = Some (take (nat n) (free_frames m), m')"
      "free_frames m' = drop (nat n) (free_frames m)" "pool_ok m'" by auto
  moreover from take_frames_only_list [OF t(1)] obtain l where "m' = m\<lparr>free_fp_list := l\<rparr>" ..
  ultimately show ?thesis
    using assms alloc_pages_loop_eq [OF assms(2), of "nat n" "[]"]
    by (auto simp: alloc_pages_range_def)
qed

lemma alloc_pages_range_None:
  assumes "mram d = Some m" "pool_ok m" "length (free_frames m) < nat n"
  shows "alloc_pages_range d n = Some (-3000, None, d\<lparr>mram := Some (m\<lparr>free_fp_list := FpNull\<rparr>)\<rparr>)"
  using assms alloc_pages_loop_eq [OF assms(2), of "nat n" "[]"] mpool.take_frames_None [OF assms(2,3)]
  by (simp add: alloc_pages_range_def)

subsection \<open>Mapping a range of pages\<close>

lemma PAGING_PGN_page:
  assumes "0 \<le> a" "a < 2 ^ 22"
  shows "int_of_u32 (PAGING_PGN (u32_of_int a)) = a div 256"
proof -
  have "a div 256 < 16384" using assms by simp
  then show ?thesis
    using assms by (simp add: int_of_PAGING_PGN u32_of_int_def uint_word_of_int_32)
qed

text \<open>Page \<open>k\<close> of the range gets frame \<open>fs ! k\<close>; the other entries stay.\<close>

lemma vmap_loop_eq:
  assumes "0 \<le> addr" "addr mod 256 = 0" "0 \<le> i" "addr + (i + int (length fs)) * 256 \<le> 2 ^ 22"
    "i + int (length fs) = n" "length pd = 16384"
  shows "\<exists>pd'. vmap_loop pd addr n i (list_fp fs) = Some pd' \<and> length pd' = 16384 \<and>
    (\<forall>j. pd' ! j =
      (if addr div 256 + i \<le> int j \<and> int j < addr div 256 + n
       then snd (pte_set_fpn (pd ! j) (fs ! nat (int j - (addr div 256 + i)))) else pd ! j))"
  using assms
proof (induction fs arbitrary: i pd)
  case Nil
  then show ?case by auto
next
  case (Cons f fs)
  let ?k = "addr div 256 + i"
  have lim: "addr + i * 256 + 256 \<le> 2 ^ 22" using Cons.prems(4) by (simp add: algebra_simps)
  have k: "(addr + i * 256) div 256 = ?k" by simp
  have ok: "c_ret (i * PAGING_PAGESZ) = Some (i * 256)" "c_ret (addr + i * 256) = Some (addr + i * 256)"
    using lim Cons.prems(1,3) by (simp_all add: PAGING_PAGESZ_def c_ret_def is_cint_def)
  have pgn: "int_of_u32 (PAGING_PGN (u32_of_int (addr + i * 256))) = ?k"
    using PAGING_PGN_page [of "addr + i * 256"] lim Cons.prems(1,3) k by simp
  have b: "0 \<le> ?k" "?k < 16384" using lim Cons.prems(1,3) k by auto
  let ?pd = "pd[nat ?k := snd (pte_set_fpn (pd ! nat ?k) f)]"
  have step: "vmap_loop pd addr n i (list_fp (f # fs)) = vmap_loop ?pd addr n (i + 1) (list_fp fs)"
    using ok pgn b Cons.prems(5,6) by (simp add: arr_get_in arr_set_in Let_def)
  obtain pd' where pd': "vmap_loop ?pd addr n (i + 1) (list_fp fs) = Some pd'" "length pd' = 16384"
    "\<And>j. pd' ! j = (if addr div 256 + (i + 1) \<le> int j \<and> int j < addr div 256 + n
       then snd (pte_set_fpn (?pd ! j) (fs ! nat (int j - (addr div 256 + (i + 1))))) else ?pd ! j)"
    using Cons.IH [of "i + 1" ?pd] Cons.prems by (auto simp: algebra_simps)
  have "pd' ! j = (if ?k \<le> int j \<and> int j < addr div 256 + n
       then snd (pte_set_fpn (pd ! j) ((f # fs) ! nat (int j - ?k))) else pd ! j)" for j
  proof (cases "int j = ?k")
    case True
    then have "j = nat ?k" by linarith
    then show ?thesis unfolding pd'(3) using b Cons.prems(5,6) True by simp
  next
    case False
    then have j: "?pd ! j = pd ! j" using b by (simp add: nth_list_update_neq)
    show ?thesis
    proof (cases "?k < int j")
      case True
      then have "nat (int j - ?k) = Suc (nat (int j - (addr div 256 + (i + 1))))" by linarith
      then show ?thesis unfolding pd'(3) j using True by auto
    next
      case F: False
      then show ?thesis unfolding pd'(3) j using False by auto
    qed
  qed
  then show ?case using step pd'(1,2) by auto
qed

subsection \<open>The mapping invariant\<close>

text \<open>
  \<open>vm_inv pd m\<close>: the present pages of a directory \<open>pd\<close> map to frames of the device \<open>m\<close>, two pages
  never to the same frame, and none to a frame that is still free.
\<close>

definition present :: "u32 list \<Rightarrow> nat \<Rightarrow> bool" where
  "present pd k \<longleftrightarrow> k < length pd \<and> PAGING_PAGE_PRESENT (pd ! k) \<noteq> 0"

definition frame_at :: "u32 list \<Rightarrow> nat \<Rightarrow> int" where
  "frame_at pd k = int_of_u32 (PAGING_FPN (pd ! k))"

definition mapped_frames :: "u32 list \<Rightarrow> int set" where
  "mapped_frames pd = frame_at pd ` {k. present pd k}"

definition pool_frames_ok :: "memphy \<Rightarrow> bool" where
  "pool_frames_ok m \<longleftrightarrow> ram_ok m \<and> pool_ok m \<and> distinct (free_frames m) \<and>
    (\<forall>f \<in> set (free_frames m). f < 8192 \<and> page_in m f)"

definition vm_inv :: "u32 list \<Rightarrow> memphy \<Rightarrow> bool" where
  "vm_inv pd m \<longleftrightarrow> length pd = 16384 \<and> pool_frames_ok m \<and>
    (\<forall>k. present pd k \<longrightarrow> page_in m (frame_at pd k)) \<and>
    inj_on (frame_at pd) {k. present pd k} \<and> mapped_frames pd \<inter> set (free_frames m) = {}"

lemma frame_at_bounds: "0 \<le> frame_at pd k \<and> frame_at pd k < 8192"
  by (simp add: frame_at_def int_of_PAGING_FPN)

lemma page_in_upd [simp]: "page_in (m\<lparr>free_fp_list := l\<rparr>) f = page_in m f"
  by (simp add: page_in_def)

text \<open>Taking frames off the free list keeps the pool well formed.\<close>

lemma pool_frames_ok_drop:
  assumes "pool_frames_ok m" "fp_list l = drop n (free_frames m)" "fp_ended l"
  shows "pool_frames_ok (m\<lparr>free_fp_list := l\<rparr>)"
  using assms set_drop_subset [of n "free_frames m"] by (auto simp: pool_frames_ok_def)

text \<open>
  The effect of mapping the frames \<open>fs\<close> at the pages from \<open>p\<close> on, as a directory \<open>pd'\<close>.
\<close>

definition maps_range :: "u32 list \<Rightarrow> int \<Rightarrow> int list \<Rightarrow> u32 list \<Rightarrow> bool" where
  "maps_range pd p fs pd' \<longleftrightarrow> length pd' = length pd \<and>
    (\<forall>j. pd' ! j = (if p \<le> int j \<and> int j < p + int (length fs)
       then snd (pte_set_fpn (pd ! j) (fs ! nat (int j - p))) else pd ! j))"

lemma maps_range_new:
  assumes "maps_range pd p fs pd'" "i < length fs" "0 \<le> p" "p + int (length fs) \<le> int (length pd)"
    "\<forall>f \<in> set fs. 0 \<le> f \<and> f < 8192"
  shows "present pd' (nat p + i) \<and> frame_at pd' (nat p + i) = fs ! i"
proof -
  have "pd' ! (nat p + i) = snd (pte_set_fpn (pd ! (nat p + i)) (fs ! i))"
    using assms(1-4) by (simp add: maps_range_def)
  moreover have "fs ! i \<in> set fs" using assms(2) by simp
  ultimately show ?thesis
    using assms by (simp add: present_def frame_at_def int_of_FPN_pte_set_fpn PAGE_PRESENT_pte_set_fpn
        maps_range_def)
qed

lemma maps_range_old:
  assumes "maps_range pd p fs pd'" "int k < p \<or> p + int (length fs) \<le> int k"
  shows "present pd' k = present pd k \<and> frame_at pd' k = frame_at pd k \<and> pd' ! k = pd ! k"
  using assms by (auto simp: maps_range_def present_def frame_at_def)

lemma maps_range_frames:
  assumes "maps_range pd p fs pd'" "0 \<le> p" "p + int (length fs) \<le> int (length pd)"
    "\<forall>f \<in> set fs. 0 \<le> f \<and> f < 8192" "present pd' k"
  shows "(\<exists>i < length fs. k = nat p + i \<and> frame_at pd' k = fs ! i) \<or>
    ((int k < p \<or> p + int (length fs) \<le> int k) \<and> present pd k \<and> frame_at pd' k = frame_at pd k)"
proof (cases "int k < p \<or> p + int (length fs) \<le> int k")
  case True
  then show ?thesis using maps_range_old [OF assms(1) True] assms(5) by simp
next
  case False
  then obtain i where i: "k = nat p + i" "i < length fs"
    using assms(2) by (intro that [of "k - nat p"]) auto
  then show ?thesis using maps_range_new [OF assms(1) i(2) assms(2-4)] by auto
qed

lemma maps_range_vm_inv:
  assumes inv: "vm_inv pd m" and mr: "maps_range pd p fs pd'" and p: "0 \<le> p" "p + int (length fs) \<le> 16384"
    and fs: "fs = take n (free_frames m)" and l: "fp_list l = drop n (free_frames m)" "fp_ended l"
  shows "vm_inv pd' (m\<lparr>free_fp_list := l\<rparr>) \<and>
    mapped_frames pd' \<subseteq> mapped_frames pd \<union> set fs"
proof -
  have len: "length pd = 16384" and pool: "pool_frames_ok m" and inj: "inj_on (frame_at pd) {k. present pd k}"
    and disj: "mapped_frames pd \<inter> set (free_frames m) = {}"
    and pin: "\<And>k. present pd k \<Longrightarrow> page_in m (frame_at pd k)"
    using inv by (auto simp: vm_inv_def)
  have sub: "set fs \<subseteq> set (free_frames m)" and fdist: "distinct fs"
    and fdisj: "set fs \<inter> set (drop n (free_frames m)) = {}"
    using pool by (auto simp: fs set_take_subset pool_frames_ok_def set_take_disj_set_drop_if_distinct
        dest: in_set_takeD)
  have fr: "\<forall>f \<in> set fs. 0 \<le> f \<and> f < 8192" and fpin: "\<forall>f \<in> set fs. page_in m f"
    using pool sub by (auto simp: pool_frames_ok_def page_in_def)
  note cases = maps_range_frames [OF mr p(1) _ fr]
  have p': "p + int (length fs) \<le> int (length pd)" using p len by simp
  have img: "mapped_frames pd' \<subseteq> mapped_frames pd \<union> set fs"
  proof
    fix f assume "f \<in> mapped_frames pd'"
    then obtain k where "present pd' k" "f = frame_at pd' k" by (auto simp: mapped_frames_def)
    with cases [OF p', of k] show "f \<in> mapped_frames pd \<union> set fs" by (auto simp: mapped_frames_def)
  qed
  have old_fs: "frame_at pd k \<notin> set fs" if "present pd k" for k
    using that disj sub by (auto simp: mapped_frames_def)
  have "inj_on (frame_at pd') {k. present pd' k}"
  proof (rule inj_onI, unfold mem_Collect_eq)
    fix j k assume jk: "present pd' j" "present pd' k" "frame_at pd' j = frame_at pd' k"
    have split: "(\<exists>i < length fs. x = nat p + i \<and> frame_at pd' x = fs ! i) \<or>
        (present pd x \<and> frame_at pd' x = frame_at pd x)" if "present pd' x" for x
      using cases [OF p' that] by auto
    from split [OF jk(1)] split [OF jk(2)] show "j = k"
    proof (elim disjE)
      assume "\<exists>i < length fs. j = nat p + i \<and> frame_at pd' j = fs ! i"
        and "\<exists>i < length fs. k = nat p + i \<and> frame_at pd' k = fs ! i"
      then show ?thesis using jk(3) fdist by (auto simp: nth_eq_iff_index_eq)
    next
      assume "present pd j \<and> frame_at pd' j = frame_at pd j"
        and "present pd k \<and> frame_at pd' k = frame_at pd k"
      then show ?thesis using jk(3) inj_onD [OF inj, of j k] by simp
    qed (metis jk(3) old_fs nth_mem)+
  qed
  moreover have "page_in m (frame_at pd' k)" if "present pd' k" for k
    using cases [OF p' that] fpin pin by auto
  moreover have "mapped_frames pd' \<inter> set (drop n (free_frames m)) = {}"
    using img disj fdisj set_drop_subset [of n "free_frames m"] by blast
  ultimately show ?thesis
    using img pool_frames_ok_drop [OF pool l] mr len l(1) by (simp add: vm_inv_def maps_range_def)
qed

text \<open>
  \<open>vm_map_ram\<close> with enough free frames: the pages from \<open>mapstart\<close> on get the first frames of the
  free list.
\<close>

lemma vm_map_ram_Some:
  assumes m0: "mm c = Some m0" and d: "mram d = Some m" and inv: "vm_inv (pgd m0) m"
    and n: "0 < n" "nat n \<le> length (free_frames m)"
    and a: "0 \<le> a" "a mod 256 = 0" "a + n * 256 \<le> 2 ^ 22"
  shows "\<exists>pd l. vm_map_ram c d as ae a n = Some (0, Some (u64_of_int a, u64_of_int (a + n * 256)),
      c\<lparr>mm := Some (m0\<lparr>pgd := pd, fifo_pgn := PgNode (a div 256) (fifo_pgn m0)\<rparr>)\<rparr>,
      d\<lparr>mram := Some (m\<lparr>free_fp_list := l\<rparr>)\<rparr>) \<and>
    fp_list l = drop (nat n) (free_frames m) \<and> fp_ended l \<and>
    maps_range (pgd m0) (a div 256) (take (nat n) (free_frames m)) pd"
proof -
  have pool: "pool_ok m" and len: "length (pgd m0) = 16384"
    using inv by (simp_all add: vm_inv_def pool_frames_ok_def)
  let ?fs = "take (nat n) (free_frames m)"
  have lfs: "int (length ?fs) = n" using n by simp
  from alloc_pages_range_Some [OF d pool _ n(2)] n(1) obtain l where l:
    "alloc_pages_range d n = Some (n, Some (list_fp ?fs), d\<lparr>mram := Some (m\<lparr>free_fp_list := l\<rparr>)\<rparr>)"
    "fp_list l = drop (nat n) (free_frames m)" "fp_ended l" by auto
  from vmap_loop_eq [OF a(1,2), of 0 ?fs n "pgd m0"] lfs len a(3) obtain pd where pd:
    "vmap_loop (pgd m0) a n 0 (list_fp ?fs) = Some pd" "maps_range (pgd m0) (a div 256) ?fs pd"
    by (auto simp: maps_range_def simp del: length_take)
  have ok: "c_ret (n * PAGING_PAGESZ) = Some (n * 256)" "c_ret (a + n * 256) = Some (a + n * 256)"
    using n(1) a by (simp_all add: PAGING_PAGESZ_def c_ret_def is_cint_def)
  have pg: "int_of_u32 (PAGING_PGN (u32_of_int a)) = a div 256"
    using a n(1) by (intro PAGING_PGN_page) simp_all
  show ?thesis
    using l pd ok pg m0 n(1) by (auto simp: vm_map_ram_def vmap_page_range_def enlist_pgn_node_def)
qed

lemma vm_map_ram_full:
  assumes "mm c = Some m0" "mram d = Some m" "vm_inv (pgd m0) m"
    and "0 < n" "nat n \<le> length (free_frames m)"
    and "0 \<le> a" "a mod PAGING_PAGESZ = 0" "a + n * PAGING_PAGESZ \<le> 2 ^ PAGING_CPU_BUS_WIDTH"
  shows "\<exists>rg pd l. vm_map_ram c d as ae a n = Some (0, rg,
      c\<lparr>mm := Some (m0\<lparr>pgd := pd, fifo_pgn := PgNode (a div PAGING_PAGESZ) (fifo_pgn m0)\<rparr>)\<rparr>,
      d\<lparr>mram := Some (m\<lparr>free_fp_list := l\<rparr>)\<rparr>) \<and>
    vm_inv pd (m\<lparr>free_fp_list := l\<rparr>) \<and> fp_list l = drop (nat n) (free_frames m) \<and>
    mapped_frames pd \<subseteq> mapped_frames (pgd m0) \<union> set (take (nat n) (free_frames m)) \<and>
    (\<forall>i < nat n. present pd (nat (a div PAGING_PAGESZ) + i) \<and>
      frame_at pd (nat (a div PAGING_PAGESZ) + i) = free_frames m ! i) \<and>
    (\<forall>k. int k < a div PAGING_PAGESZ \<or> a div PAGING_PAGESZ + n \<le> int k \<longrightarrow> pd ! k = pgd m0 ! k)"
proof -
  let ?fs = "take (nat n) (free_frames m)" and ?p = "a div 256"
  have a: "a mod 256 = 0" "a + n * 256 \<le> 2 ^ 22"
    using assms by (simp_all add: PAGING_PAGESZ_def PAGING_CPU_BUS_WIDTH_def)
  have len: "length (pgd m0) = 16384" "\<forall>f \<in> set ?fs. 0 \<le> f \<and> f < 8192" "length ?fs = nat n"
    using assms(3,5) by (auto simp: vm_inv_def pool_frames_ok_def page_in_def dest!: in_set_takeD)
  have p: "0 \<le> ?p" "?p + n \<le> 16384" using a assms(6) by auto
  obtain pd l where r: "vm_map_ram c d as ae a n = Some (0, Some (u64_of_int a, u64_of_int (a + n * 256)),
      c\<lparr>mm := Some (m0\<lparr>pgd := pd, fifo_pgn := PgNode ?p (fifo_pgn m0)\<rparr>)\<rparr>,
      d\<lparr>mram := Some (m\<lparr>free_fp_list := l\<rparr>)\<rparr>)"
    and l: "fp_list l = drop (nat n) (free_frames m)" "fp_ended l" and mr: "maps_range (pgd m0) ?p ?fs pd"
    using vm_map_ram_Some [OF assms(1-6) a] by blast
  have "vm_inv pd (m\<lparr>free_fp_list := l\<rparr>)"
    using maps_range_vm_inv [OF assms(3) mr p(1) _ refl l] len(3) p assms(4) by simp
  moreover have "present pd (nat ?p + i) \<and> frame_at pd (nat ?p + i) = free_frames m ! i" if "i < nat n" for i
    using maps_range_new [OF mr, of i] that len p assms(4) by simp
  moreover have "pd ! k = pgd m0 ! k" if "int k < ?p \<or> ?p + n \<le> int k" for k
    using maps_range_old [OF mr, of k] that len(3) assms(4) by simp
  moreover have "mapped_frames pd \<subseteq> mapped_frames (pgd m0) \<union> set ?fs"
    using maps_range_vm_inv [OF assms(3) mr p(1) _ refl l] len(3) p assms(4) by simp
  ultimately show ?thesis using r l by (auto simp: PAGING_PAGESZ_def)
qed

text \<open>
  C4. Mapping \<open>n\<close> new pages when \<open>n\<close> frames are free: the call succeeds, page \<open>i\<close> of the range is
  present and maps to the \<open>i\<close>-th free frame, every page outside the range keeps its entry, the
  frames handed out leave the pool, no byte of RAM changes, and the mapping invariant is kept.
\<close>

theorem vm_map_ram_maps:
  assumes "mm c = Some m0" "mram d = Some m" "vm_inv (pgd m0) m"
    and "0 < n" "nat n \<le> length (free_frames m)"
    and "0 \<le> a" "a mod PAGING_PAGESZ = 0" "a + n * PAGING_PAGESZ \<le> 2 ^ PAGING_CPU_BUS_WIDTH"
  shows "\<exists>rg c' d' m' ram'. vm_map_ram c d as ae a n = Some (0, rg, c', d') \<and>
    mm c' = Some m' \<and> mram d' = Some ram' \<and> vm_inv (pgd m') ram' \<and> storage ram' = storage m \<and>
    free_frames ram' = drop (nat n) (free_frames m) \<and>
    (\<forall>i < nat n. present (pgd m') (nat (a div PAGING_PAGESZ) + i) \<and>
      frame_at (pgd m') (nat (a div PAGING_PAGESZ) + i) = free_frames m ! i) \<and>
    (\<forall>k. int k < a div PAGING_PAGESZ \<or> a div PAGING_PAGESZ + n \<le> int k \<longrightarrow> pgd m' ! k = pgd m0 ! k)"
  using vm_map_ram_full [OF assms, of as ae] by fastforce

text \<open>
  When fewer frames are free than requested, \<open>vm_map_ram\<close> reports failure and maps nothing, but
  the frames it had already taken are neither mapped nor given back: the pool is left empty.
\<close>

lemma vm_map_ram_oom_leaks:
  assumes "mram d = Some m" "pool_ok m" "length (free_frames m) < nat n"
  shows "\<exists>m'. vm_map_ram c d as ae a n = Some (-1, None, c, d\<lparr>mram := Some m'\<rparr>) \<and>
    free_frames m' = [] \<and> pool_ok m'"
  using alloc_pages_range_None [OF assms]
  by (intro exI [of _ "m\<lparr>free_fp_list := FpNull\<rparr>"]) (simp add: vm_map_ram_def)

subsection \<open>A small machine for concrete instances\<close>

text \<open>Four frames of RAM, a process with an empty directory and no regions.\<close>

definition sample_ram :: memphy where
  "sample_ram = blank_memphy\<lparr>storage := replicate 1024 0, maxsz := 1024, rdmflg := 1,
     free_fp_list := list_fp [0, 1, 2, 3]\<rparr>"

definition sample_devs :: devs where
  "sample_devs = \<lparr>mram = Some sample_ram, active_mswp = Some sample_ram\<rparr>"

definition blank_mm :: mm_struct where
  "blank_mm = \<lparr>pgd = [], mmap = [],
     symrgtbl = replicate 30 \<lparr>rg_start = 0, rg_end = 0, rg_next = RgNull\<rparr>,
     fifo_pgn = PgNull, rg_heap = (\<lambda>_. None), rg_fresh = 0\<rparr>"

definition sample_mm :: mm_struct where
  "sample_mm = blank_mm\<lparr>pgd := replicate 16384 0,
     mmap := [\<lparr>vm_id = 0, vm_start = 0, vm_end = 0, sbrk = 0, vm_freerg_list = RgNull\<rparr>]\<rparr>"

definition sample_pcb :: pcb_t where
  "sample_pcb = \<lparr>pid = 1, priority = 0, path = ''input/proc/p0'', code = \<lparr>cs_text = [], cs_size = 0\<rparr>,
     regs = replicate 10 0, pc = 0, ready_queue = Q_wild, running_list = Q_wild,
     mlq_ready_queue = Q_wild, prio = 0, mm = Some sample_mm,
     page_table = \<lparr>pt_table = replicate 32 None, pt_size = 0\<rparr>, bp = 1024\<rparr>"

lemma sample_simps [simp]:
  "mm sample_pcb = Some sample_mm" "mram sample_devs = Some sample_ram"
  "active_mswp sample_devs = Some sample_ram" "bp sample_pcb = 1024"
  "free_frames sample_ram = [0, 1, 2, 3]" "pool_ok sample_ram" "ram_ok sample_ram" "maxsz sample_ram = 1024"
  "pgd sample_mm = replicate 16384 0" "rdmflg sample_ram = 1" "storage sample_ram = replicate 1024 0"
  "mmap sample_mm = [\<lparr>vm_id = 0, vm_start = 0, vm_end = 0, sbrk = 0, vm_freerg_list = RgNull\<rparr>]"
  by (simp_all add: sample_pcb_def sample_devs_def sample_ram_def sample_mm_def free_frames_def
      pool_ok_def ram_ok_def is_cint_def)

lemma not_present_zero: "\<not> present (replicate n 0) k"
  by (auto simp: present_def PAGING_PAGE_PRESENT_def)

lemma sample_vm_inv: "vm_inv (replicate 16384 0) sample_ram"
  by (simp add: vm_inv_def pool_frames_ok_def mapped_frames_def not_present_zero page_in_def
      PAGING_PAGESZ_def)

theorem vm_map_ram_maps_witness:
  "\<exists>rg c' d' m' ram'. vm_map_ram sample_pcb sample_devs 0 0 0 2 = Some (0, rg, c', d') \<and>
    mm c' = Some m' \<and> mram d' = Some ram' \<and> free_frames ram' = [2, 3] \<and>
    present (pgd m') 1 \<and> frame_at (pgd m') 1 = 1"
proof -
  have "\<exists>rg c' d' m' ram'. vm_map_ram sample_pcb sample_devs 0 0 0 2 = Some (0, rg, c', d') \<and>
    mm c' = Some m' \<and> mram d' = Some ram' \<and> vm_inv (pgd m') ram' \<and> storage ram' = storage sample_ram \<and>
    free_frames ram' = drop (nat 2) (free_frames sample_ram) \<and>
    (\<forall>i < nat 2. present (pgd m') (nat (0 div PAGING_PAGESZ) + i) \<and>
      frame_at (pgd m') (nat (0 div PAGING_PAGESZ) + i) = free_frames sample_ram ! i) \<and>
    (\<forall>k. int k < 0 div PAGING_PAGESZ \<or> 0 div PAGING_PAGESZ + 2 \<le> int k \<longrightarrow> pgd m' ! k = pgd sample_mm ! k)"
    by (rule vm_map_ram_maps) (simp_all add: sample_vm_inv PAGING_PAGESZ_def PAGING_CPU_BUS_WIDTH_def)
  then show ?thesis by (elim exE conjE) (intro exI conjI, assumption+, auto dest!: spec [of _ "1::nat"])
qed

lemma vm_map_ram_oom_leaks_witness:
  "\<exists>m'. vm_map_ram sample_pcb sample_devs 0 0 0 5 = Some (-1, None, sample_pcb, sample_devs\<lparr>mram := Some m'\<rparr>)
    \<and> free_frames m' = []"
  using vm_map_ram_oom_leaks [of sample_devs sample_ram 5 sample_pcb 0 0 0] by auto

subsection \<open>Extending an area (\<open>inc_vma_limit\<close>)\<close>

lemma ucast_u64_of_u32: "ucast (u64_of_u32 w) = w"
  by (rule bit_word_eqI) (auto simp: u64_of_u32_def bit_simps)

lemma int_of_u64_of_u32: "uint w < 2 ^ 31 \<Longrightarrow> int_of_u64 (u64_of_u32 w) = uint w"
  using int_of_u32_small [of w] by (simp add: int_of_u64_def ucast_u64_of_u32 int_of_u32_def)

lemma u64_of_int_uint: "u64_of_int (uint w) = u64_of_u32 w"
  by (simp add: u64_of_int_def u64_of_u32_def unsigned_ucast_eq flip: word_of_int_uint)

lemma uint_bp_add:
  assumes "0 \<le> k" "uint b + k < 2 ^ 31"
  shows "uint (b + u32_of_int k) = uint b + k"
proof -
  have "uint (b + u32_of_int k) = (uint b + k) mod 2 ^ 32"
    by (simp add: u32_of_int_def uint_word_ariths unsigned_of_int take_bit_eq_mod mod_add_right_eq)
  then show ?thesis using assms by simp
qed

text \<open>The call up to the mapping, for the first area.\<close>

lemma inc_vma_limit_eq:
  assumes m0: "mm c = Some m0" and v: "mmap m0 = v # vs" "int_of_u64 (vm_id v) = 0"
    and sz: "0 \<le> sz" "sz + 256 < 2 ^ 31" and amt: "amt = (sz + 255) div 256 * 256"
    and b: "uint (bp c) + amt < 2 ^ 31"
  shows "inc_vma_limit c d 0 sz =
    (let c1 = c\<lparr>bp := bp c + u32_of_int amt\<rparr>;
         e = u64_of_u32 (bp c + u32_of_int amt);
         c2 = c1\<lparr>mm := Some (m0\<lparr>mmap := v\<lparr>vm_end := e\<rparr> # vs\<rparr>)\<rparr>
     in if u64_of_u32 (bp c) < vm_end v then Some (-1, c1, d)
        else do {
          (r, _, c3, d') \<leftarrow> vm_map_ram c2 d (uint (bp c)) (uint (bp c) + amt)
             (int_of_u64 (vm_end v)) (amt div 256);
          if r < 0 then Some (-1, c3, d') else Some (0, c3, d')
        })"
proof -
  have pos: "0 \<le> amt" using sz(1) by (simp add: amt)
  then have bp: "uint (bp c) < 2 ^ 31" "uint (bp c + u32_of_int amt) = uint (bp c) + amt"
    using b uint_bp_add [OF pos b] uint_ge_0 [of "bp c"] by linarith+
  then have i: "int_of_u64 (u64_of_u32 (bp c)) = uint (bp c)"
    "int_of_u64 (u64_of_u32 (bp c + u32_of_int amt)) = uint (bp c) + amt"
    using b by (simp_all add: int_of_u64_of_u32)
  have div: "amt sdiv PAGING_PAGESZ = amt div 256" using pos by (simp add: PAGING_PAGESZ_def sdiv_256)
  have vma: "get_vma_by_num m 0 = Some 0" if "mmap m = v # vs" for m
    using that v(2) by (simp add: get_vma_by_num_def)
  show ?thesis
    using m0 v pos PAGING_PAGE_ALIGNSZ_eq [OF sz] i div vma
    by (simp add: inc_vma_limit_def amt [symmetric] get_vm_area_node_at_brk_def Let_def
        validate_overlap_vm_area_def u64_of_int_uint vma_set_def)
qed

text \<open>
  C21. Extending the area of a process by \<open>sz\<close> bytes when frames are left: the break pointer moves on by
  \<open>sz\<close> rounded up to pages, the end of the area is set to the new break pointer, and one page per page
  of that amount is mapped, starting at the old end of the area. No entry of any other page is touched
  and the mapping invariant is kept. So when the old end lies below the old break pointer, as it does in
  a fresh process, the area grows by more than the pages that are mapped, and its top has none.
\<close>

theorem inc_vma_limit_extends:
  assumes "mm c = Some m0" "mmap m0 = v # vs" "int_of_u64 (vm_id v) = 0"
    and "mram d = Some m" "vm_inv (pgd m0) m"
    and "0 < sz" "sz \<le> n * PAGING_PAGESZ" "n * PAGING_PAGESZ < sz + PAGING_PAGESZ" "nat n \<le> length (free_frames m)"
    and "vm_end v = u64_of_int a" "vm_end v \<le> u64_of_u32 (bp c)" "0 \<le> a" "a mod PAGING_PAGESZ = 0"
    and "a + n * PAGING_PAGESZ \<le> 2 ^ PAGING_CPU_BUS_WIDTH" "uint (bp c) + n * PAGING_PAGESZ < 2 ^ 31"
  shows "\<exists>c' d' m' ram'. inc_vma_limit c d 0 sz = Some (0, c', d') \<and>
    mm c' = Some m' \<and> mram d' = Some ram' \<and> vm_inv (pgd m') ram' \<and>
    free_frames ram' = drop (nat n) (free_frames m) \<and>
    uint (bp c') = uint (bp c) + n * PAGING_PAGESZ \<and>
    mmap m' = v\<lparr>vm_end := u64_of_u32 (bp c')\<rparr> # vs \<and>
    (\<forall>i < nat n. present (pgd m') (nat (a div PAGING_PAGESZ) + i) \<and>
      frame_at (pgd m') (nat (a div PAGING_PAGESZ) + i) = free_frames m ! i) \<and>
    (\<forall>k. int k < a div PAGING_PAGESZ \<or> a div PAGING_PAGESZ + n \<le> int k \<longrightarrow> pgd m' ! k = pgd m0 ! k)"
proof -
  define amt where "amt = (sz + 255) div 256 * 256"
  have n: "amt = n * 256" "amt div 256 = n" "0 < n"
    using assms(6-8) by (auto simp: amt_def PAGING_PAGESZ_def)
  have b: "uint (bp c) + amt < 2 ^ 31" using assms(15) n by (simp add: PAGING_PAGESZ_def)
  have sz: "0 \<le> sz" "sz + 256 < 2 ^ 31"
    using assms(6-8,14,12) by (simp_all add: PAGING_PAGESZ_def PAGING_CPU_BUS_WIDTH_def)
  have a: "int_of_u64 (vm_end v) = a"
    using assms(10,12,14) n(3) by (simp add: int_of_u64_of_int is_cint_def PAGING_PAGESZ_def
        PAGING_CPU_BUS_WIDTH_def)
  let ?e = "u64_of_u32 (bp c + u32_of_int amt)"
  let ?m2 = "m0\<lparr>mmap := v\<lparr>vm_end := ?e\<rparr> # vs\<rparr>"
  let ?c2 = "c\<lparr>bp := bp c + u32_of_int amt, mm := Some ?m2\<rparr>"
  have c2: "mm ?c2 = Some ?m2" and inv2: "vm_inv (pgd ?m2) m" using assms(5) by simp_all
  obtain rg pd l where r: "vm_map_ram ?c2 d (uint (bp c)) (uint (bp c) + amt) a n = Some (0, rg,
      ?c2\<lparr>mm := Some (?m2\<lparr>pgd := pd, fifo_pgn := PgNode (a div PAGING_PAGESZ) (fifo_pgn ?m2)\<rparr>)\<rparr>,
      d\<lparr>mram := Some (m\<lparr>free_fp_list := l\<rparr>)\<rparr>)"
    and inv: "vm_inv pd (m\<lparr>free_fp_list := l\<rparr>)" "fp_list l = drop (nat n) (free_frames m)"
    and new: "\<forall>i < nat n. present pd (nat (a div PAGING_PAGESZ) + i) \<and>
      frame_at pd (nat (a div PAGING_PAGESZ) + i) = free_frames m ! i"
    and old: "\<forall>k. int k < a div PAGING_PAGESZ \<or> a div PAGING_PAGESZ + n \<le> int k \<longrightarrow> pd ! k = pgd m0 ! k"
    using vm_map_ram_full [OF c2 assms(4) inv2 n(3) assms(9,12-14), of "uint (bp c)" "uint (bp c) + amt"]
    by (elim exE conjE) (rule that, simp_all)
  have "inc_vma_limit c d 0 sz = Some (0,
      ?c2\<lparr>mm := Some (?m2\<lparr>pgd := pd, fifo_pgn := PgNode (a div PAGING_PAGESZ) (fifo_pgn ?m2)\<rparr>)\<rparr>,
      d\<lparr>mram := Some (m\<lparr>free_fp_list := l\<rparr>)\<rparr>)"
    using inc_vma_limit_eq [OF assms(1-3) sz amt_def b, of d] r assms(11) n(2) a
    by (simp add: Let_def not_less)
  moreover have "uint (bp c + u32_of_int amt) = uint (bp c) + n * PAGING_PAGESZ"
    using uint_bp_add [OF _ b] n by (simp add: PAGING_PAGESZ_def)
  ultimately show ?thesis using inv new old by simp
qed

text \<open>
  When the break pointer has fallen behind the end of the area (\<open>sbrk\<close> and \<open>bp\<close> are two
  counters), the extension is refused, no page and no frame is touched, but the break pointer has
  already been moved.
\<close>

lemma inc_vma_limit_overlap:
  assumes "mm c = Some m0" "mmap m0 = v # vs" "int_of_u64 (vm_id v) = 0"
    and "0 \<le> sz" "uint (bp c) + sz + 2 * PAGING_PAGESZ < 2 ^ 31" "u64_of_u32 (bp c) < vm_end v"
  shows "\<exists>b. inc_vma_limit c d 0 sz = Some (-1, c\<lparr>bp := b\<rparr>, d) \<and>
    PAGING_PAGE_ALIGNSZ sz = Some (uint b - uint (bp c))"
proof -
  define amt where "amt = (sz + 255) div 256 * 256"
  have s: "sz + 256 < 2 ^ 31" "0 \<le> uint (bp c)"
    using assms(4,5) uint_ge_0 [of "bp c"] unfolding PAGING_PAGESZ_def by linarith+
  have amt: "amt \<le> sz + 255" "0 \<le> amt" using assms(4) by (simp_all add: amt_def)
  then have b: "uint (bp c) + amt < 2 ^ 31" using assms(5) by (simp add: PAGING_PAGESZ_def)
  show ?thesis
    using inc_vma_limit_eq [OF assms(1-4) s(1) amt_def b, of d] assms(6)
      uint_bp_add [OF amt(2) b] PAGING_PAGE_ALIGNSZ_eq [OF assms(4) s(1)]
    by (auto simp: Let_def amt_def [symmetric])
qed

theorem inc_vma_limit_extends_witness:
  "\<exists>c' d' m'. inc_vma_limit sample_pcb sample_devs 0 300 = Some (0, c', d') \<and> mm c' = Some m' \<and>
    uint (bp c') = 1536 \<and> map vm_end (mmap m') = [1536] \<and>
    present (pgd m') 0 \<and> present (pgd m') 1 \<and> list_all (\<lambda>k. \<not> present (pgd m') k) [2, 3, 4, 5]"
proof -
  let ?v = "\<lparr>vm_id = 0, vm_start = 0, vm_end = 0, sbrk = 0, vm_freerg_list = RgNull\<rparr>"
  have hyps: "mm sample_pcb = Some sample_mm" "mmap sample_mm = ?v # []" "int_of_u64 (vm_id ?v) = 0"
    "mram sample_devs = Some sample_ram" "vm_inv (pgd sample_mm) sample_ram"
    "(0::int) < 300" "300 \<le> 2 * PAGING_PAGESZ" "2 * PAGING_PAGESZ < 300 + PAGING_PAGESZ"
    "nat 2 \<le> length (free_frames sample_ram)"
    "vm_end ?v = u64_of_int 0" "vm_end ?v \<le> u64_of_u32 (bp sample_pcb)" "(0::int) \<le> 0"
    "(0::int) mod PAGING_PAGESZ = 0" "0 + 2 * PAGING_PAGESZ \<le> 2 ^ PAGING_CPU_BUS_WIDTH"
    "uint (bp sample_pcb) + 2 * PAGING_PAGESZ < 2 ^ 31"
    by (simp_all add: sample_vm_inv int_of_u64_def u64_of_int_def PAGING_PAGESZ_def
        PAGING_CPU_BUS_WIDTH_def)
  obtain c' d' m' where r: "inc_vma_limit sample_pcb sample_devs 0 300 = Some (0, c', d')"
    "mm c' = Some m'" "uint (bp c') = uint (bp sample_pcb) + 2 * PAGING_PAGESZ"
    and ar: "mmap m' = ?v\<lparr>vm_end := u64_of_u32 (bp c')\<rparr> # []" and new: "\<forall>i < nat 2. present (pgd m') (nat (0 div PAGING_PAGESZ) + i)"
    and old: "\<forall>k. int k < 0 div PAGING_PAGESZ \<or> 0 div PAGING_PAGESZ + 2 \<le> int k \<longrightarrow>
      pgd m' ! k = pgd sample_mm ! k" and inv: "length (pgd m') = 16384"
    using inc_vma_limit_extends [OF hyps] by (auto simp: vm_inv_def)
  have "present (pgd m') 0" "present (pgd m') 1"
    using new [rule_format, of 0] new [rule_format, of 1] by simp_all
  moreover have "list_all (\<lambda>k. pgd m' ! k = 0) [2, 3, 4, 5]" using old by simp
  then have "list_all (\<lambda>k. \<not> present (pgd m') k) [2, 3, 4, 5]" by (simp add: present_def PAGING_PAGE_PRESENT_def)
  moreover have "uint (bp c') = 1536" using r(3) by (simp add: PAGING_PAGESZ_def)
  moreover from this have "bp c' = 1536" by (simp add: word_uint_eq_iff)
  then have "map vm_end (mmap m') = [1536]" by (simp add: ar u64_of_u32_def)
  ultimately show ?thesis using r by auto
qed

lemma inc_vma_limit_overlap_witness:
  "\<exists>b. inc_vma_limit (sample_pcb\<lparr>mm := Some (sample_mm\<lparr>mmap := [\<lparr>vm_id = 0, vm_start = 0, vm_end = 5000,
       sbrk = 0, vm_freerg_list = RgNull\<rparr>]\<rparr>)\<rparr>) sample_devs 0 300 =
     Some (-1, (sample_pcb\<lparr>mm := Some (sample_mm\<lparr>mmap := [\<lparr>vm_id = 0, vm_start = 0, vm_end = 5000,
       sbrk = 0, vm_freerg_list = RgNull\<rparr>]\<rparr>)\<rparr>)\<lparr>bp := b\<rparr>, sample_devs) \<and>
     PAGING_PAGE_ALIGNSZ 300 = Some (uint b - 1024)"
  (is "\<exists>b. inc_vma_limit ?c _ _ _ = _ \<and> _")
proof -
  have "u64_of_u32 1024 < 5000" by (simp add: u64_of_u32_def)
  then show ?thesis
    using inc_vma_limit_overlap [of ?c _ _ "[]" 300 sample_devs]
    by (simp add: int_of_u64_def PAGING_PAGESZ_def)
qed

end
