(* ===== verification/Libmem.thy ===== *)
theory Libmem
  imports Vm
begin

text \<open>
  The memory library of \<open>src/libmem.c\<close>: allocation and release of regions, the page fault path and
  byte access through the page table.

  Out parameters are extra results. The mutex \<open>mmvm_lock\<close> (only ever unlocked) and the console
  output are not modelled (\<open>Print\<close> has the dump that \<open>libread\<close> and \<open>libwrite\<close> make). The out parameter
  \<open>*data\<close> of \<open>pg_getval\<close> and \<open>__read\<close> is an \<open>option\<close> (\<open>None\<close>: not assigned). \<open>libread\<close> keeps that byte in
  a local variable, prints it and returns the code of \<open>__read\<close> only: neither its result nor \<open>*destination\<close>
  carries the byte, and so no instruction and no system call ever gets one.
\<close>

subsection \<open>Free regions\<close>

definition enlist_vm_freerg_list :: "mm_struct \<Rightarrow> rg_ptr \<Rightarrow> (cint \<times> mm_struct) option" where
  "enlist_vm_freerg_list m rg_elmt =
    (case mmap m of
       [] \<Rightarrow> None
     | v # _ \<Rightarrow> do {
         let rg_node = vm_freerg_list v;
         r \<leftarrow> rg_load m rg_elmt;
         if rg_start r \<ge> rg_end r then Some (-1, m)
         else do {
           m1 \<leftarrow> (if rg_node \<noteq> RgNull then rg_store m rg_elmt (r\<lparr>rg_next := rg_node\<rparr>) else Some m);
           Some (0, vma_set m1 0 (v\<lparr>vm_freerg_list := rg_elmt\<rparr>))
         }
       })"

definition get_symrg_byid :: "mm_struct \<Rightarrow> cint \<Rightarrow> rg_ptr" where
  "get_symrg_byid m rgid =
    (if rgid < 0 \<or> rgid > PAGING_MAX_SYMTBL_SZ then RgNull else RgSym (nat rgid))"

definition find_victim_page :: "mm_struct \<Rightarrow> (cint \<times> cint option \<times> mm_struct) option" where
  "find_victim_page m =
    (case fifo_pgn m of
       PgNull \<Rightarrow> Some (-1, None, m)
     | PgNode n nx \<Rightarrow> Some (0, Some n, m\<lparr>fifo_pgn := nx\<rparr>)
     | PgWild \<Rightarrow> None)"

text \<open>
  The search loop of \<open>get_free_vmrg_area\<close>; \<open>v\<close> is the area, \<open>prev\<close> and \<open>rgit\<close> the two cursors. It
  returns the bounds of \<open>newrg\<close>. A list that does not end, or that runs into a wild pointer, yields
  \<open>None\<close>.
\<close>

partial_function (option) free_vmrg_loop ::
  "mm_struct \<Rightarrow> nat \<Rightarrow> cint \<Rightarrow> rg_ptr \<Rightarrow> rg_ptr \<Rightarrow> (cint \<times> (u64 \<times> u64) \<times> mm_struct) option" where
  "free_vmrg_loop m v sz prev rgit =
    (if rgit = RgNull then Some (0, (-1, -1), m)
     else do {
       r \<leftarrow> rg_load m rgit;
       let avail = int_of_u64 (rg_end r - rg_start r);
       if avail \<ge> sz then do {
         let new_start = rg_start r;
         let new_end = new_start + u64_of_int sz;
         m1 \<leftarrow> rg_store m rgit (r\<lparr>rg_start := new_end\<rparr>);
         if new_end \<ge> rg_end r then do {
           m2 \<leftarrow> (if prev = RgNull
                  then Some (vma_set m1 v ((mmap m1 ! v)\<lparr>vm_freerg_list := rg_next r\<rparr>))
                  else do {
                    p \<leftarrow> rg_load m1 prev;
                    rg_store m1 prev (p\<lparr>rg_next := rg_next r\<rparr>)
                  });
           m3 \<leftarrow> rg_free m2 rgit;
           Some (0, (new_start, new_end), m3)
         }
         else Some (0, (new_start, new_end), m1)
       }
       else free_vmrg_loop m v sz rgit (rg_next r)
     })"

definition get_free_vmrg_area ::
  "pcb_t \<Rightarrow> cint \<Rightarrow> cint \<Rightarrow> (cint \<times> (u64 \<times> u64) option \<times> pcb_t) option" where
  "get_free_vmrg_area caller vmaid sz = do {
     m \<leftarrow> mm caller;
     v \<leftarrow> get_vma_by_num m vmaid;
     let rgit = vm_freerg_list (mmap m ! v);
     if rgit = RgNull then Some (-1, None, caller)
     else do {
       (r, newrg, m') \<leftarrow> free_vmrg_loop m v sz RgNull rgit;
       Some (r, Some newrg, caller\<lparr>mm := Some m'\<rparr>)
     }
   }"

subsection \<open>Allocation and release\<close>

text \<open>
  The result of \<open>alloc_region\<close> (\<open>__alloc\<close>) is the return code, the address written to
  \<open>*alloc_addr\<close> and the new state. \<open>cur_vma\<close> is a pointer into the list of areas, which
  \<open>inc_vma_limit\<close> updates before \<open>sbrk\<close> is stored through it.
\<close>

definition alloc_region ::
  "pcb_t \<Rightarrow> devs \<Rightarrow> cint \<Rightarrow> cint \<Rightarrow> cint \<Rightarrow> (cint \<times> cint option \<times> pcb_t \<times> devs) option" where
  "alloc_region caller d vmaid rgid sz = do {
     (r, newrg, caller1) \<leftarrow> get_free_vmrg_area caller vmaid sz;
     if r = 0 then do {
       (rs, re) \<leftarrow> newrg;
       m \<leftarrow> mm caller1;
       old \<leftarrow> arr_get (symrgtbl m) rgid;
       tbl \<leftarrow> arr_set (symrgtbl m) rgid (old\<lparr>rg_start := rs, rg_end := re\<rparr>);
       Some (0, Some (int_of_u64 rs), caller1\<lparr>mm := Some (m\<lparr>symrgtbl := tbl\<rparr>)\<rparr>, d)
     }
     else do {
       m \<leftarrow> mm caller1;
       let cur_vma = get_vma_by_num m vmaid;
       inc_sz \<leftarrow> PAGING_PAGE_ALIGNSZ sz;
       k \<leftarrow> cur_vma;
       let old_sbrk = int_of_u64 (sbrk (mmap m ! k));
       (inc_limit_ret, caller2, d') \<leftarrow> inc_vma_limit caller1 d vmaid inc_sz;
       if inc_limit_ret < 0 then Some (-1, None, caller2, d')
       else do {
         m2 \<leftarrow> mm caller2;
         s \<leftarrow> c_ret (old_sbrk + inc_sz);
         let m3 = vma_set m2 k ((mmap m2 ! k)\<lparr>sbrk := u64_of_int s\<rparr>);
         Some (0, Some old_sbrk, caller2\<lparr>mm := Some m3\<rparr>, d')
       }
     }
   }"

definition free_region :: "pcb_t \<Rightarrow> cint \<Rightarrow> cint \<Rightarrow> (cint \<times> pcb_t) option" where
  "free_region caller vmaid rgid =
    (if rgid < 0 \<or> rgid > PAGING_MAX_SYMTBL_SZ then Some (-1, caller)
     else do {
       m \<leftarrow> mm caller;
       let region = get_symrg_byid m rgid;
       if region = RgNull then Some (-1, caller)
       else do {
         r \<leftarrow> rg_load m region;
         if rg_start r = -1 \<or> rg_end r = -1 \<or> rg_start r \<ge> rg_end r then Some (-1, caller)
         else do {
           (e, m1) \<leftarrow> enlist_vm_freerg_list m region;
           if e \<noteq> 0 then Some (-1, caller\<lparr>mm := Some m1\<rparr>)
           else do {
             m2 \<leftarrow> rg_store m1 region \<lparr>rg_start = -1, rg_end = -1, rg_next = RgNull\<rparr>;
             Some (0, caller\<lparr>mm := Some m2\<rparr>)
           }
         }
       }
     })"

definition liballoc ::
  "pcb_t \<Rightarrow> devs \<Rightarrow> u32 \<Rightarrow> u32 \<Rightarrow> (cint \<times> cint option \<times> pcb_t \<times> devs) option" where
  "liballoc proc d sz reg_index =
    alloc_region proc d 0 (int_of_u32 reg_index) (int_of_u32 sz)"

definition libfree :: "pcb_t \<Rightarrow> u32 \<Rightarrow> (cint \<times> pcb_t) option" where
  "libfree proc reg_index = free_region proc 0 (int_of_u32 reg_index)"

subsection \<open>Pages and bytes\<close>

definition pg_getpage ::
  "pcb_t \<Rightarrow> devs \<Rightarrow> cint \<Rightarrow> (cint \<times> cint option \<times> pcb_t \<times> devs) option" where
  "pg_getpage caller d pn = do {
     m0 \<leftarrow> mm caller;
     pte \<leftarrow> arr_get (pgd m0) pn;
     (r, caller', d') \<leftarrow>
       (if PAGING_PAGE_PRESENT pte = 0 then do {
          (rv, vic, m1) \<leftarrow> find_victim_page m0;
          let c1 = caller\<lparr>mm := Some m1\<rparr>;
          if rv \<noteq> 0 then Some (-1, c1, d)
          else do {
            vicpgn \<leftarrow> vic;
            (rf, sw, mp) \<leftarrow> MEMPHY_get_freefp (active_mswp d);
            let d1 = d\<lparr>active_mswp := mp\<rparr>;
            if rf \<noteq> 0 then Some (-1, c1, d1)
            else do {
              swpfpn \<leftarrow> sw;
              (s1, d2) \<leftarrow> mm_swap_page d1 vicpgn swpfpn;
              if s1 \<noteq> 0 then Some (-1, c1, d2)
              else do {
                let tgtfpn = int_of_u32 (PAGING_SWP pte);
                (s2, d3) \<leftarrow> mm_swap_page d2 tgtfpn vicpgn;
                if s2 \<noteq> 0 then Some (-1, c1, d3)
                else do {
                  old \<leftarrow> arr_get (pgd m1) pn;
                  pd \<leftarrow> arr_set (pgd m1) pn
                    ((old AND NOT PAGING_PTE_FPN_MASK) OR u32_of_int vicpgn OR PAGING_PTE_PRESENT_MASK);
                  Some (0, c1\<lparr>mm := Some (m1\<lparr>pgd := pd\<rparr>)\<rparr>, d3)
                }
              }
            }
          }
        }
        else Some (0 :: cint, caller, d));
     if r \<noteq> 0 then Some (-1, None, caller', d')
     else do {
       m \<leftarrow> mm caller';
       e \<leftarrow> arr_get (pgd m) pn;
       Some (0, Some (int_of_u32 (PAGING_FPN e)), caller', d')
     }
   }"

definition pg_getval ::
  "pcb_t \<Rightarrow> devs \<Rightarrow> cint \<Rightarrow> (cint \<times> u8 option \<times> pcb_t \<times> devs) option" where
  "pg_getval caller d addr = do {
     let pn = int_of_u32 (PAGING_PGN (u32_of_int addr));
     let off = int_of_u32 (PAGING_OFFST (u32_of_int addr));
     (r, f, caller', d') \<leftarrow> pg_getpage caller d pn;
     if r \<noteq> 0 then Some (-1, None, caller', d')
     else do {
       fn \<leftarrow> f;
       phy0 \<leftarrow> c_ret (fn * PAGING_PAGESZ);
       phyaddr \<leftarrow> c_ret (phy0 + off);
       (e, v, mp) \<leftarrow> MEMPHY_read (mram d') phyaddr;
       let d2 = d'\<lparr>mram := mp\<rparr>;
       if e \<noteq> 0 then Some (-1, v, caller', d2) else Some (0, v, caller', d2)
     }
   }"

definition pg_setval ::
  "pcb_t \<Rightarrow> devs \<Rightarrow> cint \<Rightarrow> u8 \<Rightarrow> (cint \<times> pcb_t \<times> devs) option" where
  "pg_setval caller d addr v = do {
     let pn = int_of_u32 (PAGING_PGN (u32_of_int addr));
     let off = int_of_u32 (PAGING_OFFST (u32_of_int addr));
     (r, f, caller', d') \<leftarrow> pg_getpage caller d pn;
     if r \<noteq> 0 then Some (-1, caller', d')
     else do {
       fn \<leftarrow> f;
       phy0 \<leftarrow> c_ret (fn * PAGING_PAGESZ);
       phyaddr \<leftarrow> c_ret (phy0 + off);
       (e, mp) \<leftarrow> MEMPHY_write (mram d') phyaddr v;
       let d2 = d'\<lparr>mram := mp\<rparr>;
       if e \<noteq> 0 then Some (-1, caller', d2) else Some (0, caller', d2)
     }
   }"

text \<open>
  In \<open>__read\<close> and \<open>__write\<close> the address \<open>currg->rg_start + offset\<close> is computed in
  \<open>unsigned long\<close> and converted to \<open>int\<close>, and the result of the access is ignored.
\<close>

definition read_region ::
  "pcb_t \<Rightarrow> devs \<Rightarrow> cint \<Rightarrow> cint \<Rightarrow> cint \<Rightarrow> (cint \<times> u8 option \<times> pcb_t \<times> devs) option" where
  "read_region caller d vmaid rgid offset = do {
     m \<leftarrow> mm caller;
     let currg = get_symrg_byid m rgid;
     let cur_vma = get_vma_by_num m vmaid;
     if currg = RgNull \<or> cur_vma = None then Some (-1, None, caller, d)
     else do {
       r \<leftarrow> rg_load m currg;
       (_, v, caller', d') \<leftarrow> pg_getval caller d (int_of_u64 (rg_start r + u64_of_int offset));
       Some (0, v, caller', d')
     }
   }"

definition write_region ::
  "pcb_t \<Rightarrow> devs \<Rightarrow> cint \<Rightarrow> cint \<Rightarrow> cint \<Rightarrow> u8 \<Rightarrow> (cint \<times> pcb_t \<times> devs) option" where
  "write_region caller d vmaid rgid offset v = do {
     m \<leftarrow> mm caller;
     let currg = get_symrg_byid m rgid;
     let cur_vma = get_vma_by_num m vmaid;
     if currg = RgNull \<or> cur_vma = None then Some (-1, caller, d)
     else do {
       r \<leftarrow> rg_load m currg;
       (_, caller', d') \<leftarrow> pg_setval caller d (int_of_u64 (rg_start r + u64_of_int offset)) v;
       Some (0, caller', d')
     }
   }"

definition libread ::
  "pcb_t \<Rightarrow> devs \<Rightarrow> u32 \<Rightarrow> u32 \<Rightarrow> (cint \<times> pcb_t \<times> devs) option" where
  "libread proc d source offset = do {
     (val, _, proc', d') \<leftarrow> read_region proc d 0 (int_of_u32 source) (int_of_u32 offset);
     Some (val, proc', d')
   }"

definition libwrite :: "pcb_t \<Rightarrow> devs \<Rightarrow> u8 \<Rightarrow> u32 \<Rightarrow> u32 \<Rightarrow> (cint \<times> pcb_t \<times> devs) option" where
  "libwrite proc d data destination offset =
    write_region proc d 0 (int_of_u32 destination) (int_of_u32 offset) data"

subsection \<open>Releasing the frames of a process (\<open>free_pcb_memph\<close>)\<close>

fun free_memph_loop :: "u32 list \<Rightarrow> devs \<Rightarrow> int list \<Rightarrow> devs option" where
  "free_memph_loop pd d [] = Some d"
| "free_memph_loop pd d (pagenum # is) = do {
     pte \<leftarrow> arr_get pd pagenum;
     d' \<leftarrow> (if PAGING_PAGE_PRESENT pte = 0 then do {
              (_, mp) \<leftarrow> MEMPHY_put_freefp (mram d) (int_of_u32 (PAGING_FPN pte));
              Some (d\<lparr>mram := mp\<rparr>)
            }
            else do {
              (_, mp) \<leftarrow> MEMPHY_put_freefp (active_mswp d) (int_of_u32 (PAGING_SWP pte));
              Some (d\<lparr>active_mswp := mp\<rparr>)
            });
     free_memph_loop pd d' is
   }"

definition free_pcb_memph :: "pcb_t \<Rightarrow> devs \<Rightarrow> (cint \<times> devs) option" where
  "free_pcb_memph caller d = do {
     m \<leftarrow> mm caller;
     d' \<leftarrow> free_memph_loop (pgd m) d [0..uint PAGING_MAX_PGN - 1];
     Some (0, d')
   }"

end
