(* ===== verification/Regions.thy ===== *)
theory Regions
  imports Libmem
begin

text \<open>
  The free region list of a process: the pointer chain \<open>rg_chain\<close> that starts at
  \<open>vm_freerg_list\<close>, the list of intervals it stands for (\<open>regions\<close>), the search loop of
  \<open>get_free_vmrg_area\<close> as a refinement of first fit on intervals, and what allocating and releasing
  regions does to the list.
\<close>

subsection \<open>Chains of region nodes\<close>

fun rg_path :: "mm_struct \<Rightarrow> rg_ptr \<Rightarrow> rg_ptr list \<Rightarrow> rg_ptr \<Rightarrow> bool" where
  "rg_path m p [] y \<longleftrightarrow> p = y"
| "rg_path m p (q # qs) y \<longleftrightarrow>
    p = q \<and> (case rg_load m q of None \<Rightarrow> False | Some r \<Rightarrow> rg_path m (rg_next r) qs y)"

definition rg_chain :: "mm_struct \<Rightarrow> rg_ptr \<Rightarrow> rg_ptr list \<Rightarrow> bool" where
  "rg_chain m p qs \<longleftrightarrow> rg_path m p qs RgNull"

definition region_of :: "mm_struct \<Rightarrow> rg_ptr \<Rightarrow> u64 \<times> u64" where
  "region_of m q = (case rg_load m q of Some r \<Rightarrow> (rg_start r, rg_end r) | None \<Rightarrow> (0, 0))"

definition regions :: "mm_struct \<Rightarrow> rg_ptr list \<Rightarrow> (u64 \<times> u64) list" where
  "regions m qs = map (region_of m) qs"

lemma rg_path_append: "rg_path m p (xs @ ys) y \<longleftrightarrow> (\<exists>z. rg_path m p xs z \<and> rg_path m z ys y)"
  by (induction xs arbitrary: p) (auto split: option.splits)

lemma rg_path_cong:
  "\<forall>q \<in> set qs. rg_load m' q = rg_load m q \<Longrightarrow> rg_path m' p qs y = rg_path m p qs y"
  by (induction qs arbitrary: p) (auto split: option.splits)

lemma rg_path_loads: "rg_path m p qs y \<Longrightarrow> q \<in> set qs \<Longrightarrow> \<exists>r. rg_load m q = Some r"
  by (induction qs arbitrary: p) (auto split: option.splits)

lemma rg_load_not_null: "rg_load m q = Some r \<Longrightarrow> q \<noteq> RgNull"
  by auto

lemma regions_cong:
  "\<forall>q \<in> set qs. rg_load m' q = rg_load m q \<Longrightarrow> regions m' qs = regions m qs"
  by (simp add: regions_def region_of_def)

subsection \<open>First fit on intervals\<close>

definition fits :: "cint \<Rightarrow> u64 \<times> u64 \<Rightarrow> bool" where
  "fits sz g \<longleftrightarrow> int_of_u64 (snd g - fst g) \<ge> sz"

fun first_fit :: "cint \<Rightarrow> (u64 \<times> u64) list \<Rightarrow> ((u64 \<times> u64) \<times> (u64 \<times> u64) list) option" where
  "first_fit sz [] = None"
| "first_fit sz ((s, e) # gs) =
    (if fits sz (s, e) then
       Some ((s, s + u64_of_int sz),
         if s + u64_of_int sz \<ge> e then gs else (s + u64_of_int sz, e) # gs)
     else map_option (\<lambda>(g, gs'). (g, (s, e) # gs')) (first_fit sz gs))"

lemma first_fit_None: "first_fit sz gs = None \<longleftrightarrow> (\<forall>g \<in> set gs. \<not> fits sz g)"
  by (induction sz gs rule: first_fit.induct) auto

lemma first_fit_split:
  "\<forall>g \<in> set as. \<not> fits sz g \<Longrightarrow> fits sz (s, e) \<Longrightarrow>
   first_fit sz (as @ (s, e) # gs) = Some ((s, s + u64_of_int sz),
     as @ (if s + u64_of_int sz \<ge> e then gs else (s + u64_of_int sz, e) # gs))"
  by (induction "as") auto

subsection \<open>The search loop\<close>

text \<open>What the loop does when it has found a node \<open>q\<close> that fits, with predecessor \<open>prev\<close>.\<close>

definition fit_step ::
  "mm_struct \<Rightarrow> nat \<Rightarrow> cint \<Rightarrow> rg_ptr \<Rightarrow> rg_ptr \<Rightarrow> vm_rg_struct \<Rightarrow> (cint \<times> (u64 \<times> u64) \<times> mm_struct) option" where
  "fit_step m v sz prev q r =
    (let new_end = rg_start r + u64_of_int sz in do {
       m1 \<leftarrow> rg_store m q (r\<lparr>rg_start := new_end\<rparr>);
       if new_end \<ge> rg_end r then do {
         m2 \<leftarrow> (if prev = RgNull
                then Some (vma_set m1 v ((mmap m1 ! v)\<lparr>vm_freerg_list := rg_next r\<rparr>))
                else do {
                  p \<leftarrow> rg_load m1 prev;
                  rg_store m1 prev (p\<lparr>rg_next := rg_next r\<rparr>)
                });
         m3 \<leftarrow> rg_free m2 q;
         Some (0, (rg_start r, new_end), m3)
       }
       else Some (0, (rg_start r, new_end), m1)
     })"

lemma free_vmrg_loop_unfold:
  "free_vmrg_loop m v sz prev q =
    (if q = RgNull then Some (0, (-1, -1), m)
     else (case rg_load m q of
        None \<Rightarrow> None
      | Some r \<Rightarrow> if fits sz (rg_start r, rg_end r) then fit_step m v sz prev q r
                  else free_vmrg_loop m v sz q (rg_next r)))"
  by (subst free_vmrg_loop.simps) (auto simp: fit_step_def fits_def Let_def split: option.split)

lemma free_vmrg_loop_skip:
  assumes "rg_path m p qs y" "\<forall>g \<in> set (regions m qs). \<not> fits sz g"
  shows "free_vmrg_loop m v sz prev p = free_vmrg_loop m v sz (last (prev # qs)) y"
  using assms
proof (induction qs arbitrary: p prev)
  case Nil
  then show ?case by simp
next
  case (Cons q qs)
  then obtain r where r: "rg_load m q = Some r" "rg_path m (rg_next r) qs y" "p = q"
    by (auto split: option.splits)
  have "\<not> fits sz (rg_start r, rg_end r)" using Cons.prems(2) r(1) by (simp add: regions_def region_of_def)
  with r rg_load_not_null [OF r(1)] have "free_vmrg_loop m v sz prev p = free_vmrg_loop m v sz q (rg_next r)"
    by (subst free_vmrg_loop_unfold) simp
  with Cons.IH [OF r(2), of q] Cons.prems(2) show ?case by (simp add: regions_def)
qed

lemma free_vmrg_loop_Null [simp]: "free_vmrg_loop m v sz prev RgNull = Some (0, (-1, -1), m)"
  by (subst free_vmrg_loop_unfold) simp

lemma free_vmrg_loop_none:
  assumes "rg_chain m p qs" "first_fit sz (regions m qs) = None"
  shows "free_vmrg_loop m v sz prev p = Some (0, (-1, -1), m)"
  using free_vmrg_loop_skip [of m p qs RgNull sz v prev] assms
  by (simp add: rg_chain_def first_fit_None del: last.simps)

lemma free_vmrg_loop_found:
  assumes "rg_path m p as q" "\<forall>g \<in> set (regions m as). \<not> fits sz g"
    and "rg_load m q = Some r" "fits sz (rg_start r, rg_end r)"
  shows "free_vmrg_loop m v sz prev p = fit_step m v sz (last (prev # as)) q r"
  using free_vmrg_loop_skip [OF assms(1,2), of v prev] rg_load_not_null [OF assms(3)] assms(3,4)
  by (subst (asm) (2) free_vmrg_loop_unfold) simp

subsection \<open>A chain never visits a node twice\<close>

lemma rg_chain_unique: "rg_chain m p xs \<Longrightarrow> rg_chain m p ys \<Longrightarrow> xs = ys"
proof (induction xs arbitrary: p ys)
  case Nil
  then show ?case by (cases ys) (auto simp: rg_chain_def split: option.splits)
next
  case (Cons q xs)
  then show ?case
    by (cases ys) (auto simp: rg_chain_def split: option.splits)
qed

lemma rg_chain_suffix: "rg_chain m p (xs @ q # ys) \<Longrightarrow> rg_chain m q (q # ys)"
  by (auto simp: rg_chain_def rg_path_append)

lemma rg_chain_distinct:
  assumes "rg_chain m p qs"
  shows "distinct qs"
proof (rule ccontr)
  assume "\<not> distinct qs"
  then obtain xs q ys zs where qs: "qs = xs @ q # ys @ q # zs"
    by (auto dest!: not_distinct_decomp)
  with assms have "rg_chain m q (q # ys @ q # zs)" using rg_chain_suffix by blast
  moreover from assms qs have "rg_chain m q (q # zs)"
    using rg_chain_suffix [of m p "xs @ q # ys" q zs] by simp
  ultimately have "q # ys @ q # zs = q # zs" by (rule rg_chain_unique)
  then have "length (q # ys @ q # zs) = length (q # zs)" by (rule arg_cong)
  then show False by simp
qed

subsection \<open>The update of the list\<close>

definition heap_nodes :: "rg_ptr list \<Rightarrow> bool" where
  "heap_nodes qs \<longleftrightarrow> (\<forall>q \<in> set qs. \<exists>a. q = RgHeap a)"

text \<open>\<open>m'\<close> agrees with \<open>m\<close> but for heap nodes and the list head of area \<open>v\<close>, which is \<open>h\<close>.\<close>

definition same_but_list :: "mm_struct \<Rightarrow> nat \<Rightarrow> rg_ptr \<Rightarrow> mm_struct \<Rightarrow> bool" where
  "same_but_list m v h m' \<longleftrightarrow> pgd m' = pgd m \<and> symrgtbl m' = symrgtbl m \<and> fifo_pgn m' = fifo_pgn m \<and>
    mmap m' = (mmap m)[v := (mmap m ! v)\<lparr>vm_freerg_list := h\<rparr>]"

lemma rg_store_heap_symrgtbl: "rg_store m (RgHeap a) r = Some m' \<Longrightarrow> symrgtbl m' = symrgtbl m"
  by (auto split: if_splits)

lemma rg_free_heap: "rg_load m (RgHeap a) = Some r \<Longrightarrow> \<exists>m'. rg_free m (RgHeap a) = Some m'"
  by simp

text \<open>A node that keeps some bytes: only its start moves.\<close>

lemma fit_step_keep:
  assumes chain: "rg_chain m h (as @ q # bs)" and heap: "q = RgHeap a" and r: "rg_load m q = Some r"
    and v: "v < length (mmap m)" "vm_freerg_list (mmap m ! v) = h"
    and keep: "\<not> rg_start r + u64_of_int sz \<ge> rg_end r"
  shows "\<exists>m'. fit_step m v sz prev q r = Some (0, (rg_start r, rg_start r + u64_of_int sz), m') \<and>
    same_but_list m v h m' \<and> rg_chain m' h (as @ q # bs) \<and>
    regions m' (as @ q # bs) = regions m as @ (rg_start r + u64_of_int sz, rg_end r) # regions m bs"
proof -
  let ?r = "r\<lparr>rg_start := rg_start r + u64_of_int sz\<rparr>"
  obtain m' where st: "rg_store m q ?r = Some m'" using rg_store_defined [OF r] by blast
  have q: "q \<notin> set as" "q \<notin> set bs" using rg_chain_distinct [OF chain] by auto
  note ld = rg_load_store [OF st]
  obtain h1 where p: "rg_path m h as h1" "h1 = q" "rg_path m (rg_next r) bs RgNull"
    using chain r by (auto simp: rg_chain_def rg_path_append)
  have la: "\<forall>x \<in> set as. rg_load m' x = rg_load m x" and lb: "\<forall>x \<in> set bs. rg_load m' x = rg_load m x"
    using q by (auto simp: ld)
  have "rg_path m' h as q" "rg_path m' (rg_next r) bs RgNull"
    using p rg_path_cong [OF la] rg_path_cong [OF lb] by simp_all
  then have "rg_chain m' h (as @ q # bs)" by (auto simp: rg_chain_def rg_path_append ld)
  moreover have "regions m' as = regions m as" "regions m' bs = regions m bs"
    using regions_cong [OF la] regions_cong [OF lb] by simp_all
  then have "regions m' (as @ q # bs) = regions m as @ (rg_start r + u64_of_int sz, rg_end r) # regions m bs"
    by (simp add: regions_def) (simp add: region_of_def ld)
  moreover have "same_but_list m v h m'"
    using rg_store_fields [OF st] rg_store_heap_symrgtbl [of m a _ m'] st heap
    by (auto simp add: same_but_list_def simp flip: v(2))
  moreover have "fit_step m v sz prev q r = Some (0, (rg_start r, rg_start r + u64_of_int sz), m')"
    unfolding fit_step_def Let_def st using keep by simp
  ultimately show ?thesis by blast
qed

text \<open>A node that is used up is unlinked and freed: the head of the list, or one with a node before it.\<close>

lemma fit_step_drop_head:
  assumes chain: "rg_chain m h (q # bs)" and a: "q = RgHeap a" and r: "rg_load m q = Some r"
    and v: "v < length (mmap m)" "vm_freerg_list (mmap m ! v) = h"
    and drop: "rg_start r + u64_of_int sz \<ge> rg_end r"
  shows "\<exists>m' h'. fit_step m v sz RgNull q r = Some (0, (rg_start r, rg_start r + u64_of_int sz), m') \<and>
    same_but_list m v h' m' \<and> rg_chain m' h' bs \<and> regions m' bs = regions m bs"
proof -
  let ?r = "r\<lparr>rg_start := rg_start r + u64_of_int sz\<rparr>"
  obtain m1 where st: "rg_store m q ?r = Some m1" using rg_store_defined [OF r] by blast
  note ld = rg_load_store [OF st]
  have f1: "pgd m1 = pgd m" "fifo_pgn m1 = fifo_pgn m" "mmap m1 = mmap m" "symrgtbl m1 = symrgtbl m"
    using rg_store_fields [OF st] rg_store_heap_symrgtbl [of m a ?r m1] st unfolding a by blast+
  let ?m2 = "vma_set m1 v ((mmap m1 ! v)\<lparr>vm_freerg_list := rg_next r\<rparr>)"
  have "rg_load ?m2 (RgHeap a) = Some ?r" using ld a by (simp del: rg_load.simps)
  from rg_free_heap [OF this] obtain m3 where fr: "rg_free ?m2 q = Some m3" unfolding a by blast
  have p: "rg_path m (rg_next r) bs RgNull" using chain r by (auto simp: rg_chain_def)
  have lb: "\<forall>x \<in> set bs. rg_load m3 x = rg_load m x"
    using rg_chain_distinct [OF chain] by (auto simp: rg_load_free [OF fr] ld)
  have "fit_step m v sz RgNull q r = Some (0, (rg_start r, rg_start r + u64_of_int sz), m3)"
    using st drop fr by (simp add: fit_step_def Let_def)
  moreover have "same_but_list m v (rg_next r) m3"
    using rg_free_fields [OF fr] f1 by (simp add: same_but_list_def vma_set_fields)
  ultimately show ?thesis
    using p rg_path_cong [OF lb] regions_cong [OF lb] by (auto simp: rg_chain_def)
qed

lemma fit_step_drop_inner:
  assumes chain: "rg_chain m h (as @ pr # q # bs)" and a: "pr = RgHeap b" "q = RgHeap a" and r: "rg_load m q = Some r"
    and v: "v < length (mmap m)" "vm_freerg_list (mmap m ! v) = h"
    and drop: "rg_start r + u64_of_int sz \<ge> rg_end r"
  shows "\<exists>m'. fit_step m v sz pr q r = Some (0, (rg_start r, rg_start r + u64_of_int sz), m') \<and>
    same_but_list m v h m' \<and> rg_chain m' h (as @ pr # bs) \<and> regions m' (as @ pr # bs) = regions m (as @ pr # bs)"
proof -
  let ?r = "r\<lparr>rg_start := rg_start r + u64_of_int sz\<rparr>"
  obtain m1 where st: "rg_store m q ?r = Some m1" using rg_store_defined [OF r] by blast
  note ld = rg_load_store [OF st] and dist = rg_chain_distinct [OF chain]
  from chain have "rg_path m h (as @ pr # q # bs) RgNull" by (simp add: rg_chain_def)
  from rg_path_loads [OF this, of pr] obtain p0 where p0: "rg_load m pr = Some p0" by auto
  have p: "rg_path m h as pr" "rg_path m (rg_next r) bs RgNull"
    using chain r p0 by (auto simp: rg_chain_def rg_path_append)
  have ne: "pr \<noteq> q" using dist by auto
  let ?p = "p0\<lparr>rg_next := rg_next r\<rparr>"
  have l1: "rg_load m1 pr = Some p0" using p0 ne by (simp add: ld)
  obtain m2 where st2: "rg_store m1 pr ?p = Some m2" using rg_store_defined [OF l1] by blast
  have "rg_load m2 q = Some ?r" using ne by (simp add: rg_load_store [OF st2] ld)
  then obtain m3 where fr: "rg_free m2 q = Some m3" using rg_free_heap unfolding a by blast
  have ld3: "rg_load m3 x = (if x = q then None else if x = pr then Some ?p else rg_load m x)" for x
    by (simp add: rg_load_free [OF fr] rg_load_store [OF st2] ld)
  have la: "\<forall>x \<in> set as. rg_load m3 x = rg_load m x" and lb: "\<forall>x \<in> set bs. rg_load m3 x = rg_load m x"
    using dist by (auto simp: ld3)
  have "fit_step m v sz pr q r = Some (0, (rg_start r, rg_start r + u64_of_int sz), m3)"
    using st drop l1 st2 fr ne rg_load_not_null [OF p0] by (simp add: fit_step_def Let_def)
  moreover have "same_but_list m v h m3"
    using rg_free_fields [OF fr] rg_store_fields [OF st] rg_store_fields [OF st2]
      rg_store_heap_symrgtbl [of m a ?r m1] rg_store_heap_symrgtbl [of m1 b ?p m2] st st2 a
    by (auto simp: same_but_list_def simp del: rg_store.simps rg_free.simps simp flip: v(2))
  moreover have "rg_chain m3 h (as @ pr # bs)"
    using p rg_path_cong [OF la] rg_path_cong [OF lb] ne by (auto simp: rg_chain_def rg_path_append ld3)
  moreover have "region_of m3 pr = region_of m pr" using ne p0 by (simp add: region_of_def ld3)
  then have "regions m3 (as @ pr # bs) = regions m (as @ pr # bs)"
    using regions_cong [OF la] regions_cong [OF lb] by (simp add: regions_def)
  ultimately show ?thesis by blast
qed

lemma fit_step_drop:
  assumes chain: "rg_chain m h (as @ q # bs)" and heap: "heap_nodes (as @ [q])" and r: "rg_load m q = Some r"
    and v: "v < length (mmap m)" "vm_freerg_list (mmap m ! v) = h"
    and drop: "rg_start r + u64_of_int sz \<ge> rg_end r"
  shows "\<exists>m' h'. fit_step m v sz (last (RgNull # as)) q r =
      Some (0, (rg_start r, rg_start r + u64_of_int sz), m') \<and>
    same_but_list m v h' m' \<and> rg_chain m' h' (as @ bs) \<and> regions m' (as @ bs) = regions m (as @ bs)"
proof (cases "as" rule: rev_cases)
  case Nil
  from heap obtain a where "q = RgHeap a" by (auto simp: heap_nodes_def)
  with fit_step_drop_head [of m h q bs, OF _ _ r v drop] chain show ?thesis unfolding Nil by simp
next
  case (snoc as' pr)
  from heap obtain a b where "pr = RgHeap b" "q = RgHeap a" unfolding snoc by (auto simp: heap_nodes_def)
  from fit_step_drop_inner [of m h as' pr q bs, OF _ this r v drop] chain show ?thesis unfolding snoc by auto
qed

subsection \<open>\<open>get_free_vmrg_area\<close> refines first fit\<close>

lemma first_fit_Some_split:
  "first_fit sz gs = Some res \<Longrightarrow>
   \<exists>as s e bs. gs = as @ (s, e) # bs \<and> (\<forall>g \<in> set as. \<not> fits sz g) \<and> fits sz (s, e)"
proof (induction sz gs arbitrary: res rule: first_fit.induct)
  case (1 sz)
  then show ?case by simp
next
  case (2 sz s e gs)
  show ?case
  proof (cases "fits sz (s, e)")
    case True
    then show ?thesis by (intro exI [of _ "[]"]) auto
  next
    case False
    with "2.prems" obtain res' where "first_fit sz gs = Some res'" by auto
    from "2.IH" [OF False this] obtain "as" s' e' bs where
      "gs = as @ (s', e') # bs" "\<forall>g \<in> set as. \<not> fits sz g" "fits sz (s', e')" by blast
    then show ?thesis using False by (intro exI [of _ "(s, e) # as"]) auto
  qed
qed

lemma get_free_vmrg_area_fit:
  assumes c: "mm c = Some m" and v: "get_vma_by_num m vmaid = Some v"
    and chain: "rg_chain m (vm_freerg_list (mmap m ! v)) qs" and heap: "heap_nodes qs"
    and fit: "first_fit sz (regions m qs) = Some (g, gs')"
  shows "\<exists>m' h' qs'. get_free_vmrg_area c vmaid sz = Some (0, Some g, c\<lparr>mm := Some m'\<rparr>) \<and>
    same_but_list m v h' m' \<and> rg_chain m' h' qs' \<and> set qs' \<subseteq> set qs \<and> regions m' qs' = gs'"
proof -
  let ?h = "vm_freerg_list (mmap m ! v)"
  obtain gas s e gbs where g: "regions m qs = gas @ (s, e) # gbs" "\<forall>g \<in> set gas. \<not> fits sz g" "fits sz (s, e)"
    using first_fit_Some_split [OF fit] by blast
  then obtain "as" q bs where qs: "qs = as @ q # bs" "regions m as = gas" "region_of m q = (s, e)"
    "regions m bs = gbs"
    by (auto simp: regions_def map_eq_append_conv)
  obtain r where r: "rg_load m q = Some r"
    using rg_path_loads [of m ?h qs RgNull q] chain qs(1) by (auto simp: rg_chain_def)
  have se: "s = rg_start r" "e = rg_end r" using qs(3) r by (simp_all add: region_of_def)
  have path: "rg_path m ?h as q" using chain r qs(1) by (auto simp: rg_chain_def rg_path_append)
  have nn: "?h \<noteq> RgNull" using chain qs(1) rg_path_loads [of m ?h qs RgNull ?h]
    by (cases "as") (auto simp: rg_chain_def split: option.splits)
  have "free_vmrg_loop m v sz RgNull ?h = fit_step m v sz (last (RgNull # as)) q r"
    using free_vmrg_loop_found [OF path _ r] g(2,3) qs(2) se by simp
  then have run: "get_free_vmrg_area c vmaid sz =
      do { (x, newrg, m') \<leftarrow> fit_step m v sz (last (RgNull # as)) q r; Some (x, Some newrg, c\<lparr>mm := Some m'\<rparr>) }"
    using c v nn by (simp add: get_free_vmrg_area_def Let_def)
  have res: "g = (s, s + u64_of_int sz)"
    "gs' = gas @ (if s + u64_of_int sz \<ge> e then gbs else (s + u64_of_int sz, e) # gbs)"
    using fit first_fit_split [OF g(2,3)] g(1) by simp_all
  have vb: "v < length (mmap m)" by (rule get_vma_by_num_bound [OF v])
  have ch: "rg_chain m ?h (as @ q # bs)" using chain qs(1) by simp
  have hq: "heap_nodes (as @ [q])" using heap qs(1) by (simp add: heap_nodes_def)
  show ?thesis
  proof (cases "s + u64_of_int sz \<ge> e")
    case True
    with fit_step_drop [OF ch hq r vb refl] se obtain m' h' where
      "fit_step m v sz (last (RgNull # as)) q r = Some (0, (s, s + u64_of_int sz), m')"
      "same_but_list m v h' m'" "rg_chain m' h' (as @ bs)" "regions m' (as @ bs) = regions m (as @ bs)"
      by blast
    with run res True qs show ?thesis
      by (intro exI [of _ m'] exI [of _ h'] exI [of _ "as @ bs"]) (auto simp: regions_def)
  next
    case False
    obtain a where "q = RgHeap a" using hq by (auto simp: heap_nodes_def)
    from fit_step_keep [OF ch this r vb refl] False se obtain m' where
      "fit_step m v sz (last (RgNull # as)) q r = Some (0, (s, s + u64_of_int sz), m')"
      "same_but_list m v ?h m'" "rg_chain m' ?h (as @ q # bs)"
      "regions m' (as @ q # bs) = regions m as @ (s + u64_of_int sz, e) # regions m bs"
      by blast
    with run res False qs show ?thesis
      by (intro exI [of _ m'] exI [of _ ?h] exI [of _ "as @ q # bs"]) (auto simp: regions_def)
  qed
qed

text \<open>
  C5. The pointer walk of \<open>get_free_vmrg_area\<close> over a non-empty, properly ended free list returns and
  implements first fit: if an interval is large enough, the first such is cut (or unlinked and freed
  when used up), the returned region is its front, and the new chain stands for exactly the list
  first fit leaves. If none is large enough the state is unchanged, but the call still reports
  success, with the region \<open>(-1, -1)\<close>.
\<close>

theorem get_free_vmrg_area_first_fit:
  assumes "mm c = Some m" "get_vma_by_num m vmaid = Some v"
    and "rg_chain m (vm_freerg_list (mmap m ! v)) qs" "heap_nodes qs" "qs \<noteq> []"
  shows "(case first_fit sz (regions m qs) of
      None \<Rightarrow> get_free_vmrg_area c vmaid sz = Some (0, Some (-1, -1), c)
    | Some (g, gs') \<Rightarrow> \<exists>m' h' qs'.
        get_free_vmrg_area c vmaid sz = Some (0, Some g, c\<lparr>mm := Some m'\<rparr>) \<and>
        same_but_list m v h' m' \<and> rg_chain m' h' qs' \<and> set qs' \<subseteq> set qs \<and> regions m' qs' = gs')"
proof (cases "first_fit sz (regions m qs)")
  case None
  have "vm_freerg_list (mmap m ! v) \<noteq> RgNull"
    using assms(3,5) by (cases qs) (auto simp: rg_chain_def split: option.splits)
  then have "get_free_vmrg_area c vmaid sz = Some (0, Some (-1, -1), c\<lparr>mm := mm c\<rparr>)"
    using assms(1,2) free_vmrg_loop_none [OF assms(3) None]
    by (simp add: get_free_vmrg_area_def Let_def)
  then show ?thesis using None by simp
next
  case (Some res)
  obtain g gs' where "res = (g, gs')" by (cases res)
  then show ?thesis
    using Some get_free_vmrg_area_fit [OF assms(1-4), of sz g gs'] by simp
qed

subsection \<open>Conservation of the free bytes\<close>

definition span :: "u64 \<times> u64 \<Rightarrow> int set" where
  "span g = {uint (fst g)..<uint (snd g)}"

definition cover :: "(u64 \<times> u64) list \<Rightarrow> int set" where
  "cover gs = (\<Union>g \<in> set gs. span g)"

text \<open>Intervals that are not inverted and hold fewer than \<open>INT_MAX\<close> bytes, pairwise disjoint.\<close>

fun free_ok :: "(u64 \<times> u64) list \<Rightarrow> bool" where
  "free_ok [] = True"
| "free_ok ((s, e) # gs) =
    (s \<le> e \<and> uint e - uint s < 2 ^ 31 \<and> span (s, e) \<inter> cover gs = {} \<and> free_ok gs)"

lemma cover_simps [simp]: "cover [] = {}" "cover (g # gs) = span g \<union> cover gs"
  by (simp_all add: cover_def)

lemma avail_eq:
  assumes "s \<le> (e::u64)" "uint e - uint s < 2 ^ 31"
  shows "int_of_u64 (e - s) = uint e - uint s"
proof -
  have d: "uint (e - s) = uint e - uint s" using assms(1) by (simp add: uint_sub_if' word_le_def)
  then have "e - s = u64_of_int (uint e - uint s)" by (simp add: u64_of_int_def flip: d)
  moreover have "is_cint (uint e - uint s)"
    using assms by (simp add: is_cint_def word_le_def)
  ultimately show ?thesis using int_of_u64_of_int by simp
qed

lemma cut_point:
  assumes "s \<le> (e::u64)" "uint e - uint s < 2 ^ 31" "0 \<le> sz" "fits sz (s, e)"
  shows "uint (s + u64_of_int sz) = uint s + sz" "uint s + sz \<le> uint e"
proof -
  have le: "sz \<le> uint e - uint s" using assms avail_eq [OF assms(1,2)] by (simp add: fits_def)
  then show "uint s + sz \<le> uint e" by simp
  then have sum: "uint s + sz < 2 ^ 64" using uint_bounded [of e] by simp
  moreover have "sz < 2 ^ 64" using sum uint_ge_0 [of s] by linarith
  then have "uint (u64_of_int sz) = sz"
    using assms(3) unfolding u64_of_int_def by (intro uint_word_of_int_64) simp_all
  ultimately show "uint (s + u64_of_int sz) = uint s + sz"
    using uint_add_lem [of s "u64_of_int sz"] by simp
qed

lemma first_fit_conserves:
  assumes "free_ok gs" "0 \<le> sz" "first_fit sz gs = Some (g, gs')"
  shows "cover gs = span g \<union> cover gs' \<and> span g \<inter> cover gs' = {} \<and> free_ok gs' \<and>
    uint (snd g) = uint (fst g) + sz \<and> cover gs' \<subseteq> cover gs"
  using assms
proof (induction sz gs arbitrary: g gs' rule: first_fit.induct)
  case (1 sz)
  then show ?case by simp
next
  case (2 sz s e gs)
  have ok: "s \<le> e" "uint e - uint s < 2 ^ 31" "span (s, e) \<inter> cover gs = {}" "free_ok gs"
    using "2.prems"(1) by simp_all
  show ?case
  proof (cases "fits sz (s, e)")
    case True
    note cp = cut_point [OF ok(1,2) "2.prems"(2) True]
    have sp: "span (s, e) = span (s, s + u64_of_int sz) \<union> span (s + u64_of_int sz, e)"
      "span (s, s + u64_of_int sz) \<inter> span (s + u64_of_int sz, e) = {}"
      using cp "2.prems"(2) by (auto simp: span_def)
    show ?thesis
    proof (cases "s + u64_of_int sz \<ge> e")
      case T: True
      then have "span (s + u64_of_int sz, e) = {}" by (simp add: span_def word_le_def)
      with sp ok cp True T "2.prems"(3) show ?thesis by auto
    next
      case F: False
      then have "s + u64_of_int sz \<le> e" by simp
      with sp ok cp True F "2.prems"(2,3) show ?thesis by auto
    qed
  next
    case False
    with "2.prems"(3) obtain gs1 where gs1: "first_fit sz gs = Some (g, gs1)" "gs' = (s, e) # gs1"
      by auto
    from "2.IH" [OF False ok(4) "2.prems"(2) gs1(1)] ok gs1(2) show ?thesis by auto
  qed
qed

subsection \<open>Allocating and releasing\<close>

text \<open>
  C6. An allocation that a free interval can serve takes exactly \<open>sz\<close> bytes from the free list: the
  region recorded for the variable and the remaining free intervals are disjoint and together hold
  the bytes that were free before. No page is mapped and no frame is used.
\<close>

theorem alloc_region_conserves:
  assumes "mm c = Some m" "get_vma_by_num m vmaid = Some v"
    and "rg_chain m (vm_freerg_list (mmap m ! v)) qs" "heap_nodes qs"
    and "free_ok (regions m qs)" "\<exists>g \<in> set (regions m qs). fits sz g" "0 \<le> sz"
    and "0 \<le> rgid" "rgid < int (length (symrgtbl m))"
  shows "\<exists>a c' m' qs' g. alloc_region c d vmaid rgid sz = Some (0, Some a, c', d) \<and>
    mm c' = Some m' \<and> pgd m' = pgd m \<and>
    rg_chain m' (vm_freerg_list (mmap m' ! v)) qs' \<and> free_ok (regions m' qs') \<and>
    (rg_start (symrgtbl m' ! nat rgid), rg_end (symrgtbl m' ! nat rgid)) = g \<and>
    a = int_of_u64 (fst g) \<and> uint (snd g) = uint (fst g) + sz \<and>
    span g \<inter> cover (regions m' qs') = {} \<and> span g \<union> cover (regions m' qs') = cover (regions m qs)"
proof -
  from assms(6) obtain g gs' where fit: "first_fit sz (regions m qs) = Some (g, gs')"
    using first_fit_None [of sz "regions m qs"] by fastforce
  from get_free_vmrg_area_fit [OF assms(1-4) fit] obtain m1 h' qs' where r:
    "get_free_vmrg_area c vmaid sz = Some (0, Some g, c\<lparr>mm := Some m1\<rparr>)"
    "same_but_list m v h' m1" "rg_chain m1 h' qs'" "set qs' \<subseteq> set qs" "regions m1 qs' = gs'"
    by blast
  note cons = first_fit_conserves [OF assms(5,7) fit]
  have tbl: "symrgtbl m1 = symrgtbl m" and vb: "v < length (mmap m)"
    and hd: "vm_freerg_list (mmap m1 ! v) = h'"
    using r(2) get_vma_by_num_bound [OF assms(2)] by (simp_all add: same_but_list_def)
  let ?t = "(symrgtbl m)[nat rgid := (symrgtbl m ! nat rgid)\<lparr>rg_start := fst g, rg_end := snd g\<rparr>]"
  let ?m' = "m1\<lparr>symrgtbl := ?t\<rparr>"
  have a: "alloc_region c d vmaid rgid sz = Some (0, Some (int_of_u64 (fst g)), c\<lparr>mm := Some ?m'\<rparr>, d)"
    using r(1) tbl assms(8,9) by (cases g) (simp add: alloc_region_def arr_get_in arr_set_in)
  have "\<forall>q \<in> set qs'. rg_load ?m' q = rg_load m1 q"
  proof
    fix q assume "q \<in> set qs'"
    then obtain a where "q = RgHeap a" using r(4) assms(4) by (auto simp: heap_nodes_def)
    then show "rg_load ?m' q = rg_load m1 q" by simp
  qed
  then have "rg_chain ?m' h' qs'" "regions ?m' qs' = gs'"
    using r(3,5) rg_path_cong [of qs' ?m' m1] regions_cong [of qs' ?m' m1] by (simp_all add: rg_chain_def)
  moreover have "nat rgid < length (symrgtbl m)" using assms(8,9) by linarith
  ultimately show ?thesis
    using a r(2) hd cons
    by (intro exI [of _ "int_of_u64 (fst g)"] exI [of _ "c\<lparr>mm := Some ?m'\<rparr>"] exI [of _ ?m']
        exI [of _ qs'] exI [of _ g]) (simp add: same_but_list_def)
qed

lemma alloc_no_fit:
  assumes "mm c = Some m" "get_vma_by_num m vmaid = Some v"
    and "rg_chain m (vm_freerg_list (mmap m ! v)) qs" "qs \<noteq> []"
    and "\<forall>g \<in> set (regions m qs). \<not> fits sz g"
    and "0 \<le> rgid" "rgid < int (length (symrgtbl m))"
  shows "alloc_region c d vmaid rgid sz = Some (0, Some (-1), c\<lparr>mm := Some (m\<lparr>symrgtbl :=
    (symrgtbl m)[nat rgid := (symrgtbl m ! nat rgid)\<lparr>rg_start := -1, rg_end := -1\<rparr>]\<rparr>)\<rparr>, d)"
proof -
  have "vm_freerg_list (mmap m ! v) \<noteq> RgNull"
    using assms(3,4) by (cases qs) (auto simp: rg_chain_def split: option.splits)
  then have "get_free_vmrg_area c vmaid sz = Some (0, Some (-1, -1), c\<lparr>mm := Some m\<rparr>)"
    using assms(1,2,5) free_vmrg_loop_none [OF assms(3)]
    by (simp add: get_free_vmrg_area_def Let_def first_fit_None)
  then show ?thesis
    using assms(1,6,7) by (simp add: alloc_region_def arr_get_in arr_set_in)
qed

text \<open>
  An allocation that no interval of a non-empty free list can serve is reported as a success at
  address \<open>-1\<close>: the area is never extended, no page is mapped, and the variable's region becomes
  \<open>(-1, -1)\<close>.
\<close>

lemma alloc_region_no_fit:
  assumes "mm c = Some m" "get_vma_by_num m vmaid = Some v"
    and "rg_chain m (vm_freerg_list (mmap m ! v)) qs" "qs \<noteq> []"
    and "\<forall>g \<in> set (regions m qs). \<not> fits sz g"
    and "0 \<le> rgid" "rgid < int (length (symrgtbl m))"
  shows "alloc_region c d vmaid rgid sz = Some (0, Some (-1), c\<lparr>mm := Some (m\<lparr>symrgtbl :=
    (symrgtbl m)[nat rgid := (symrgtbl m ! nat rgid)\<lparr>rg_start := -1, rg_end := -1\<rparr>]\<rparr>)\<rparr>, d)"
  by (rule alloc_no_fit [OF assms])

lemma init_mm_eq:
  "init_mm m pd0 f0 = Some (0, m\<lparr>pgd := pd0,
     rg_heap := (rg_heap m)(rg_fresh m := Some \<lparr>rg_start = 0, rg_end = 0, rg_next = f0\<rparr>),
     rg_fresh := Suc (rg_fresh m),
     mmap := [\<lparr>vm_id = 0, vm_start = 0, vm_end = 0, sbrk = 0, vm_freerg_list = RgHeap (rg_fresh m)\<rparr>]\<rparr>)"
  by (simp add: init_mm_def init_vm_rg_def rg_malloc_def enlist_vm_rg_node_def u64_of_int_def)

lemma init_mm_vma:
  assumes "init_mm m pd0 f0 = Some (r, m1)"
  shows "get_vma_by_num m1 0 = Some 0" "vm_freerg_list (mmap m1 ! 0) = RgHeap (rg_fresh m)"
    "rg_load m1 (RgHeap (rg_fresh m)) = Some \<lparr>rg_start = 0, rg_end = 0, rg_next = f0\<rparr>"
    "symrgtbl m1 = symrgtbl m" "pgd m1 = pd0"
  using assms by (auto simp: init_mm_eq get_vma_by_num_def int_of_u64_def)

text \<open>
  The first allocation of a process. \<open>init_mm\<close> puts one empty interval on the free list and links
  it to whatever \<open>vm_freerg_list\<close> held in the freshly allocated area. If that memory happened to be
  zero, every positive allocation is reported successful at address \<open>-1\<close> and the page table stays
  as it was: the branch of \<open>__alloc\<close> that would extend the area is never taken.
\<close>

lemma fresh_process_alloc:
  assumes "init_mm m pd0 RgNull = Some (r, m1)" "mm c = Some m1"
    and "0 < int_of_u32 sz" "0 \<le> int_of_u32 reg" "int_of_u32 reg < int (length (symrgtbl m))"
  shows "\<exists>c' m'. liballoc c d sz reg = Some (0, Some (-1), c', d) \<and> mm c' = Some m' \<and> pgd m' = pd0 \<and>
    rg_start (symrgtbl m' ! nat (int_of_u32 reg)) = -1 \<and> rg_end (symrgtbl m' ! nat (int_of_u32 reg)) = -1"
proof -
  let ?q = "RgHeap (rg_fresh m)"
  note v = init_mm_vma [OF assms(1)]
  have ch: "rg_chain m1 (vm_freerg_list (mmap m1 ! 0)) [?q]"
    using v(2,3) by (simp add: rg_chain_def)
  have nofit: "\<forall>g \<in> set (regions m1 [?q]). \<not> fits (int_of_u32 sz) g"
    using v(3) assms(3) by (simp add: regions_def region_of_def fits_def int_of_u64_def)
  have "nat (int_of_u32 reg) < length (symrgtbl m)" using assms(4,5) by linarith
  then show ?thesis
    using alloc_no_fit [OF assms(2) v(1) ch _ nofit assms(4), of d] assms(5) v(4,5)
    by (simp add: liballoc_def)
qed

text \<open>
  If the unassigned \<open>vm_freerg_list\<close> was a wild pointer instead, the same first allocation follows
  it: the behaviour is undefined.
\<close>

lemma fresh_process_alloc_wild:
  assumes "init_mm m pd0 RgWild = Some (r, m1)" "mm c = Some m1" "0 < int_of_u32 sz"
  shows "liballoc c d sz reg = None"
proof -
  let ?q = "RgHeap (rg_fresh m)"
  note v = init_mm_vma [OF assms(1)]
  have nofit: "\<not> fits (int_of_u32 sz) (0, 0)" using assms(3) by (simp add: fits_def int_of_u64_def)
  have "free_vmrg_loop m1 0 (int_of_u32 sz) RgNull ?q = free_vmrg_loop m1 0 (int_of_u32 sz) ?q RgWild"
    using v(3) nofit by (subst free_vmrg_loop_unfold) simp
  also have "\<dots> = None" by (subst free_vmrg_loop_unfold) simp
  finally show ?thesis
    using assms(2) v(1,2) by (simp add: liballoc_def alloc_region_def get_free_vmrg_area_def Let_def)
qed

lemma free_region_eq:
  assumes "mm c = Some m" "mmap m = v # vs" "0 \<le> rgid" "rgid < 30" "length (symrgtbl m) = 30"
    and r: "r = symrgtbl m ! nat rgid" "rg_start r < rg_end r" "rg_start r \<noteq> -1" "rg_end r \<noteq> -1"
  shows "\<exists>m'. free_region c vmaid rgid = Some (0, c\<lparr>mm := Some m'\<rparr>) \<and>
    mmap m' = v\<lparr>vm_freerg_list := RgSym (nat rgid)\<rparr> # vs \<and> pgd m' = pgd m \<and>
    symrgtbl m' = (symrgtbl m)[nat rgid := \<lparr>rg_start = -1, rg_end = -1, rg_next = RgNull\<rparr>]"
proof -
  have i: "nat rgid < 30" using assms(4) by simp
  then show ?thesis
    using assms
    by (intro exI [of _ "m\<lparr>mmap := v\<lparr>vm_freerg_list := RgSym (nat rgid)\<rparr> # vs, symrgtbl :=
          (symrgtbl m)[nat rgid := \<lparr>rg_start = -1, rg_end = -1, rg_next = RgNull\<rparr>]\<rparr>"])
      (simp add: free_region_def get_symrg_byid_def PAGING_MAX_SYMTBL_SZ_def Let_def
        enlist_vm_freerg_list_def vma_set_def not_le)
qed

text \<open>
  C27. Releasing a region. \<open>__free\<close> puts the symbol table slot itself on the free list and then clears
  that slot, its link included: afterwards the free list consists of the one slot with the empty
  interval \<open>(-1, -1)\<close>, so the released bytes and every interval that was free before are lost, and
  from then on every positive allocation is reported as a success at address \<open>-1\<close>.
\<close>

theorem free_region_loses_list:
  assumes "mm c = Some m" "mmap m = v # vs" "int_of_u64 (vm_id v) = 0"
    and "0 \<le> rgid" "rgid < 30" "length (symrgtbl m) = 30"
    and "rg_start (symrgtbl m ! nat rgid) < rg_end (symrgtbl m ! nat rgid)"
    and "rg_start (symrgtbl m ! nat rgid) \<noteq> -1" "rg_end (symrgtbl m ! nat rgid) \<noteq> -1"
  shows "\<exists>c' m'. free_region c 0 rgid = Some (0, c') \<and> mm c' = Some m' \<and>
    rg_chain m' (vm_freerg_list (mmap m' ! 0)) [RgSym (nat rgid)] \<and>
    regions m' [RgSym (nat rgid)] = [(-1, -1)] \<and> cover (regions m' [RgSym (nat rgid)]) = {} \<and>
    (\<forall>sz id. 0 < sz \<and> 0 \<le> id \<and> id < 30 \<longrightarrow>
      (\<exists>c''. alloc_region c' d 0 id sz = Some (0, Some (-1), c'', d)))"
proof -
  let ?q = "RgSym (nat rgid)"
  from free_region_eq [OF assms(1,2,4,5,6) refl assms(7-9)] obtain m' where m':
    "free_region c 0 rgid = Some (0, c\<lparr>mm := Some m'\<rparr>)"
    "mmap m' = v\<lparr>vm_freerg_list := ?q\<rparr> # vs" "pgd m' = pgd m"
    "symrgtbl m' = (symrgtbl m)[nat rgid := \<lparr>rg_start = -1, rg_end = -1, rg_next = RgNull\<rparr>]"
    by blast
  have ld: "rg_load m' ?q = Some \<lparr>rg_start = -1, rg_end = -1, rg_next = RgNull\<rparr>"
    using m'(4) assms(4-6) by simp
  have ch: "rg_chain m' (vm_freerg_list (mmap m' ! 0)) [?q]"
    using m'(2) ld by (simp add: rg_chain_def)
  have rg: "regions m' [?q] = [(-1, -1)]" using ld by (simp add: regions_def region_of_def)
  have vma: "get_vma_by_num m' 0 = Some 0" using m'(2) assms(3) by (simp add: get_vma_by_num_def)
  have "\<exists>c''. alloc_region (c\<lparr>mm := Some m'\<rparr>) d 0 id sz = Some (0, Some (-1), c'', d)"
    if "0 < sz" "0 \<le> id" "id < 30" for sz id
    using alloc_no_fit [of "c\<lparr>mm := Some m'\<rparr>" m' 0 0 "[?q]" sz id d] vma ch rg that m'(4) assms(6)
    by (simp add: fits_def int_of_u64_def)
  then show ?thesis using m'(1) ch rg by (auto simp: span_def)
qed

text \<open>
  The bounds of \<open>__free\<close> on region numbers: a number outside 0 to 30 is refused, a region that
  is not allocated is refused (so a second release of the same region is an error, not a double
  free), and number 30, one past the symbol table, passes the guard and is an access out of bounds.
\<close>

lemma free_region_guards:
  assumes "mm c = Some m" "length (symrgtbl m) = 30"
  shows "(rgid < 0 \<or> 30 < rgid \<longrightarrow> free_region c vmaid rgid = Some (-1, c)) \<and>
    (0 \<le> rgid \<and> rgid < 30 \<and> rg_end (symrgtbl m ! nat rgid) \<le> rg_start (symrgtbl m ! nat rgid) \<longrightarrow>
      free_region c vmaid rgid = Some (-1, c)) \<and>
    free_region c vmaid 30 = None"
  using assms by (auto simp: free_region_def get_symrg_byid_def PAGING_MAX_SYMTBL_SZ_def Let_def)

subsection \<open>Concrete instances\<close>

text \<open>A process with two free intervals, of 100 and of 300 bytes, and one allocated region.\<close>

definition listed_mm :: mm_struct where
  "listed_mm = sample_mm\<lparr>
     mmap := [\<lparr>vm_id = 0, vm_start = 0, vm_end = 1024, sbrk = 0, vm_freerg_list = RgHeap 0\<rparr>],
     symrgtbl := (replicate 30 \<lparr>rg_start = 0, rg_end = 0, rg_next = RgNull\<rparr>)
       [3 := \<lparr>rg_start = 600, rg_end = 700, rg_next = RgNull\<rparr>],
     rg_heap := (\<lambda>_. None)(0 := Some \<lparr>rg_start = 0, rg_end = 100, rg_next = RgHeap 1\<rparr>,
       1 := Some \<lparr>rg_start = 200, rg_end = 500, rg_next = RgNull\<rparr>),
     rg_fresh := 2\<rparr>"

definition listed_pcb :: pcb_t where
  "listed_pcb = sample_pcb\<lparr>mm := Some listed_mm\<rparr>"

lemma listed_simps [simp]:
  "mm listed_pcb = Some listed_mm"
  "mmap listed_mm = [\<lparr>vm_id = 0, vm_start = 0, vm_end = 1024, sbrk = 0, vm_freerg_list = RgHeap 0\<rparr>]"
  "get_vma_by_num listed_mm 0 = Some 0" "length (symrgtbl listed_mm) = 30"
  "symrgtbl listed_mm ! 3 = \<lparr>rg_start = 600, rg_end = 700, rg_next = RgNull\<rparr>"
  "pgd listed_mm = replicate 16384 0"
  by (simp_all add: listed_pcb_def listed_mm_def get_vma_by_num_def int_of_u64_def)

lemma listed_chain:
  "rg_chain listed_mm (RgHeap 0) [RgHeap 0, RgHeap 1]" "heap_nodes [RgHeap 0, RgHeap 1]"
  "regions listed_mm [RgHeap 0, RgHeap 1] = [(0, 100), (200, 500)]"
  by (simp_all add: rg_chain_def heap_nodes_def regions_def region_of_def listed_mm_def)

lemma listed_fits: "fits 150 (200, 500)" "\<not> fits 150 (0, 100)" "\<not> fits 301 (200, 500)" "\<not> fits 301 (0, 100)"
  by (simp_all add: fits_def int_of_u64_def)

theorem get_free_vmrg_area_first_fit_witness:
  "\<exists>m' h' qs'. get_free_vmrg_area listed_pcb 0 150 = Some (0, Some (200, 350), listed_pcb\<lparr>mm := Some m'\<rparr>) \<and>
    rg_chain m' h' qs' \<and> regions m' qs' = [(0, 100), (350, 500)]"
proof -
  have "first_fit 150 (regions listed_mm [RgHeap 0, RgHeap 1]) = Some ((200, 350), [(0, 100), (350, 500)])"
    unfolding listed_chain(3) by (simp add: listed_fits u64_of_int_def)
  then show ?thesis
    using get_free_vmrg_area_first_fit [of listed_pcb listed_mm 0 0 "[RgHeap 0, RgHeap 1]" 150] listed_chain
    by auto
qed

theorem alloc_region_conserves_witness:
  "\<exists>a c'. alloc_region listed_pcb sample_devs 0 5 150 = Some (0, Some a, c', sample_devs)"
proof -
  have "free_ok [(0, 100), (200, 500)]" by (auto simp: span_def)
  then show ?thesis
    using alloc_region_conserves [of listed_pcb listed_mm 0 0 "[RgHeap 0, RgHeap 1]" 150 5 sample_devs]
      listed_chain listed_fits by auto
qed

lemma alloc_region_no_fit_witness:
  "\<exists>c'. alloc_region listed_pcb sample_devs 0 5 301 = Some (0, Some (-1), c', sample_devs)"
  using alloc_region_no_fit [of listed_pcb listed_mm 0 0 "[RgHeap 0, RgHeap 1]" 301 5 sample_devs]
    listed_chain listed_fits by auto

lemma fresh_process_alloc_witness:
  "\<exists>m1. init_mm blank_mm (replicate 16384 0) RgNull = Some (0, m1) \<and>
    (\<exists>c'. liballoc (sample_pcb\<lparr>mm := Some m1\<rparr>) sample_devs 300 0 = Some (0, Some (-1), c', sample_devs))"
proof -
  obtain m1 where "init_mm blank_mm (replicate 16384 0) RgNull = Some (0, m1)" by (simp add: init_mm_eq)
  moreover from fresh_process_alloc [OF this, of "sample_pcb\<lparr>mm := Some m1\<rparr>" 300 0 sample_devs]
  have "\<exists>c'. liballoc (sample_pcb\<lparr>mm := Some m1\<rparr>) sample_devs 300 0 = Some (0, Some (-1), c', sample_devs)"
    by (auto simp: int_of_u32_def blank_mm_def)
  ultimately show ?thesis by blast
qed

lemma fresh_process_alloc_wild_witness:
  "\<exists>m1. init_mm blank_mm (replicate 16384 0) RgWild = Some (0, m1) \<and>
    liballoc (sample_pcb\<lparr>mm := Some m1\<rparr>) sample_devs 300 0 = None"
proof -
  obtain m1 where "init_mm blank_mm (replicate 16384 0) RgWild = Some (0, m1)" by (simp add: init_mm_eq)
  moreover from fresh_process_alloc_wild [OF this, of "sample_pcb\<lparr>mm := Some m1\<rparr>" 300 sample_devs 0]
  have "liballoc (sample_pcb\<lparr>mm := Some m1\<rparr>) sample_devs 300 0 = None" by (simp add: int_of_u32_def)
  ultimately show ?thesis by blast
qed

theorem free_region_loses_list_witness:
  "\<exists>c' c''. free_region listed_pcb 0 3 = Some (0, c') \<and>
    alloc_region c' sample_devs 0 4 10 = Some (0, Some (-1), c'', sample_devs)"
proof -
  have "\<exists>c' m'. free_region listed_pcb 0 3 = Some (0, c') \<and> mm c' = Some m' \<and>
    rg_chain m' (vm_freerg_list (mmap m' ! 0)) [RgSym (nat 3)] \<and>
    regions m' [RgSym (nat 3)] = [(-1, -1)] \<and> cover (regions m' [RgSym (nat 3)]) = {} \<and>
    (\<forall>sz id. 0 < sz \<and> 0 \<le> id \<and> id < 30 \<longrightarrow>
      (\<exists>c''. alloc_region c' sample_devs 0 id sz = Some (0, Some (-1), c'', sample_devs)))"
    by (rule free_region_loses_list [OF listed_simps(1,2)]) (simp_all add: int_of_u64_def)
  then show ?thesis by (elim exE conjE) (drule spec [of _ 10], drule spec [of _ 4], auto)
qed

lemma free_region_guards_witness:
  "free_region listed_pcb 0 31 = Some (-1, listed_pcb) \<and> free_region listed_pcb 0 30 = None"
  using free_region_guards [OF listed_simps(1,4), of 31 0] by simp

end
