(* ===== verification/Access.thy ===== *)
theory Access
  imports Regions
begin

text \<open>
  Byte access through the page table of \<open>src/libmem.c\<close>: the paged memory of a process as an
  \<open>address_space\<close> over its RAM device, reads and writes of present pages, separation of processes,
  and what the page fault path and \<open>free_pcb_memph\<close> do.
\<close>

subsection \<open>The paged address space\<close>

definition pd_wf :: "u32 list \<Rightarrow> bool" where
  "pd_wf pd \<longleftrightarrow> length pd = 16384 \<and> inj_on (frame_at pd) {k. present pd k}"

definition pg_tr :: "u32 list \<Rightarrow> int \<Rightarrow> int option" where
  "pg_tr pd a =
    (if 0 \<le> a \<and> a < 2 ^ 22 \<and> present pd (nat (a div 256))
     then Some (frame_at pd (nat (a div 256)) * 256 + a mod 256) else None)"

lemma pg_tr_SomeD:
  assumes "pg_tr pd a = Some p"
  shows "0 \<le> a \<and> a < 2 ^ 22 \<and> present pd (nat (a div 256)) \<and>
    p = frame_at pd (nat (a div 256)) * 256 + a mod 256"
proof -
  have "0 \<le> a \<and> a < 2 ^ 22 \<and> present pd (nat (a div 256))"
    using assms unfolding pg_tr_def by (metis option.distinct(1))
  with assms show ?thesis by (simp add: pg_tr_def)
qed

lemma frame_address_split:
  assumes "f * 256 + a mod 256 = g * 256 + b mod (256::int)"
  shows "f = g \<and> a mod 256 = b mod 256"
proof -
  have "(f * 256 + a mod 256) div 256 = (g * 256 + b mod 256) div 256" using assms by simp
  then have "f = g" by simp
  with assms show ?thesis by simp
qed

interpretation pgspace: address_space mp_rd mp_wr ram_ok pg_tr pd_wf
proof
  fix t :: "u32 list" and a b p :: int
  assume wf: "pd_wf t" and "pg_tr t a = Some p" "pg_tr t b = Some p"
  then have ab: "0 \<le> a" "0 \<le> b" "present t (nat (a div 256))" "present t (nat (b div 256))"
    "frame_at t (nat (a div 256)) * 256 + a mod 256 = frame_at t (nat (b div 256)) * 256 + b mod 256"
    by (auto simp: pg_tr_def split: if_splits)
  from frame_address_split [OF ab(5)] wf ab(3,4) have "nat (a div 256) = nat (b div 256)" "a mod 256 = b mod 256"
    by (auto simp: pd_wf_def dest: inj_onD)
  then have "a div 256 = b div 256" using ab(1,2) by (simp add: eq_nat_nat_iff)
  with \<open>a mod 256 = b mod 256\<close> show "a = b" by (metis div_mult_mod_eq)
qed

lemma vm_inv_pd_wf: "vm_inv pd m \<Longrightarrow> pd_wf pd \<and> ram_ok m"
  by (simp add: vm_inv_def pd_wf_def pool_frames_ok_def)

lemma address_split:
  assumes "0 \<le> a" "a < 2 ^ 22"
  shows "int_of_u32 (PAGING_PGN (u32_of_int a)) = a div 256"
    "int_of_u32 (PAGING_OFFST (u32_of_int a)) = a mod 256"
    "0 \<le> a div 256" "a div 256 < 16384"
  using assms PAGING_PGN_page [OF assms]
  by (simp_all add: int_of_PAGING_OFFST u32_of_int_def uint_word_of_int_32)

lemma pg_getpage_present:
  assumes "mm c = Some m0" "present (pgd m0) (nat k)" "0 \<le> k"
  shows "pg_getpage c d k = Some (0, Some (frame_at (pgd m0) (nat k)), c, d)"
  using assms by (simp add: pg_getpage_def present_def arr_get_def frame_at_def nat_less_iff)

lemma frame_phys_ok:
  "c_ret (frame_at pd k * PAGING_PAGESZ) = Some (frame_at pd k * 256)"
  "c_ret (frame_at pd k * 256 + a mod 256) = Some (frame_at pd k * 256 + a mod 256)"
  using frame_at_bounds [of pd k] by (auto simp: PAGING_PAGESZ_def c_ret_def is_cint_def)

text \<open>On a present page the two access functions are the operations of the address space.\<close>

lemma pg_getval_eq:
  assumes c: "mm c = Some m0" and d: "mram d = Some m" and ok: "ram_ok m"
    and tr: "pg_tr (pgd m0) a \<noteq> None"
  shows "pg_getval c d a = map_option (\<lambda>v. (0, Some v, c, d)) (pgspace.vread (pgd m0) m a)"
proof -
  from tr have a: "0 \<le> a" "a < 2 ^ 22" "present (pgd m0) (nat (a div 256))"
    by (auto simp: pg_tr_def split: if_splits)
  let ?p = "frame_at (pgd m0) (nat (a div 256)) * 256 + a mod 256"
  have "pg_getval c d a = do { (e, v, mp) \<leftarrow> MEMPHY_read (Some m) ?p;
      if e \<noteq> 0 then Some (-1, v, c, d\<lparr>mram := mp\<rparr>) else Some (0, v, c, d\<lparr>mram := mp\<rparr>) }"
    using address_split [OF a(1,2)] pg_getpage_present [OF c a(3)] d frame_phys_ok
    by (simp add: pg_getval_def Let_def)
  moreover have "d\<lparr>mram := Some m\<rparr> = d" using d by simp
  ultimately show ?thesis
    using a ok by (cases "arr_get (storage m) ?p")
      (simp_all add: pgspace.vread_def pg_tr_def mp_rd_random MEMPHY_read_random ram_ok_def)
qed

lemma pg_setval_eq:
  assumes c: "mm c = Some m0" and d: "mram d = Some m" and ok: "ram_ok m"
    and tr: "pg_tr (pgd m0) a \<noteq> None"
  shows "pg_setval c d a v = map_option (\<lambda>m'. (0, c, d\<lparr>mram := Some m'\<rparr>)) (pgspace.vwrite (pgd m0) m a v)"
proof -
  from tr have a: "0 \<le> a" "a < 2 ^ 22" "present (pgd m0) (nat (a div 256))"
    by (auto simp: pg_tr_def split: if_splits)
  let ?p = "frame_at (pgd m0) (nat (a div 256)) * 256 + a mod 256"
  have "pg_setval c d a v = do { (e, mp) \<leftarrow> MEMPHY_write (Some m) ?p v;
      if e \<noteq> 0 then Some (-1, c, d\<lparr>mram := mp\<rparr>) else Some (0, c, d\<lparr>mram := mp\<rparr>) }"
    using address_split [OF a(1,2)] pg_getpage_present [OF c a(3)] d frame_phys_ok
    by (simp add: pg_setval_def Let_def)
  then show ?thesis
    using a ok by (cases "arr_set (storage m) ?p v")
      (simp_all add: pgspace.vwrite_def pg_tr_def mp_wr_random MEMPHY_write_random ram_ok_def)
qed

lemma vm_inv_vread:
  assumes "vm_inv pd m" "pg_tr pd a \<noteq> None"
  shows "\<exists>v. pgspace.vread pd m a = Some v"
proof -
  let ?f = "frame_at pd (nat (a div 256))"
  have a: "pg_tr pd a = Some (?f * 256 + a mod 256)" "present pd (nat (a div 256))"
    using assms(2) by (auto simp: pg_tr_def split: if_splits)
  have pin: "page_in m ?f" and ok: "ram_ok m" using assms(1) a(2) by (simp_all add: vm_inv_def pool_frames_ok_def)
  then have "arr_get (storage m) (?f * 256 + a mod 256) \<noteq> None"
    using page_in_addr [OF ok pin, of "a mod 256"]
    by (auto simp: arr_get_def PAGING_PAGESZ_def ram_ok_def)
  then show ?thesis using a(1) ok by (auto simp: pgspace.vread_def mp_rd_random ram_ok_def)
qed

text \<open>A write to a present page of a process that satisfies the mapping invariant.\<close>

lemma pg_setval_present:
  assumes c: "mm c = Some m0" and d: "mram d = Some m" and inv: "vm_inv (pgd m0) m"
    and tr: "pg_tr (pgd m0) a \<noteq> None"
  shows "\<exists>m'. pg_setval c d a v = Some (0, c, d\<lparr>mram := Some m'\<rparr>) \<and>
    pgspace.vwrite (pgd m0) m a v = Some m' \<and> ram_ok m'"
proof -
  have ok: "ram_ok m" using vm_inv_pd_wf [OF inv] by simp
  from vm_inv_vread [OF inv tr] pgspace.vwrite_defined [OF ok, of "pgd m0" a v]
  obtain m' where w: "pgspace.vwrite (pgd m0) m a v = Some m'" by auto
  then have "ram_ok m'"
    using mbytes.ok_wr [OF ok] by (auto simp: pgspace.vwrite_def bind_eq_Some_conv)
  with w show ?thesis using pg_setval_eq [OF c d ok tr, of v] by simp
qed

text \<open>Processes on different frames have no physical address in common; a write keeps the invariant.\<close>

lemma disjoint_frames_tr:
  assumes "mapped_frames pd1 \<inter> mapped_frames pd2 = {}" "pg_tr pd1 x = Some p"
  shows "pg_tr pd2 y \<noteq> Some p"
proof
  assume y: "pg_tr pd2 y = Some p"
  from pg_tr_SomeD [OF assms(2)] pg_tr_SomeD [OF y]
  have pr: "present pd1 (nat (x div 256))" "present pd2 (nat (y div 256))"
    and eq: "frame_at pd1 (nat (x div 256)) * 256 + x mod 256 =
      frame_at pd2 (nat (y div 256)) * 256 + y mod 256" by simp_all
  from frame_address_split [OF eq] pr
  have "frame_at pd1 (nat (x div 256)) \<in> mapped_frames pd1 \<inter> mapped_frames pd2"
    unfolding mapped_frames_def by (metis IntI imageI mem_Collect_eq)
  then show False using assms(1) by simp
qed

lemma vm_inv_vwrite:
  assumes "vm_inv pd m" "pgspace.vwrite pd' m a v = Some m'"
  shows "vm_inv pd m'"
proof -
  from assms(1) have "ram_ok m" by (simp add: vm_inv_pd_wf)
  then obtain st where "m' = m\<lparr>storage := st\<rparr>" "length st = length (storage m)"
    using assms(2) by (auto simp: pgspace.vwrite_def bind_eq_Some_conv mp_wr_random ram_ok_def arr_set_def split: if_splits)
  then show ?thesis
    using assms(1) by (simp add: vm_inv_def pool_frames_ok_def ram_ok_def pool_ok_def free_frames_def page_in_def)
qed

subsection \<open>Reading and writing\<close>

text \<open>
  C3. In a process whose mapping invariant holds, a byte written to a present page is read back, and
  no other byte of the process's present pages changes: virtual memory is a memory.
\<close>

theorem paged_read_after_write:
  assumes "mm c = Some m0" "mram d = Some m" "vm_inv (pgd m0) m"
    and "pg_tr (pgd m0) a \<noteq> None" "pg_tr (pgd m0) b \<noteq> None"
  shows "\<exists>d' u. pg_setval c d a v = Some (0, c, d') \<and> pg_getval c d b = Some (0, Some u, c, d) \<and>
    pg_getval c d' b = Some (0, Some (if b = a then v else u), c, d')"
proof -
  have wf: "pd_wf (pgd m0)" "ram_ok m" using vm_inv_pd_wf [OF assms(3)] by simp_all
  from pg_setval_present [OF assms(1-4), of v] obtain m' where w:
    "pg_setval c d a v = Some (0, c, d\<lparr>mram := Some m'\<rparr>)" "pgspace.vwrite (pgd m0) m a v = Some m'"
    "ram_ok m'" by blast
  from vm_inv_vread [OF assms(3,5)] obtain u where u: "pgspace.vread (pgd m0) m b = Some u" ..
  have "pgspace.vread (pgd m0) m' b = Some (if b = a then v else u)"
    using pgspace.vread_vwrite [OF wf(2,1) w(2), of b] u by simp
  then have "pg_getval c (d\<lparr>mram := Some m'\<rparr>) b =
      Some (0, Some (if b = a then v else u), c, d\<lparr>mram := Some m'\<rparr>)"
    using pg_getval_eq [OF assms(1) _ w(3) assms(5), of "d\<lparr>mram := Some m'\<rparr>"] by simp
  moreover have "pg_getval c d b = Some (0, Some u, c, d)"
    using pg_getval_eq [OF assms(1,2) wf(2) assms(5)] u by simp
  ultimately show ?thesis using w(1) by blast
qed

text \<open>
  C1. Isolation: two processes whose present pages use different frames cannot see each other's
  writes to present pages.
\<close>

theorem paged_isolation:
  assumes "mm c1 = Some m1" "mm c2 = Some m2" "mram d = Some m"
    and "vm_inv (pgd m1) m" "vm_inv (pgd m2) m" "mapped_frames (pgd m1) \<inter> mapped_frames (pgd m2) = {}"
    and "pg_tr (pgd m1) a \<noteq> None" "pg_tr (pgd m2) b \<noteq> None"
  shows "\<exists>d' u. pg_setval c1 d a v = Some (0, c1, d') \<and>
    pg_getval c2 d b = Some (0, Some u, c2, d) \<and> pg_getval c2 d' b = Some (0, Some u, c2, d')"
proof -
  have ok: "ram_ok m" using vm_inv_pd_wf [OF assms(4)] by simp
  from pg_setval_present [OF assms(1,3,4,7), of v] obtain m' where w:
    "pg_setval c1 d a v = Some (0, c1, d\<lparr>mram := Some m'\<rparr>)" "pgspace.vwrite (pgd m1) m a v = Some m'"
    "ram_ok m'" by blast
  from vm_inv_vread [OF assms(5,8)] obtain u where u: "pgspace.vread (pgd m2) m b = Some u" ..
  have "pgspace.vread (pgd m2) m' b = Some u"
    using pgspace.vread_vwrite_separate [OF ok w(2) disjoint_frames_tr [OF assms(6)]] u by simp
  then have "pg_getval c2 (d\<lparr>mram := Some m'\<rparr>) b = Some (0, Some u, c2, d\<lparr>mram := Some m'\<rparr>)"
    using pg_getval_eq [OF assms(2) _ w(3) assms(8), of "d\<lparr>mram := Some m'\<rparr>"] by simp
  moreover have "pg_getval c2 d b = Some (0, Some u, c2, d)"
    using pg_getval_eq [OF assms(2,3) ok assms(8)] u by simp
  ultimately show ?thesis using w(1) by blast
qed

text \<open>The address of a byte of a region, and what the library does with it.\<close>

definition region_addr :: "mm_struct \<Rightarrow> u32 \<Rightarrow> u32 \<Rightarrow> int" where
  "region_addr m rg off =
    int_of_u64 (rg_start (symrgtbl m ! nat (int_of_u32 rg)) + u64_of_int (int_of_u32 off))"

definition region_ok :: "mm_struct \<Rightarrow> u32 \<Rightarrow> bool" where
  "region_ok m rg \<longleftrightarrow> get_vma_by_num m 0 \<noteq> None \<and> length (symrgtbl m) = 30 \<and>
    0 \<le> int_of_u32 rg \<and> int_of_u32 rg < 30"

lemma region_ok_loads:
  assumes "region_ok m rg"
  shows "get_symrg_byid m (int_of_u32 rg) = RgSym (nat (int_of_u32 rg))"
    "rg_load m (RgSym (nat (int_of_u32 rg))) = Some (symrgtbl m ! nat (int_of_u32 rg))"
    "get_vma_by_num m 0 \<noteq> None"
  using assms by (auto simp: region_ok_def get_symrg_byid_def PAGING_MAX_SYMTBL_SZ_def nat_less_iff)

lemma libwrite_region:
  assumes "mm p = Some m" "region_ok m rg"
  shows "libwrite p d v rg off =
    do { (_, p', d') \<leftarrow> pg_setval p d (region_addr m rg off) v; Some (0, p', d') }"
  using assms(1) region_ok_loads [OF assms(2)]
  by (clarsimp simp: libwrite_def write_region_def region_addr_def Let_def del: rg_load.simps)

lemma read_region_eq:
  assumes "mm p = Some m" "region_ok m rg"
  shows "read_region p d 0 (int_of_u32 rg) (int_of_u32 off) =
    do { (_, v, p', d') \<leftarrow> pg_getval p d (region_addr m rg off); Some (0, v, p', d') }"
  using assms(1) region_ok_loads [OF assms(2)]
  by (clarsimp simp: read_region_def region_addr_def Let_def del: rg_load.simps)

lemma libread_region:
  assumes "mm p = Some m" "region_ok m rg"
  shows "libread p d rg off =
    do { (_, _, p', d') \<leftarrow> pg_getval p d (region_addr m rg off); Some (0, p', d') }"
  using read_region_eq [OF assms, of d off]
  by (auto simp: libread_def bind_eq_Some_conv split: Option.bind_splits)

text \<open>
  C23. At the interface of the library, when the page of the address is present: a byte that \<open>libwrite\<close>
  stores at an offset of a region is what \<open>__read\<close> gets for the same region and offset. \<open>libread\<close>, which
  calls \<open>__read\<close> with these arguments, succeeds and passes on its code but not the byte.
\<close>

theorem libwrite_read_region:
  assumes "mm p = Some m0" "mram d = Some m" "vm_inv (pgd m0) m" "get_vma_by_num m0 0 \<noteq> None"
    and "0 \<le> int_of_u32 rg" "int_of_u32 rg < int (length (symrgtbl m0))" "length (symrgtbl m0) = 30"
    and "pg_tr (pgd m0) (int_of_u64 (rg_start (symrgtbl m0 ! nat (int_of_u32 rg)) + u64_of_int (int_of_u32 off))) \<noteq> None"
  shows "\<exists>d'. libwrite p d v rg off = Some (0, p, d') \<and>
    read_region p d' 0 (int_of_u32 rg) (int_of_u32 off) = Some (0, Some v, p, d') \<and>
    libread p d' rg off = Some (0, p, d')"
proof -
  let ?a = "int_of_u64 (rg_start (symrgtbl m0 ! nat (int_of_u32 rg)) + u64_of_int (int_of_u32 off))"
  have wf: "pd_wf (pgd m0)" "ram_ok m" using vm_inv_pd_wf [OF assms(3)] by simp_all
  from pg_setval_present [OF assms(1-3,8), of v] obtain m' where w:
    "pg_setval p d ?a v = Some (0, p, d\<lparr>mram := Some m'\<rparr>)" "pgspace.vwrite (pgd m0) m ?a v = Some m'"
    "ram_ok m'" by blast
  have rd: "pg_getval p (d\<lparr>mram := Some m'\<rparr>) ?a = Some (0, Some v, p, d\<lparr>mram := Some m'\<rparr>)"
    using pg_getval_eq [OF assms(1) _ w(3) assms(8), of "d\<lparr>mram := Some m'\<rparr>"]
      pgspace.vread_vwrite [OF wf(2,1) w(2), of ?a] by simp
  have r: "region_ok m0 rg" "region_addr m0 rg off = ?a" using assms(4-7) by (simp_all add: region_ok_def region_addr_def)
  have "libwrite p d v rg off = Some (0, p, d\<lparr>mram := Some m'\<rparr>)"
    using libwrite_region [OF assms(1) r(1)] r(2) w(1) by simp
  moreover have rr: "read_region p (d\<lparr>mram := Some m'\<rparr>) 0 (int_of_u32 rg) (int_of_u32 off) =
      Some (0, Some v, p, d\<lparr>mram := Some m'\<rparr>)"
    using read_region_eq [OF assms(1) r(1)] r(2) rd by simp
  moreover have "libread p (d\<lparr>mram := Some m'\<rparr>) rg off = Some (0, p, d\<lparr>mram := Some m'\<rparr>)"
    using rr by (simp add: libread_def)
  ultimately show ?thesis by blast
qed

subsection \<open>A machine with two processes\<close>

text \<open>Process \<open>n\<close> maps page 0 to frame \<open>n\<close>; frames 2 and 3 are free.\<close>

definition paged_ram :: memphy where
  "paged_ram = sample_ram\<lparr>free_fp_list := list_fp [2, 3]\<rparr>"

definition paged_devs :: devs where
  "paged_devs = \<lparr>mram = Some paged_ram, active_mswp = Some sample_ram\<rparr>"

definition one_page :: "cint \<Rightarrow> u32 list" where
  "one_page f = (replicate 16384 0)[0 := snd (pte_set_fpn 0 f)]"

definition paged_mm :: "cint \<Rightarrow> mm_struct" where
  "paged_mm f = sample_mm\<lparr>pgd := one_page f\<rparr>"

definition paged_pcb :: "cint \<Rightarrow> pcb_t" where
  "paged_pcb f = sample_pcb\<lparr>mm := Some (paged_mm f)\<rparr>"

lemma one_page_present: "present (one_page f) k \<longleftrightarrow> k = 0"
  by (cases k) (auto simp: one_page_def present_def nth_list_update PAGE_PRESENT_pte_set_fpn
      PAGING_PAGE_PRESENT_def [of 0])

lemma one_page_frame: "0 \<le> f \<Longrightarrow> f < 8192 \<Longrightarrow> frame_at (one_page f) 0 = f"
  by (simp add: one_page_def frame_at_def int_of_FPN_pte_set_fpn)

lemma one_page_mapped: "0 \<le> f \<Longrightarrow> f < 8192 \<Longrightarrow> mapped_frames (one_page f) = {f}"
  by (simp add: mapped_frames_def one_page_present one_page_frame)

lemma one_page_vm_inv: "f = 0 \<or> f = 1 \<Longrightarrow> vm_inv (one_page f) paged_ram"
  by (auto simp: vm_inv_def one_page_present one_page_frame one_page_mapped pool_frames_ok_def
      paged_ram_def page_in_def PAGING_PAGESZ_def) (simp_all add: one_page_def)

lemma one_page_tr: "0 \<le> a \<Longrightarrow> a < 256 \<Longrightarrow> pg_tr (one_page f) a \<noteq> None"
  by (simp add: pg_tr_def one_page_present)

lemma paged_simps [simp]:
  "mm (paged_pcb f) = Some (paged_mm f)" "mram paged_devs = Some paged_ram"
  "active_mswp paged_devs = Some sample_ram" "pgd (paged_mm f) = one_page f"
  "symrgtbl (paged_mm f) = symrgtbl blank_mm" "mmap (paged_mm f) = mmap sample_mm"
  "fifo_pgn (paged_mm f) = PgNull" "length (one_page f) = 16384"
  by (simp_all add: paged_pcb_def paged_devs_def paged_mm_def sample_mm_def blank_mm_def one_page_def)

lemma not_present_pte:
  assumes "\<not> present pd (nat pn)" "0 \<le> pn" "pn < int (length pd)"
  shows "arr_get pd pn = Some (pd ! nat pn)" "PAGING_PAGE_PRESENT (pd ! nat pn) = 0"
  using assms by (auto simp: present_def arr_get_in)

theorem paged_read_after_write_witness:
  "\<exists>d' u. pg_setval (paged_pcb 1) paged_devs 7 42 = Some (0, paged_pcb 1, d') \<and>
    pg_getval (paged_pcb 1) paged_devs 7 = Some (0, Some u, paged_pcb 1, paged_devs) \<and>
    pg_getval (paged_pcb 1) d' 7 = Some (0, Some 42, paged_pcb 1, d')"
  using paged_read_after_write [of "paged_pcb 1" "paged_mm 1" paged_devs paged_ram 7 7 42]
  by (simp add: one_page_vm_inv one_page_tr)

theorem paged_isolation_witness:
  "\<exists>d' u. pg_setval (paged_pcb 0) paged_devs 7 42 = Some (0, paged_pcb 0, d') \<and>
    pg_getval (paged_pcb 1) paged_devs 7 = Some (0, Some u, paged_pcb 1, paged_devs) \<and>
    pg_getval (paged_pcb 1) d' 7 = Some (0, Some u, paged_pcb 1, d')"
  using paged_isolation [of "paged_pcb 0" "paged_mm 0" "paged_pcb 1" "paged_mm 1" paged_devs paged_ram 7 7 42]
  by (simp add: one_page_vm_inv one_page_tr one_page_mapped)

theorem libwrite_read_region_witness:
  "\<exists>d'. libwrite (paged_pcb 1) paged_devs 42 3 7 = Some (0, paged_pcb 1, d') \<and>
    read_region (paged_pcb 1) d' 0 3 7 = Some (0, Some 42, paged_pcb 1, d') \<and>
    libread (paged_pcb 1) d' 3 7 = Some (0, paged_pcb 1, d')"
proof -
  have i: "int_of_u32 3 = 3" "int_of_u32 7 = 7" "int_of_u64 (u64_of_int 7) = 7"
    using int_of_u64_of_int [of 7] by (simp_all add: int_of_u32_def is_cint_def)
  have "get_vma_by_num (paged_mm 1) 0 \<noteq> None" by (simp add: get_vma_by_num_def int_of_u64_def)
  then show ?thesis
    using libwrite_read_region [of "paged_pcb 1" "paged_mm 1" paged_devs paged_ram 3 7 42] i
    by (simp add: one_page_vm_inv one_page_tr blank_mm_def)
qed

subsection \<open>Pages that are not present\<close>

lemma pg_getpage_no_victim:
  assumes "mm c = Some m0" "0 \<le> pn" "pn < int (length (pgd m0))" "\<not> present (pgd m0) (nat pn)"
    and "fifo_pgn m0 = PgNull"
  shows "pg_getpage c d pn = Some (-1, None, c, d)"
proof -
  have "c\<lparr>mm := Some m0\<rparr> = c" using assms(1) by simp
  then show ?thesis
    using not_present_pte [OF assms(4,2,3)] assms(1,5)
    by (simp add: pg_getpage_def find_victim_page_def)
qed

lemma libread_unmapped:
  assumes "mm p = Some m0" "length (pgd m0) = 16384" "get_vma_by_num m0 0 \<noteq> None" "fifo_pgn m0 = PgNull"
    and "0 \<le> int_of_u32 rg" "int_of_u32 rg < 30" "length (symrgtbl m0) = 30"
    and "a = int_of_u64 (rg_start (symrgtbl m0 ! nat (int_of_u32 rg)) + u64_of_int (int_of_u32 off))"
    and "0 \<le> a" "a < 2 ^ PAGING_CPU_BUS_WIDTH" "\<not> present (pgd m0) (nat (a div PAGING_PAGESZ))"
  shows "pg_getval p d a = Some (-1, None, p, d) \<and> libread p d rg off = Some (0, p, d)"
proof -
  have a: "a < 2 ^ 22" "\<not> present (pgd m0) (nat (a div 256))"
    using assms(10,11) by (simp_all add: PAGING_CPU_BUS_WIDTH_def PAGING_PAGESZ_def)
  have r: "pg_getval p d a = Some (-1, None, p, d)"
    using address_split [OF assms(9) a(1)] pg_getpage_no_victim [OF assms(1) _ _ a(2) assms(4)] assms(2)
    by (simp add: pg_getval_def Let_def)
  have "get_symrg_byid m0 (int_of_u32 rg) = RgSym (nat (int_of_u32 rg))"
    using assms(5,6) by (simp add: get_symrg_byid_def PAGING_MAX_SYMTBL_SZ_def)
  then show ?thesis
    using assms(1,3,5-7) r by (simp add: libread_def read_region_def assms(8) nat_less_iff)
qed

text \<open>
  Reading an address whose page is not present, in a process that has no page to replace: the
  access fails, nothing changes, and yet \<open>libread\<close> reports success (and prints a byte that was never assigned).
\<close>

lemma libread_unmapped_reports_success:
  assumes "mm p = Some m0" "length (pgd m0) = 16384" "get_vma_by_num m0 0 \<noteq> None" "fifo_pgn m0 = PgNull"
    and "0 \<le> int_of_u32 rg" "int_of_u32 rg < 30" "length (symrgtbl m0) = 30"
    and "a = int_of_u64 (rg_start (symrgtbl m0 ! nat (int_of_u32 rg)) + u64_of_int (int_of_u32 off))"
    and "0 \<le> a" "a < 2 ^ PAGING_CPU_BUS_WIDTH" "\<not> present (pgd m0) (nat (a div PAGING_PAGESZ))"
  shows "pg_getval p d a = Some (-1, None, p, d) \<and> libread p d rg off = Some (0, p, d)"
  using libread_unmapped [OF assms] .

text \<open>
  What \<open>pg_getpage\<close> copies when a page must be replaced: RAM frame \<open>v\<close> to the free swap frame \<open>w\<close>,
  and then RAM frame \<open>t\<close> to swap frame \<open>v\<close>.
\<close>

lemma mm_swap_page_eq:
  assumes "mram d = Some r" "active_mswp d = Some s" "ram_ok r" "ram_ok s" "page_in r f" "page_in s g"
  shows "\<exists>s'. mm_swap_page d f g = Some (0, d\<lparr>active_mswp := Some s'\<rparr>) \<and> ram_ok s' \<and>
    maxsz s' = maxsz s \<and> free_fp_list s' = free_fp_list s \<and>
    (\<forall>i. 0 \<le> i \<and> i < PAGING_PAGESZ \<longrightarrow> mp_rd s' (g * PAGING_PAGESZ + i) = mp_rd r (f * PAGING_PAGESZ + i))"
proof -
  obtain s' where s': "swap_cp_page (Some r) f (Some s) g = Some (0, Some r, Some s')" "ram_ok s'"
    "free_fp_list s' = free_fp_list s" "maxsz s' = maxsz s"
    "\<forall>i. 0 \<le> i \<and> i < PAGING_PAGESZ \<longrightarrow> mp_rd s' (g * PAGING_PAGESZ + i) = mp_rd r (f * PAGING_PAGESZ + i)"
    using swap_cp_page_full [OF assms(3-6)] by blast
  have "d\<lparr>mram := Some r, active_mswp := Some s'\<rparr> = d\<lparr>active_mswp := Some s'\<rparr>"
    using assms(1) by simp
  then have "mm_swap_page d f g = Some (0, d\<lparr>active_mswp := Some s'\<rparr>)"
    using assms(1,2) s'(1) by (simp add: mm_swap_page_def)
  with s' show ?thesis by blast
qed

lemma fault_pte:
  assumes "0 \<le> v" "v < 8192"
  shows "PAGING_PAGE_PRESENT ((e AND NOT PAGING_PTE_FPN_MASK) OR u32_of_int v OR PAGING_PTE_PRESENT_MASK) \<noteq> 0"
    and "int_of_u32 (PAGING_FPN ((e AND NOT PAGING_PTE_FPN_MASK) OR u32_of_int v OR PAGING_PTE_PRESENT_MASK)) = v"
proof -
  show "PAGING_PAGE_PRESENT ((e AND NOT PAGING_PTE_FPN_MASK) OR u32_of_int v OR PAGING_PTE_PRESENT_MASK) \<noteq> 0"
    by (simp add: PAGE_PRESENT_iff bit_simps PAGING_PTE_PRESENT_MASK_def BIT_def)
  have "PAGING_FPN ((e AND NOT PAGING_PTE_FPN_MASK) OR u32_of_int v OR PAGING_PTE_PRESENT_MASK) =
    PAGING_FPN (u32_of_int v)"
    by (rule bit_word_eqI)
      (auto simp: PAGING_FPN_take_bit bit_take_bit_iff bit_simps PAGING_PTE_PRESENT_MASK_def BIT_def
        bit_pte_masks)
  then show "int_of_u32 (PAGING_FPN ((e AND NOT PAGING_PTE_FPN_MASK) OR u32_of_int v OR PAGING_PTE_PRESENT_MASK)) = v"
    using PAGING_FPN_u32_of_int [OF assms] by simp
qed

lemma page_fault:
  assumes "mm c = Some m0" "0 \<le> pn" "pn < int (length (pgd m0))" "\<not> present (pgd m0) (nat pn)"
    and "fifo_pgn m0 = PgNode v nx" "t = int_of_u32 (PAGING_SWP (pgd m0 ! nat pn))"
    and "mram d = Some r" "active_mswp d = Some s" "ram_ok r" "ram_ok s"
    and "pool_ok s" "free_frames s = w # ws"
    and "page_in r v" "page_in r t" "page_in s w" "page_in s v" "v < 8192"
  shows "\<exists>c' m' s'. pg_getpage c d pn = Some (0, Some v, c', d\<lparr>active_mswp := Some s'\<rparr>) \<and>
    mm c' = Some m' \<and> present (pgd m') (nat pn) \<and> frame_at (pgd m') (nat pn) = v \<and>
    (\<forall>k. k \<noteq> nat pn \<longrightarrow> pgd m' ! k = pgd m0 ! k) \<and> fifo_pgn m' = nx \<and> free_frames s' = ws \<and>
    (\<forall>i. 0 \<le> i \<and> i < PAGING_PAGESZ \<longrightarrow> mp_rd s' (v * PAGING_PAGESZ + i) = mp_rd r (t * PAGING_PAGESZ + i))"
proof -
  note pte = not_present_pte [OF assms(4,2,3)]
  let ?s1 = "s\<lparr>free_fp_list := list_fp ws\<rparr>" and ?d1 = "d\<lparr>active_mswp := Some (s\<lparr>free_fp_list := list_fp ws\<rparr>)\<rparr>"
  have g: "MEMPHY_get_freefp (Some s) = Some (0, Some w, Some ?s1)"
    using get_freefp_cases [OF assms(11)] assms(12) by simp
  have "ram_ok ?s1" "page_in ?s1 w" using assms(10,15) by simp_all
  with mm_swap_page_eq [of ?d1 r ?s1 v w] assms(7,9,13) obtain s2 where
    s2: "mm_swap_page ?d1 v w = Some (0, d\<lparr>active_mswp := Some s2\<rparr>)" "ram_ok s2" "maxsz s2 = maxsz s"
      "free_fp_list s2 = list_fp ws" by auto
  have "page_in s2 v" using assms(16) s2(3) by (simp add: page_in_def)
  with mm_swap_page_eq [of "d\<lparr>active_mswp := Some s2\<rparr>" r s2 t v] assms(7,9,14) s2 obtain s3 where
    s3: "mm_swap_page (d\<lparr>active_mswp := Some s2\<rparr>) t v = Some (0, d\<lparr>active_mswp := Some s3\<rparr>)"
      "free_fp_list s3 = list_fp ws"
      "\<forall>i. 0 \<le> i \<and> i < PAGING_PAGESZ \<longrightarrow> mp_rd s3 (v * PAGING_PAGESZ + i) = mp_rd r (t * PAGING_PAGESZ + i)"
    by auto
  define e where "e = (pgd m0 ! nat pn AND NOT PAGING_PTE_FPN_MASK) OR u32_of_int v OR PAGING_PTE_PRESENT_MASK"
  let ?m' = "m0\<lparr>fifo_pgn := nx, pgd := (pgd m0)[nat pn := e]\<rparr>"
  have v: "0 \<le> v" using assms(13) by (simp add: page_in_def)
  have e: "PAGING_PAGE_PRESENT e \<noteq> 0" "int_of_u32 (PAGING_FPN e) = v"
    using fault_pte [OF v assms(17)] by (simp_all add: e_def)
  have set: "arr_set (pgd m0) pn e = Some ((pgd m0)[nat pn := e])"
    "arr_get ((pgd m0)[nat pn := e]) pn = Some e"
    using assms(2,3) by (simp_all add: arr_set_in arr_get_in)
  have "pg_getpage c d pn = Some (0, Some v, c\<lparr>mm := Some ?m'\<rparr>, d\<lparr>active_mswp := Some s3\<rparr>)"
    using pte assms(1,5,8) g s2(1) s3(1) set e(2)
    by (simp add: pg_getpage_def find_victim_page_def assms(6) [symmetric] e_def [symmetric] Let_def)
  moreover have "present (pgd ?m') (nat pn)" "frame_at (pgd ?m') (nat pn) = v"
    using e assms(2,3) by (simp_all add: present_def frame_at_def nat_less_iff)
  moreover have "free_frames s3 = ws" using s3(2) by (simp add: free_frames_def)
  ultimately show ?thesis using s3(3) by (intro exI [of _ ?m'] exI conjI) (assumption | simp)+
qed

text \<open>
  A page fault with a page to replace and a free swap frame. The "victim" taken from the list is
  a page number, but it is used as a frame number: the entry of the faulting page is set to frame
  \<open>v\<close>, whoever owns that frame, while the entry of page \<open>v\<close> stays as it is. Both copies go from RAM
  to swap, so the swapped page is not brought in, and the swap frame \<open>v\<close> is overwritten by RAM frame
  \<open>t\<close>, the number recorded as the swap location. No byte of RAM changes.
\<close>

lemma page_fault_wrong_way:
  assumes "mm c = Some m0" "0 \<le> pn" "pn < int (length (pgd m0))" "\<not> present (pgd m0) (nat pn)"
    and "fifo_pgn m0 = PgNode v nx" "t = int_of_u32 (PAGING_SWP (pgd m0 ! nat pn))"
    and "mram d = Some r" "active_mswp d = Some s" "ram_ok r" "ram_ok s"
    and "pool_ok s" "free_frames s = w # ws"
    and "page_in r v" "page_in r t" "page_in s w" "page_in s v" "v < 8192"
  shows "\<exists>c' m' s'. pg_getpage c d pn = Some (0, Some v, c', d\<lparr>active_mswp := Some s'\<rparr>) \<and>
    mm c' = Some m' \<and> present (pgd m') (nat pn) \<and> frame_at (pgd m') (nat pn) = v \<and>
    (\<forall>k. k \<noteq> nat pn \<longrightarrow> pgd m' ! k = pgd m0 ! k) \<and> fifo_pgn m' = nx \<and> free_frames s' = ws \<and>
    (\<forall>i. 0 \<le> i \<and> i < PAGING_PAGESZ \<longrightarrow> mp_rd s' (v * PAGING_PAGESZ + i) = mp_rd r (t * PAGING_PAGESZ + i))"
  using page_fault [OF assms] .

subsection \<open>Releasing the pages of a process\<close>

lemma free_memph_loop_eq:
  assumes "mram d = Some r" "active_mswp d = Some s" "\<forall>k \<in> set ks. k < length pd"
  shows "\<exists>r' s'. free_memph_loop pd d (map int ks) = Some \<lparr>mram = Some r', active_mswp = Some s'\<rparr> \<and>
    storage r' = storage r \<and> storage s' = storage s \<and>
    free_frames r' = rev (map (frame_at pd) (filter (\<lambda>k. \<not> present pd k) ks)) @ free_frames r \<and>
    free_frames s' = rev (map (\<lambda>k. int_of_u32 (PAGING_SWP (pd ! k))) (filter (present pd) ks)) @ free_frames s"
  using assms
proof (induction ks arbitrary: d r s)
  case Nil
  then show ?case by (cases d) auto
next
  case (Cons k ks)
  have k: "arr_get pd (int k) = Some (pd ! k)" and ks: "\<forall>k \<in> set ks. k < length pd"
    and pr: "PAGING_PAGE_PRESENT (pd ! k) \<noteq> 0 \<longleftrightarrow> present pd k"
    using Cons.prems(3) by (auto simp: arr_get_in present_def)
  show ?case
  proof (cases "present pd k")
    case True
    let ?s = "s\<lparr>free_fp_list := FpNode (int_of_u32 (PAGING_SWP (pd ! k))) (free_fp_list s)\<rparr>"
    from Cons.IH [of "d\<lparr>active_mswp := Some ?s\<rparr>" r ?s] Cons.prems ks True k pr show ?thesis
      by (auto simp: put_freefp_Some free_frames_def [of s])
  next
    case False
    let ?r = "r\<lparr>free_fp_list := FpNode (frame_at pd k) (free_fp_list r)\<rparr>"
    from Cons.IH [of "d\<lparr>mram := Some ?r\<rparr>" ?r s] Cons.prems ks False k pr show ?thesis
      by (auto simp: put_freefp_Some free_frames_def [of r] frame_at_def)
  qed
qed

text \<open>
  \<open>free_pcb_memph\<close> tests the presence bit the wrong way round: every entry that is NOT present
  puts its frame field on the RAM free list, every present entry puts its swap field on the free
  list of the swap device. The frames the process really held are not released.
\<close>

lemma free_pcb_memph_inverted:
  assumes "mm c = Some m0" "length (pgd m0) = 16384" "mram d = Some r" "active_mswp d = Some s"
  shows "\<exists>r' s'. free_pcb_memph c d = Some (0, \<lparr>mram = Some r', active_mswp = Some s'\<rparr>) \<and>
    storage r' = storage r \<and> storage s' = storage s \<and>
    free_frames r' = rev (map (frame_at (pgd m0)) (filter (\<lambda>k. \<not> present (pgd m0) k) [0..<16384])) @ free_frames r \<and>
    free_frames s' = rev (map (\<lambda>k. int_of_u32 (PAGING_SWP (pgd m0 ! k))) (filter (present (pgd m0)) [0..<16384]))
      @ free_frames s"
proof -
  have "uint PAGING_MAX_PGN = 16384" by code_simp
  moreover have "map int [0..<16384] = [0..16384 - 1]" 
    by (rule nth_equalityI) simp_all
  ultimately show ?thesis
    using free_memph_loop_eq [OF assms(3,4), of "[0..<16384]" "pgd m0"] assms(1,2)
    by (auto simp: free_pcb_memph_def)
qed

lemma libread_unmapped_reports_success_witness:
  "pg_getval sample_pcb sample_devs 7 = Some (-1, None, sample_pcb, sample_devs) \<and>
   libread sample_pcb sample_devs 3 7 = Some (0, sample_pcb, sample_devs)"
proof -
  have i: "int_of_u32 3 = 3" "int_of_u32 7 = 7" "int_of_u64 (u64_of_int 7) = 7"
    using int_of_u64_of_int [of 7] by (simp_all add: int_of_u32_def is_cint_def)
  have m: "get_vma_by_num sample_mm 0 \<noteq> None" "fifo_pgn sample_mm = PgNull"
    "symrgtbl sample_mm = replicate 30 \<lparr>rg_start = 0, rg_end = 0, rg_next = RgNull\<rparr>"
    by (simp_all add: get_vma_by_num_def int_of_u64_def sample_mm_def blank_mm_def)
  show ?thesis
    using libread_unmapped_reports_success [of sample_pcb sample_mm 3 7 7 sample_devs] i m
    by (simp add: not_present_zero PAGING_CPU_BUS_WIDTH_def)
qed

lemma page_fault_wrong_way_witness:
  "\<exists>c' m' s'. pg_getpage (paged_pcb 0\<lparr>mm := Some (paged_mm 0\<lparr>fifo_pgn := PgNode 0 PgNull\<rparr>)\<rparr>) paged_devs 1 =
      Some (0, Some 0, c', paged_devs\<lparr>active_mswp := Some s'\<rparr>) \<and> mm c' = Some m' \<and>
    present (pgd m') 0 \<and> present (pgd m') 1 \<and> frame_at (pgd m') 0 = frame_at (pgd m') 1"
proof -
  let ?m = "paged_mm 0\<lparr>fifo_pgn := PgNode 0 PgNull\<rparr>" and ?c = "paged_pcb 0\<lparr>mm := Some (paged_mm 0\<lparr>fifo_pgn := PgNode 0 PgNull\<rparr>)\<rparr>"
  have e: "one_page 0 ! 1 = 0" "int_of_u32 (PAGING_SWP 0) = 0"
    by (simp_all add: one_page_def PAGING_SWP_def int_of_u32_def)
  obtain c' m' s' where r: "pg_getpage ?c paged_devs 1 = Some (0, Some 0, c', paged_devs\<lparr>active_mswp := Some s'\<rparr>)"
    "mm c' = Some m'" "present (pgd m') 1" "frame_at (pgd m') 1 = 0"
    "\<forall>k. k \<noteq> 1 \<longrightarrow> pgd m' ! k = one_page 0 ! k"
    using page_fault_wrong_way [of ?c ?m 1 0 PgNull 0 paged_devs paged_ram sample_ram 0 "[1, 2, 3]"] e
    by (auto simp: one_page_present paged_ram_def page_in_def PAGING_PAGESZ_def)
  have "pgd m' ! 0 = one_page 0 ! 0" using r(5) by simp
  then have "frame_at (pgd m') 0 = 0" "present (pgd m') 0"
    using one_page_frame [of 0] one_page_present [of 0 0] r(3)
    by (auto simp: frame_at_def present_def)
  with r show ?thesis by auto
qed

lemma free_pcb_memph_inverted_witness:
  "\<exists>r' s'. free_pcb_memph sample_pcb sample_devs = Some (0, \<lparr>mram = Some r', active_mswp = Some s'\<rparr>) \<and>
    length (free_frames r') = 16388 \<and> free_frames s' = [0, 1, 2, 3]"
  using free_pcb_memph_inverted [of sample_pcb sample_mm sample_devs sample_ram sample_ram]
  by (auto simp: not_present_zero)

end
