(* ===== verification/Queue.thy ===== *)
theory Queue
  imports Common Interfaces
begin

text \<open>
  The process queues of \<open>src/queue.c\<close>: \<open>empty\<close>, \<open>enqueue\<close> and \<open>dequeue\<close> on an array of process
  pointers, their specification as a bounded priority queue, and an interpretation of the interface
  \<open>prio_queue\<close>.

  Processes are shared by pointers, so they live in a store: a \<open>pcb_ptr\<close> is the name of a block,
  0 is the null pointer, and the store is undefined at a name that was never allocated or has been
  freed. A queue is \<open>queue_t\<close> by value; only \<open>empty\<close> is ever given a null pointer to a queue.
\<close>

type_synonym pcb_ptr = nat
type_synonym pcbs = "pcb_ptr \<Rightarrow> pcb_t option"

record queue_t =
  q_proc :: "pcb_ptr list"
  q_size :: cint

definition MAX_QUEUE_SIZE :: cint where
  "MAX_QUEUE_SIZE = 10"

definition empty_q :: "queue_t option \<Rightarrow> cint" where
  "empty_q q = (case q of None \<Rightarrow> 1 | Some q' \<Rightarrow> (if q_size q' = 0 then 1 else 0))"

definition enqueue :: "queue_t \<Rightarrow> pcb_ptr \<Rightarrow> queue_t option" where
  "enqueue q proc =
    (if q_size q \<ge> MAX_QUEUE_SIZE then Some q
     else do {
       ps \<leftarrow> arr_set (q_proc q) (q_size q) proc;
       n \<leftarrow> c_ret (q_size q + 1);
       Some (q\<lparr>q_proc := ps, q_size := n\<rparr>)
     })"

fun best_loop :: "pcbs \<Rightarrow> pcb_ptr list \<Rightarrow> cint \<Rightarrow> int list \<Rightarrow> cint option" where
  "best_loop st ps best_index [] = Some best_index"
| "best_loop st ps best_index (i # is) = do {
     x \<leftarrow> arr_get ps i;
     px \<leftarrow> st x;
     y \<leftarrow> arr_get ps best_index;
     py \<leftarrow> st y;
     best_loop st ps (if priority px > priority py then i else best_index) is
   }"

fun shift_loop :: "pcb_ptr list \<Rightarrow> int list \<Rightarrow> pcb_ptr list option" where
  "shift_loop ps [] = Some ps"
| "shift_loop ps (i # is) = do {
     x \<leftarrow> arr_get ps (i + 1);
     ps' \<leftarrow> arr_set ps i x;
     shift_loop ps' is
   }"

definition dequeue :: "pcbs \<Rightarrow> queue_t \<Rightarrow> (pcb_ptr \<times> queue_t) option" where
  "dequeue st q =
    (if empty_q (Some q) \<noteq> 0 then Some (0, q)
     else do {
       best_index \<leftarrow> best_loop st (q_proc q) 0 [1..q_size q - 1];
       selected \<leftarrow> arr_get (q_proc q) best_index;
       ps \<leftarrow> shift_loop (q_proc q) [best_index..q_size q - 2];
       n \<leftarrow> c_ret (q_size q - 1);
       Some (selected, q\<lparr>q_proc := ps, q_size := n\<rparr>)
     })"

subsection \<open>Queues as lists\<close>

definition q_elems :: "queue_t \<Rightarrow> pcb_ptr list" where
  "q_elems q = take (nat (q_size q)) (q_proc q)"

definition queue_ok :: "queue_t \<Rightarrow> bool" where
  "queue_ok q \<longleftrightarrow> length (q_proc q) = 10 \<and> 0 \<le> q_size q \<and> q_size q \<le> 10"

definition proc_key :: "pcbs \<Rightarrow> pcb_ptr \<Rightarrow> int" where
  "proc_key st p = (case st p of Some x \<Rightarrow> uint (priority x) | None \<Rightarrow> 0)"

definition live_queue :: "pcbs \<Rightarrow> queue_t \<Rightarrow> bool" where
  "live_queue st q \<longleftrightarrow> queue_ok q \<and> (\<forall>p \<in> set (q_elems q). st p \<noteq> None)"

lemma length_q_elems: "queue_ok q \<Longrightarrow> length (q_elems q) = nat (q_size q)"
  by (auto simp: q_elems_def queue_ok_def)

lemma empty_q_iff: "queue_ok q \<Longrightarrow> empty_q (Some q) = 0 \<longleftrightarrow> q_elems q \<noteq> []"
  using length_q_elems [of q] by (auto simp: empty_q_def queue_ok_def)

lemma enqueue_room:
  assumes "queue_ok q" "length (q_elems q) < 10"
  shows "\<exists>q'. enqueue q p = Some q' \<and> queue_ok q' \<and> q_elems q' = q_elems q @ [p]"
proof -
  let ?n = "nat (q_size q)"
  let ?q = "q\<lparr>q_proc := (q_proc q)[?n := p], q_size := q_size q + 1\<rparr>"
  have n: "0 \<le> q_size q" "q_size q < 10" "length (q_proc q) = 10"
    using assms by (auto simp: queue_ok_def length_q_elems)
  then have "enqueue q p = Some ?q"
    by (simp add: enqueue_def MAX_QUEUE_SIZE_def arr_set_in c_ret_def is_cint_def)
  moreover have "queue_ok ?q" using n by (simp add: queue_ok_def)
  moreover have "q_elems ?q = q_elems q @ [p]"
    using n by (simp add: q_elems_def nat_add_distrib take_Suc_conv_app_nth)
  ultimately show ?thesis by blast
qed

lemma enqueue_full: "queue_ok q \<Longrightarrow> 10 \<le> length (q_elems q) \<Longrightarrow> enqueue q p = Some q"
  by (auto simp: length_q_elems enqueue_def MAX_QUEUE_SIZE_def queue_ok_def)

lemma enqueue_total:
  assumes "queue_ok q"
  shows "\<exists>q'. enqueue q p = Some q' \<and> queue_ok q' \<and>
    q_elems q' = (if length (q_elems q) < 10 then q_elems q @ [p] else q_elems q)"
proof (cases "length (q_elems q) < 10")
  case True
  then show ?thesis using enqueue_room [OF assms True, of p] by simp
next
  case False
  then show ?thesis using enqueue_full [OF assms, of p] assms by simp
qed

lemma enqueue_live:
  assumes "live_queue st q" "st p \<noteq> None"
  shows "\<exists>q'. enqueue q p = Some q' \<and> live_queue st q' \<and>
    q_elems q' = (if length (q_elems q) < 10 then q_elems q @ [p] else q_elems q)"
proof -
  have "queue_ok q" using assms(1) by (simp add: live_queue_def)
  from enqueue_total [OF this, of p] obtain q' where q': "enqueue q p = Some q'" "queue_ok q'"
    "q_elems q' = (if length (q_elems q) < 10 then q_elems q @ [p] else q_elems q)" by blast
  then have "live_queue st q'" using assms by (simp add: live_queue_def split: if_splits)
  with q' show ?thesis by blast
qed

text \<open>The search: \<open>j\<close> is the first position of highest key.\<close>

definition first_max :: "(nat \<Rightarrow> int) \<Rightarrow> nat \<Rightarrow> nat \<Rightarrow> bool" where
  "first_max f n j \<longleftrightarrow> j < n \<and> (\<forall>k < j. f k < f j) \<and> (\<forall>k < n. f k \<le> f j)"

lemma first_max_step: "first_max f i b \<Longrightarrow> first_max f (Suc i) (if f i > f b then i else b)"
  by (auto simp: first_max_def less_Suc_eq intro: order.strict_trans1)

lemma best_loop_first_max:
  assumes "\<forall>k < n. st (ps ! k) \<noteq> None" "n \<le> length ps" "first_max (\<lambda>k. proc_key st (ps ! k)) i b" "i \<le> n"
  shows "\<exists>j. best_loop st ps (int b) [int i..int n - 1] = Some (int j) \<and>
    first_max (\<lambda>k. proc_key st (ps ! k)) n j"
  using assms(3,4)
proof (induction "n - i" arbitrary: i b)
  case 0
  then show ?case by auto
next
  case (Suc m)
  let ?f = "\<lambda>k. proc_key st (ps ! k)"
  have i: "i < n" "b < n" using Suc.hyps(2) Suc.prems by (auto simp: first_max_def)
  then obtain px py where p: "st (ps ! i) = Some px" "st (ps ! b) = Some py" using assms(1) by blast
  let ?b = "if ?f i > ?f b then i else b"
  have "[int i..int n - 1] = int i # [int (Suc i)..int n - 1]" using i by (simp add: upto_rec1 add.commute)
  then have "best_loop st ps (int b) [int i..int n - 1] =
      best_loop st ps (int ?b) [int (Suc i)..int n - 1]"
    using i p assms(2) by (simp add: arr_get_in proc_key_def word_less_def)
  then show ?case
    using Suc.hyps(1) [of "Suc i" ?b] Suc.hyps(2) Suc.prems(1) i first_max_step [of ?f i b] by simp
qed

lemma shift_loop_nth:
  assumes "n \<le> length ps" "0 < n"
  shows "\<exists>ps'. shift_loop ps [int b..int n - 2] = Some ps' \<and> length ps' = length ps \<and>
    (\<forall>k < n - 1. ps' ! k = (if b \<le> k then ps ! Suc k else ps ! k))"
  using assms
proof (induction "n - b" arbitrary: b ps)
  case 0
  then show ?case by auto
next
  case (Suc m)
  show ?case
  proof (cases "Suc b < n")
    case False
    with Suc.prems show ?thesis by auto
  next
    case True
    let ?ps = "ps[b := ps ! Suc b]"
    have "[int b..int n - 2] = int b # [int (Suc b)..int n - 2]" using True by (simp add: upto_rec1 add.commute)
    moreover have "arr_get ps (int b + 1) = Some (ps ! Suc b)"
      using True Suc.prems(1) by (simp add: arr_get_def nat_add_distrib)
    moreover have "arr_set ps (int b) (ps ! Suc b) = Some ?ps"
      using True Suc.prems(1) by (simp add: arr_set_in)
    ultimately have step: "shift_loop ps [int b..int n - 2] = shift_loop ?ps [int (Suc b)..int n - 2]" by simp
    have m: "m = n - Suc b" using Suc.hyps(2) by simp
    obtain ps' where ps': "shift_loop ?ps [int (Suc b)..int n - 2] = Some ps'" "length ps' = length ps"
      "\<forall>k < n - 1. ps' ! k = (if Suc b \<le> k then ?ps ! Suc k else ?ps ! k)"
      using Suc.hyps(1) [OF m, of ?ps] Suc.prems by auto
    have "ps' ! k = (if b \<le> k then ps ! Suc k else ps ! k)" if "k < n - 1" for k
      using ps'(3) that True Suc.prems(1) by (cases "k = b") (auto simp: nth_list_update)
    with step ps'(1,2) show ?thesis by auto
  qed
qed

lemma dequeue_spec:
  assumes "live_queue st q" "q_elems q \<noteq> []"
  shows "\<exists>xs p ys q'. dequeue st q = Some (p, q') \<and> q_elems q = xs @ p # ys \<and> q_elems q' = xs @ ys \<and>
    live_queue st q' \<and> (\<forall>y \<in> set xs. proc_key st y < proc_key st p) \<and>
    (\<forall>y \<in> set ys. proc_key st y \<le> proc_key st p)"
proof -
  let ?n = "nat (q_size q)" and ?ps = "q_proc q"
  let ?f = "\<lambda>k. proc_key st (?ps ! k)"
  have ok: "queue_ok q" and len: "length (q_elems q) = ?n" "0 < ?n" "?n \<le> length ?ps" "int ?n = q_size q"
    using assms length_q_elems [of q] by (auto simp: live_queue_def queue_ok_def simp flip: length_greater_0_conv)
  have el: "q_elems q ! k = ?ps ! k" if "k < ?n" for k using that by (simp add: q_elems_def)
  have "\<forall>k < ?n. st (?ps ! k) \<noteq> None"
    using assms(1) el len(1) by (metis live_queue_def nth_mem)
  from best_loop_first_max [OF this len(3), of 1 0] obtain j where
    j: "best_loop st ?ps 0 [1..q_size q - 1] = Some (int j)" "first_max ?f ?n j"
    using len by (auto simp: first_max_def)
  then have jn: "j < ?n" by (simp add: first_max_def)
  from shift_loop_nth [OF len(3,2), of j] obtain ps' where
    s: "shift_loop ?ps [int j..q_size q - 2] = Some ps'" "length ps' = length ?ps"
      "\<forall>k < ?n - 1. ps' ! k = (if j \<le> k then ?ps ! Suc k else ?ps ! k)" using len(4) by auto
  let ?q = "q\<lparr>q_proc := ps', q_size := q_size q - 1\<rparr>"
  let ?xs = "take j (q_elems q)" and ?p = "?ps ! j" and ?ys = "drop (Suc j) (q_elems q)"
  have "c_ret (q_size q - 1) = Some (q_size q - 1)"
    using ok by (simp add: queue_ok_def c_ret_def is_cint_def)
  then have "dequeue st q = Some (?p, ?q)"
    using j(1) s(1) jn len assms(2) empty_q_iff [OF ok] by (simp add: dequeue_def arr_get_in)
  moreover have split: "q_elems q = ?xs @ ?p # ?ys"
    using id_take_nth_drop [of j "q_elems q"] jn len(1) el by simp
  moreover have "q_elems ?q = ?xs @ ?ys"
  proof (rule nth_equalityI)
    show "length (q_elems ?q) = length (?xs @ ?ys)" using s(2) len jn by (simp add: q_elems_def nat_diff_distrib)
    fix k assume "k < length (q_elems ?q)"
    then have k: "k < ?n - 1" using s(2) len by (simp add: q_elems_def nat_diff_distrib)
    then have "q_elems ?q ! k = ps' ! k" using len by (simp add: q_elems_def nat_diff_distrib)
    then show "q_elems ?q ! k = (?xs @ ?ys) ! k"
      using k s(3) jn len el by (simp add: nth_append min_def)
  qed
  moreover have "queue_ok ?q" using ok s(2) len by (simp add: queue_ok_def)
  moreover have "\<forall>y \<in> set ?xs. proc_key st y < proc_key st ?p"
    using j(2) jn len(1) el by (auto simp: first_max_def in_set_conv_nth)
  moreover have "\<forall>y \<in> set ?ys. proc_key st y \<le> proc_key st ?p"
    using j(2) jn len(1) el by (auto simp: first_max_def in_set_conv_nth)
  ultimately show ?thesis
    using assms(1) set_take_subset [of j "q_elems q"] set_drop_subset [of "Suc j" "q_elems q"]
    by (intro exI [of _ ?xs] exI [of _ ?p] exI [of _ ?ys] exI [of _ ?q]) (auto simp: live_queue_def)
qed

lemma length_shift_loop: "shift_loop ps is = Some ps' \<Longrightarrow> length ps' = length ps"
  by (induction ps "is" rule: shift_loop.induct) (auto simp: bind_eq_Some_conv dest: length_arr_set)

lemma dequeue_queue_ok:
  assumes "dequeue st q = Some (p, q')" "queue_ok q"
  shows "queue_ok q'"
  using assms
  by (auto simp: dequeue_def empty_q_def queue_ok_def bind_eq_Some_conv Let_def c_ret_def split: if_splits
      dest!: length_shift_loop)

lemma dequeue_empty: "queue_ok q \<Longrightarrow> q_elems q = [] \<Longrightarrow> dequeue st q = Some (0, q)"
  using empty_q_iff [of q] by (auto simp: dequeue_def)

subsection \<open>The interface\<close>

definition q_enq :: "pcb_ptr \<Rightarrow> queue_t \<Rightarrow> queue_t" where
  "q_enq p q = (case enqueue q p of Some q' \<Rightarrow> q' | None \<Rightarrow> q)"

definition q_deq :: "pcbs \<Rightarrow> queue_t \<Rightarrow> (pcb_ptr \<times> queue_t) option" where
  "q_deq st q = (if empty_q (Some q) = 0 then dequeue st q else None)"

interpretation pq: prio_queue q_enq "q_deq st" q_elems "proc_key st" 10 "live_queue st" "\<lambda>p. st p \<noteq> None"
  for st
proof
  fix q x q'
  assume l: "live_queue st q"
  then have ok: "queue_ok q" by (simp add: live_queue_def)
  show "st x \<noteq> None \<Longrightarrow> length (q_elems q) < 10 \<Longrightarrow>
      q_elems (q_enq x q) = q_elems q @ [x] \<and> live_queue st (q_enq x q)"
    using enqueue_room [OF ok, of x] l by (auto simp: q_enq_def live_queue_def)
  show "10 \<le> length (q_elems q) \<Longrightarrow> q_enq x q = q"
    using enqueue_full [OF ok] by (simp add: q_enq_def)
  show "q_deq st q = None \<longleftrightarrow> q_elems q = []"
    using dequeue_spec [OF l] empty_q_iff [OF ok] by (auto simp: q_deq_def)
  show "q_deq st q = Some (x, q') \<Longrightarrow> live_queue st q' \<and>
      (\<exists>xs ys. q_elems q = xs @ x # ys \<and> q_elems q' = xs @ ys \<and>
        (\<forall>y \<in> set xs. proc_key st y < proc_key st x) \<and> (\<forall>y \<in> set ys. proc_key st y \<le> proc_key st x))"
    using dequeue_spec [OF l] empty_q_iff [OF ok] by (fastforce simp: q_deq_def split: if_splits)
  show "x \<in> set (q_elems q) \<Longrightarrow> st x \<noteq> None"
    using l by (simp add: live_queue_def)
qed

text \<open>
  \<open>dequeue\<close> on a non-empty queue of live processes: it returns, it removes the first process
  whose \<open>priority\<close> is highest, and the other processes keep their order.
\<close>

lemma dequeue_highest_first:
  assumes "queue_ok q" "q_elems q \<noteq> []" "\<forall>p \<in> set (q_elems q). st p \<noteq> None"
  shows "\<exists>xs p ys q'. dequeue st q = Some (p, q') \<and> q_elems q = xs @ p # ys \<and> q_elems q' = xs @ ys \<and>
    queue_ok q' \<and> (\<forall>y \<in> set xs. proc_key st y < proc_key st p) \<and>
    (\<forall>y \<in> set ys. proc_key st y \<le> proc_key st p)"
  using dequeue_spec [of st q] assms by (auto simp: live_queue_def)

subsection \<open>A store of three processes\<close>

definition proc_of :: "nat \<Rightarrow> pcb_t" where
  "proc_of k = \<lparr>pid = of_nat k, priority = of_nat (k mod 2), path = ''p'', code = \<lparr>cs_text = [], cs_size = 0\<rparr>,
     regs = replicate 10 0, pc = 0, ready_queue = Q_wild, running_list = Q_wild,
     mlq_ready_queue = Q_wild, prio = of_nat k, mm = None,
     page_table = \<lparr>pt_table = replicate 32 None, pt_size = 0\<rparr>, bp = 1024\<rparr>"

definition three_procs :: pcbs where
  "three_procs p = (if p = 1 \<or> p = 2 \<or> p = 3 then Some (proc_of p) else None)"

definition queue_of :: "pcb_ptr list \<Rightarrow> queue_t" where
  "queue_of ps = \<lparr>q_proc = ps @ replicate (10 - length ps) 0, q_size = int (length ps)\<rparr>"

lemma queue_of_simps [simp]:
  "length ps \<le> 10 \<Longrightarrow> queue_ok (queue_of ps)" "q_elems (queue_of ps) = ps"
  by (simp_all add: queue_of_def queue_ok_def q_elems_def)

lemma dequeue_highest_first_witness:
  "\<exists>q'. dequeue three_procs (queue_of [2, 1, 3]) = Some (1, q') \<and> q_elems q' = [2, 3]"
proof -
  have k: "proc_key three_procs 1 = 1" "proc_key three_procs 2 = 0" "proc_key three_procs 3 = 1"
    by (simp_all add: proc_key_def three_procs_def proc_of_def)
  obtain xs p ys q' where r: "dequeue three_procs (queue_of [2, 1, 3]) = Some (p, q')"
    "[2, 1, 3] = xs @ p # ys" "q_elems q' = xs @ ys" "\<forall>y \<in> set xs. proc_key three_procs y < proc_key three_procs p"
    "\<forall>y \<in> set ys. proc_key three_procs y \<le> proc_key three_procs p"
    using dequeue_highest_first [of "queue_of [2, 1, 3]" three_procs] by (auto simp: three_procs_def)
  note r(2)
  then have "xs = [] \<and> p = 2 \<and> ys = [1, 3] \<or> xs = [2] \<and> p = 1 \<and> ys = [3] \<or> xs = [2, 1] \<and> p = 3 \<and> ys = []"
    by (auto simp: Cons_eq_append_conv)
  then have "p = 1 \<and> xs @ ys = [2, 3]" using r(4,5) k by (elim disjE) simp_all
  with r(1,3) show ?thesis by simp
qed

end
