(* ===== verification/Sched.thy ===== *)
theory Sched
  imports Queue
begin

text \<open>
  The multi-level queue scheduler of \<open>src/sched.c\<close>, in the configuration the repository builds
  (\<open>MLQ_SCHED\<close> is defined in \<open>include/os-cfg.h\<close>): 140 ready queues, one per \<open>prio\<close>, and the
  \<open>running_list\<close>. Every function holds \<open>queue_lock\<close> around its accesses to the queues, so each is
  one atomic operation on the state; \<open>put_proc\<close> and \<open>add_proc\<close> take the lock twice and are the
  composition of two atomic operations. \<open>arrive\<close> and \<open>slices\<close> are no functions of the code: they compose its
  operations into the rounds of one CPU.
\<close>

definition MAX_PRIO :: cint where
  "MAX_PRIO = 140"

record sched =
  s_ready :: queue_t
  s_run :: queue_t
  s_running :: queue_t
  s_mlq :: "queue_t list"
  s_slot :: "cint list"

fun queue_empty_loop :: "queue_t list \<Rightarrow> int list \<Rightarrow> bool option" where
  "queue_empty_loop qs [] = Some False"
| "queue_empty_loop qs (i # is) = do {
     q \<leftarrow> arr_get qs i;
     if empty_q (Some q) = 0 then Some True else queue_empty_loop qs is
   }"

definition queue_empty :: "sched \<Rightarrow> cint option" where
  "queue_empty s = do {
     found \<leftarrow> queue_empty_loop (s_mlq s) [0..MAX_PRIO - 1];
     if found then Some (-1)
     else Some (if empty_q (Some (s_ready s)) \<noteq> 0 \<and> empty_q (Some (s_run s)) \<noteq> 0 then 1 else 0)
   }"

fun init_mlq_loop :: "queue_t list \<Rightarrow> cint list \<Rightarrow> int list \<Rightarrow> (queue_t list \<times> cint list) option" where
  "init_mlq_loop qs sl [] = Some (qs, sl)"
| "init_mlq_loop qs sl (i # is) = do {
     q \<leftarrow> arr_get qs i;
     qs' \<leftarrow> arr_set qs i (q\<lparr>q_size := 0\<rparr>);
     n \<leftarrow> c_ret (MAX_PRIO - i);
     sl' \<leftarrow> arr_set sl i n;
     init_mlq_loop qs' sl' is
   }"

definition init_scheduler :: "sched \<Rightarrow> sched option" where
  "init_scheduler s = do {
     (qs, sl) \<leftarrow> init_mlq_loop (s_mlq s) (s_slot s) [0..MAX_PRIO - 1];
     Some (s\<lparr>s_mlq := qs, s_slot := sl, s_ready := (s_ready s)\<lparr>q_size := 0\<rparr>,
       s_run := (s_run s)\<lparr>q_size := 0\<rparr>, s_running := (s_running s)\<lparr>q_size := 0\<rparr>\<rparr>)
   }"

text \<open>The scan of \<open>get_mlq_proc\<close> from the highest level down; 0 is the null pointer.\<close>

fun get_mlq_loop :: "pcbs \<Rightarrow> queue_t list \<Rightarrow> int list \<Rightarrow> (pcb_ptr \<times> queue_t list) option" where
  "get_mlq_loop st qs [] = Some (0, qs)"
| "get_mlq_loop st qs (i # is) = do {
     q \<leftarrow> arr_get qs i;
     if empty_q (Some q) = 0 then do {
       (p, q') \<leftarrow> dequeue st q;
       qs' \<leftarrow> arr_set qs i q';
       Some (p, qs')
     }
     else get_mlq_loop st qs is
   }"

definition get_mlq_proc :: "pcbs \<Rightarrow> sched \<Rightarrow> (pcb_ptr \<times> sched) option" where
  "get_mlq_proc st s = do {
     (p, qs) \<leftarrow> get_mlq_loop st (s_mlq s) (rev [0..MAX_PRIO - 1]);
     Some (p, s\<lparr>s_mlq := qs\<rparr>)
   }"

definition put_mlq_proc :: "pcbs \<Rightarrow> sched \<Rightarrow> pcb_ptr \<Rightarrow> sched option" where
  "put_mlq_proc st s proc = do {
     x \<leftarrow> st proc;
     q \<leftarrow> arr_get (s_mlq s) (uint (prio x));
     q' \<leftarrow> enqueue q proc;
     qs \<leftarrow> arr_set (s_mlq s) (uint (prio x)) q';
     Some (s\<lparr>s_mlq := qs\<rparr>)
   }"

definition add_mlq_proc :: "pcbs \<Rightarrow> sched \<Rightarrow> pcb_ptr \<Rightarrow> sched option" where
  "add_mlq_proc st s proc = do {
     x \<leftarrow> st proc;
     q \<leftarrow> arr_get (s_mlq s) (uint (prio x));
     q' \<leftarrow> enqueue q proc;
     qs \<leftarrow> arr_set (s_mlq s) (uint (prio x)) q';
     Some (s\<lparr>s_mlq := qs\<rparr>)
   }"

definition get_proc :: "pcbs \<Rightarrow> sched \<Rightarrow> (pcb_ptr \<times> sched) option" where
  "get_proc st s = get_mlq_proc st s"

text \<open>The pointer fields that \<open>put_proc\<close> and \<open>add_proc\<close> set in the process.\<close>

definition link_queues :: "pcb_t \<Rightarrow> pcb_t" where
  "link_queues x = x\<lparr>ready_queue := Q_ready, mlq_ready_queue := Q_mlq 0, running_list := Q_running\<rparr>"

definition put_proc :: "pcbs \<Rightarrow> sched \<Rightarrow> pcb_ptr \<Rightarrow> (pcbs \<times> sched) option" where
  "put_proc st s proc = do {
     x \<leftarrow> st proc;
     let st' = st(proc \<mapsto> link_queues x);
     rl \<leftarrow> enqueue (s_running s) proc;
     s' \<leftarrow> put_mlq_proc st' (s\<lparr>s_running := rl\<rparr>) proc;
     Some (st', s')
   }"

definition add_proc :: "pcbs \<Rightarrow> sched \<Rightarrow> pcb_ptr \<Rightarrow> (pcbs \<times> sched) option" where
  "add_proc st s proc = do {
     x \<leftarrow> st proc;
     let st' = st(proc \<mapsto> link_queues x);
     rl \<leftarrow> enqueue (s_running s) proc;
     s' \<leftarrow> add_mlq_proc st' (s\<lparr>s_running := rl\<rparr>) proc;
     Some (st', s')
   }"

subsection \<open>Well-formed scheduler states\<close>

definition mlq_ok :: "pcbs \<Rightarrow> queue_t list \<Rightarrow> bool" where
  "mlq_ok st qs \<longleftrightarrow> length qs = 140 \<and> (\<forall>q \<in> set qs. live_queue st q)"

text \<open>The \<open>running_list\<close> may hold pointers to processes that have ended.\<close>

definition sched_ok :: "pcbs \<Rightarrow> sched \<Rightarrow> bool" where
  "sched_ok st s \<longleftrightarrow> mlq_ok st (s_mlq s) \<and> queue_ok (s_running s)"

definition level :: "sched \<Rightarrow> nat \<Rightarrow> pcb_ptr list" where
  "level s l = q_elems (s_mlq s ! l)"

definition ready_procs :: "sched \<Rightarrow> pcb_ptr multiset" where
  "ready_procs s = mset (concat (map q_elems (s_mlq s)))"

lemma downto_Suc: "rev [0..int (Suc n) - 1] = int n # rev [0..int n - 1]"
  using upto_rec2 [of 0 "int n"] by simp

lemma get_mlq_loop_spec:
  assumes "\<forall>q \<in> set qs. live_queue st q" "n \<le> length qs"
  shows "(\<forall>k < n. q_elems (qs ! k) = []) \<and> get_mlq_loop st qs (rev [0..int n - 1]) = Some (0, qs) \<or>
    (\<exists>l p q'. l < n \<and> q_elems (qs ! l) \<noteq> [] \<and> (\<forall>k. l < k \<and> k < n \<longrightarrow> q_elems (qs ! k) = []) \<and>
      dequeue st (qs ! l) = Some (p, q') \<and>
      get_mlq_loop st qs (rev [0..int n - 1]) = Some (p, qs[l := q']))"
  using assms(2)
proof (induction n)
  case 0
  then show ?case by simp
next
  case (Suc n)
  then have live: "live_queue st (qs ! n)" using assms(1) by simp
  then have e: "empty_q (Some (qs ! n)) = 0 \<longleftrightarrow> q_elems (qs ! n) \<noteq> []"
    by (simp add: live_queue_def empty_q_iff)
  have get: "arr_get qs (int n) = Some (qs ! n)" using Suc.prems by (simp add: arr_get_in)
  show ?case
  proof (cases "q_elems (qs ! n) = []")
    case False
    from dequeue_spec [OF live False] obtain p q' where d: "dequeue st (qs ! n) = Some (p, q')" by blast
    then have "get_mlq_loop st qs (rev [0..int (Suc n) - 1]) = Some (p, qs[n := q'])"
      using Suc.prems e get False unfolding downto_Suc by (simp add: arr_set_in)
    with d False show ?thesis by (intro disjI2 exI [of _ n] exI [of _ p] exI [of _ q']) auto
  next
    case True
    then have "get_mlq_loop st qs (rev [0..int (Suc n) - 1]) = get_mlq_loop st qs (rev [0..int n - 1])"
      using e get unfolding downto_Suc by simp
    then show ?thesis using Suc True by (auto simp: less_Suc_eq)
  qed
qed

lemma mset_concat_upd:
  "l < length qs \<Longrightarrow> mset (concat (map f (qs[l := q]))) + mset (f (qs ! l)) =
   mset (concat (map f qs)) + mset (f q)"
proof (induction qs arbitrary: l)
  case (Cons a qs)
  show ?case
  proof (cases l)
    case 0
    then show ?thesis by (simp add: union_ac)
  next
    case (Suc k)
    then show ?thesis using Cons.IH [of k] Cons.prems by (simp add: add.assoc)
  qed
qed simp

lemma ready_level: "l < length (s_mlq s) \<Longrightarrow> p \<in> set (level s l) \<Longrightarrow> p \<in># ready_procs s"
  by (auto simp: ready_procs_def level_def intro: nth_mem)

lemma ready_live: "sched_ok st s \<Longrightarrow> p \<in># ready_procs s \<Longrightarrow> st p \<noteq> None"
  by (auto simp: sched_ok_def mlq_ok_def ready_procs_def live_queue_def)

lemma ready_empty_iff: "ready_procs s = {#} \<longleftrightarrow> (\<forall>k < length (s_mlq s). level s k = [])"
  by (simp add: ready_procs_def level_def all_set_conv_all_nth)

lemma get_proc_cases:
  assumes "sched_ok st s"
  obtains (empty) "\<forall>k < 140. level s k = []" "get_proc st s = Some (0, s)"
  | (found) l xs p ys s' where "l < 140" "level s l = xs @ p # ys" "\<forall>k. l < k \<and> k < 140 \<longrightarrow> level s k = []"
      "get_proc st s = Some (p, s')" "level s' l = xs @ ys" "\<forall>k. k \<noteq> l \<longrightarrow> level s' k = level s k"
      "\<forall>y \<in> set xs. proc_key st y < proc_key st p" "\<forall>y \<in> set ys. proc_key st y \<le> proc_key st p"
      "sched_ok st s'" "s_running s' = s_running s" "ready_procs s = add_mset p (ready_procs s')" "st p \<noteq> None"
proof -
  let ?qs = "s_mlq s"
  have live: "\<forall>q \<in> set ?qs. live_queue st q" and len: "length ?qs = 140"
    using assms by (simp_all add: sched_ok_def mlq_ok_def)
  have "(\<forall>k < 140. q_elems (?qs ! k) = []) \<and> get_mlq_loop st ?qs (rev [0..MAX_PRIO - 1]) = Some (0, ?qs) \<or>
    (\<exists>l p q'. l < 140 \<and> q_elems (?qs ! l) \<noteq> [] \<and> (\<forall>k. l < k \<and> k < 140 \<longrightarrow> q_elems (?qs ! k) = []) \<and>
      dequeue st (?qs ! l) = Some (p, q') \<and> get_mlq_loop st ?qs (rev [0..MAX_PRIO - 1]) = Some (p, ?qs[l := q']))"
    using get_mlq_loop_spec [OF live, of 140] len by (simp add: MAX_PRIO_def)
  then show thesis
  proof (elim disjE exE conjE)
    assume "\<forall>k < 140. q_elems (?qs ! k) = []" "get_mlq_loop st ?qs (rev [0..MAX_PRIO - 1]) = Some (0, ?qs)"
    then show thesis by (intro empty) (simp_all add: level_def get_proc_def get_mlq_proc_def)
  next
    fix l p q'
    assume l: "l < 140" "q_elems (?qs ! l) \<noteq> []" and hi: "\<forall>k. l < k \<and> k < 140 \<longrightarrow> q_elems (?qs ! k) = []"
      and d: "dequeue st (?qs ! l) = Some (p, q')"
      and g: "get_mlq_loop st ?qs (rev [0..MAX_PRIO - 1]) = Some (p, ?qs[l := q'])"
    have live_l: "live_queue st (?qs ! l)" using live l(1) len by simp
    from dequeue_spec [OF live_l l(2)] d obtain xs ys where
      q': "q_elems (?qs ! l) = xs @ p # ys" "q_elems q' = xs @ ys" "live_queue st q'"
      "\<forall>y \<in> set xs. proc_key st y < proc_key st p" "\<forall>y \<in> set ys. proc_key st y \<le> proc_key st p" by auto
    let ?s = "s\<lparr>s_mlq := ?qs[l := q']\<rparr>"
    have "sched_ok st ?s"
      using assms q'(3) by (auto simp: sched_ok_def mlq_ok_def dest: set_update_subset_insert [THEN subsetD])
    moreover have "ready_procs s = add_mset p (ready_procs ?s)"
      using mset_concat_upd [of l ?qs q_elems q'] l(1) len q'(1,2) by (simp add: ready_procs_def)
    moreover have "st p \<noteq> None" using live_l q'(1) by (simp add: live_queue_def)
    ultimately show thesis
      using l hi g q' len by (intro found [of l xs p ys ?s]) (auto simp: level_def get_proc_def get_mlq_proc_def)
  qed
qed

text \<open>What the two ways of adding a process do to a state.\<close>

lemma live_queue_upd: "live_queue st q \<Longrightarrow> live_queue (st(p \<mapsto> x)) q"
  by (simp add: live_queue_def)

lemma put_mlq_spec:
  assumes "mlq_ok st (s_mlq s)" "st p = Some x" "uint (prio x) < 140" "l = nat (uint (prio x))"
  shows "\<exists>s'. put_mlq_proc st s p = Some s' \<and> mlq_ok st (s_mlq s') \<and> s_running s' = s_running s \<and>
    level s' l = (if length (level s l) < 10 then level s l @ [p] else level s l) \<and>
    (\<forall>k. k \<noteq> l \<longrightarrow> level s' k = level s k) \<and>
    ready_procs s' = (if length (level s l) < 10 then add_mset p (ready_procs s) else ready_procs s)"
proof -
  let ?qs = "s_mlq s"
  have l: "int l = uint (prio x)" "length ?qs = 140" using assms by (auto simp: mlq_ok_def)
  then have l140: "l < 140" using assms(3) by linarith
  with l have live: "live_queue st (?qs ! l)" using assms(1) by (simp add: mlq_ok_def)
  then obtain q' where q': "enqueue (?qs ! l) p = Some q'" "live_queue st q'"
    "q_elems q' = (if length (level s l) < 10 then level s l @ [p] else level s l)"
    using enqueue_live [OF live, of p] assms(2) by (auto simp: level_def)
  have acc: "arr_get ?qs (uint (prio x)) = Some (?qs ! l)"
    "arr_set ?qs (uint (prio x)) q' = Some (?qs[l := q'])"
    unfolding l(1) [symmetric] using l(2) l140 by (simp_all add: arr_get_in arr_set_in)
  let ?s = "s\<lparr>s_mlq := ?qs[l := q']\<rparr>"
  have "put_mlq_proc st s p = Some ?s"
    using assms(2) q'(1) acc by (simp add: put_mlq_proc_def)
  moreover have "mlq_ok st (s_mlq ?s)"
    using assms(1) q'(2) by (auto simp: mlq_ok_def dest: set_update_subset_insert [THEN subsetD])
  moreover have "ready_procs ?s = (if length (level s l) < 10 then add_mset p (ready_procs s) else ready_procs s)"
    using mset_concat_upd [of l ?qs q_elems q'] l l140 q'(3) by (simp add: ready_procs_def level_def split: if_splits)
  ultimately show ?thesis using l l140 q'(3) by (intro exI [of _ ?s]) (auto simp: level_def)
qed

lemma put_proc_spec:
  assumes "sched_ok st s" "st p = Some x" "uint (prio x) < 140" "l = nat (uint (prio x))"
  shows "\<exists>s'. put_proc st s p = Some (st(p \<mapsto> link_queues x), s') \<and> sched_ok (st(p \<mapsto> link_queues x)) s' \<and>
    level s' l = (if length (level s l) < 10 then level s l @ [p] else level s l) \<and>
    (\<forall>k. k \<noteq> l \<longrightarrow> level s' k = level s k) \<and>
    ready_procs s' = (if length (level s l) < 10 then add_mset p (ready_procs s) else ready_procs s) \<and>
    q_elems (s_running s') = (if length (q_elems (s_running s)) < 10
      then q_elems (s_running s) @ [p] else q_elems (s_running s))"
proof -
  let ?st = "st(p \<mapsto> link_queues x)"
  obtain rl where rl: "enqueue (s_running s) p = Some rl" "queue_ok rl"
    "q_elems rl = (if length (q_elems (s_running s)) < 10
      then q_elems (s_running s) @ [p] else q_elems (s_running s))"
    using enqueue_total [of "s_running s" p] assms(1) by (auto simp: sched_ok_def)
  let ?s = "s\<lparr>s_running := rl\<rparr>"
  have "mlq_ok ?st (s_mlq ?s)" using assms(1) by (auto simp: sched_ok_def mlq_ok_def live_queue_upd)
  moreover have "prio (link_queues x) = prio x" by (simp add: link_queues_def)
  ultimately obtain s' where "put_mlq_proc ?st ?s p = Some s'" "mlq_ok ?st (s_mlq s')" "s_running s' = rl"
    "level s' l = (if length (level ?s l) < 10 then level ?s l @ [p] else level ?s l)"
    "\<forall>k. k \<noteq> l \<longrightarrow> level s' k = level ?s k"
    "ready_procs s' = (if length (level ?s l) < 10 then add_mset p (ready_procs ?s) else ready_procs ?s)"
    using put_mlq_spec [of ?st ?s p "link_queues x" l] assms(3,4) by auto
  moreover have "level ?s k = level s k" "ready_procs ?s = ready_procs s" for k
    by (simp_all add: level_def ready_procs_def)
  ultimately show ?thesis
    using assms(2) rl by (intro exI [of _ s']) (simp add: put_proc_def sched_ok_def)
qed

lemma add_proc_eq_put_proc: "add_proc st s p = put_proc st s p"
  by (simp add: add_proc_def put_proc_def add_mlq_proc_def put_mlq_proc_def)

subsection \<open>The scheduler as a pool of runnable processes\<close>

type_synonym sched_state = "pcbs \<times> sched"

definition ss_ok :: "sched_state \<Rightarrow> bool" where
  "ss_ok x \<longleftrightarrow> sched_ok (fst x) (snd x) \<and> fst x 0 = None"

definition ss_fetch :: "sched_state \<Rightarrow> (pcb_ptr \<times> sched_state) option" where
  "ss_fetch x = (case get_proc (fst x) (snd x) of
     Some (p, s') \<Rightarrow> if p = 0 then None else Some (p, fst x, s') | None \<Rightarrow> None)"

definition ss_put :: "pcb_ptr \<Rightarrow> sched_state \<Rightarrow> sched_state" where
  "ss_put p x = (case put_proc (fst x) (snd x) p of Some y \<Rightarrow> y | None \<Rightarrow> x)"

definition ss_fits :: "pcb_ptr \<Rightarrow> sched_state \<Rightarrow> bool" where
  "ss_fits p x \<longleftrightarrow> (\<exists>y. fst x p = Some y \<and> uint (prio y) < 140)"

lemma get_proc_None_iff:
  assumes "sched_ok st s" "st 0 = None" "get_proc st s = Some (p, s')"
  shows "p = 0 \<longleftrightarrow> ready_procs s = {#}"
proof -
  have len: "length (s_mlq s) = 140" using assms(1) by (simp add: sched_ok_def mlq_ok_def)
  show ?thesis
    using assms(1)
  proof (cases rule: get_proc_cases)
    case empty
    then have "ready_procs s = {#}" by (simp add: ready_empty_iff len)
    with empty assms(3) show ?thesis by simp
  next
    case (found l xs q ys s'')
    with assms(2,3) show ?thesis by auto
  qed
qed

interpretation sched_pool: ready_pool ss_fetch ss_put "\<lambda>x. ready_procs (snd x)" ss_ok ss_fits
proof
  fix x :: sched_state and p x'
  assume x: "ss_ok x"
  then have ok: "sched_ok (fst x) (snd x)" and null: "fst x 0 = None" by (simp_all add: ss_ok_def)
  obtain q s' where g: "get_proc (fst x) (snd x) = Some (q, s')"
    using ok by (cases rule: get_proc_cases) auto
  show "ss_fetch x = None \<longleftrightarrow> ready_procs (snd x) = {#}"
    using get_proc_None_iff [OF ok null g] g by (simp add: ss_fetch_def)
  show "ss_fetch x = Some (p, x') \<Longrightarrow> ready_procs (snd x) = add_mset p (ready_procs (snd x')) \<and> ss_ok x'"
    using ok by (cases rule: get_proc_cases) (use null g in \<open>auto simp: ss_fetch_def ss_ok_def split: if_splits\<close>)
  assume "ss_fits p x"
  then obtain y where y: "fst x p = Some y" "uint (prio y) < 140" by (auto simp: ss_fits_def)
  have "p \<noteq> 0" using y(1) null by (intro notI) simp
  obtain s' where "put_proc (fst x) (snd x) p = Some ((fst x)(p \<mapsto> link_queues y), s')"
    "sched_ok ((fst x)(p \<mapsto> link_queues y)) s'"
    "ready_procs s' = add_mset p (ready_procs (snd x)) \<or> ready_procs s' = ready_procs (snd x)"
    using put_proc_spec [OF ok y refl] by metis
  with null \<open>p \<noteq> 0\<close>
  show "ss_ok (ss_put p x) \<and> (ready_procs (snd (ss_put p x)) = add_mset p (ready_procs (snd x)) \<or>
      ready_procs (snd (ss_put p x)) = ready_procs (snd x))"
    by (simp add: ss_ok_def ss_put_def)
qed

subsection \<open>What the scheduler promises\<close>

text \<open>
  C28. \<open>get_proc\<close> on a well-formed scheduler: it returns; it gives a null pointer exactly when no
  process is ready; otherwise the process comes from the highest non-empty level and is the first of
  highest \<open>priority\<close> there, it is taken out of that level, and every other level is untouched.
  The highest level is the one with the highest number, in the code (the scan from \<open>MAX_PRIO - 1\<close> down)
  and in the comments of \<open>sched.c\<close> and \<open>queue.c\<close>. The recorded runs in \<open>src/output\<close> show the opposite
  order: in \<open>sched_0.output\<close> the process of \<open>PRIO\<close> 4 is put back in slot 5 and the one of \<open>PRIO\<close> 0 gets the CPU.
\<close>

theorem get_proc_strict_priority:
  assumes "sched_ok st s" "st 0 = None"
  shows "\<exists>p s'. get_proc st s = Some (p, s') \<and> sched_ok st s' \<and> (p = 0 \<longleftrightarrow> ready_procs s = {#}) \<and>
    (p \<noteq> 0 \<longrightarrow> (\<exists>l xs ys. l < 140 \<and> level s l = xs @ p # ys \<and> level s' l = xs @ ys \<and>
      (\<forall>k. l < k \<and> k < 140 \<longrightarrow> level s k = []) \<and> (\<forall>k. k \<noteq> l \<longrightarrow> level s' k = level s k) \<and>
      (\<forall>y \<in> set xs. proc_key st y < proc_key st p) \<and> (\<forall>y \<in> set ys. proc_key st y \<le> proc_key st p)))"
  using assms(1)
proof (cases rule: get_proc_cases)
  case empty
  with get_proc_None_iff [OF assms empty(2)] assms(1) show ?thesis by auto
next
  case (found l xs p ys s')
  with get_proc_None_iff [OF assms found(4)] show ?thesis by (intro exI [of _ p] exI [of _ s']) blast
qed

text \<open>
  \<open>put_proc\<close> sets the queue pointers of the process and appends it to the level given by its
  \<open>prio\<close> and to \<open>running_list\<close>; a list that already holds 10 processes drops it silently. A process
  whose level is full is in no ready queue afterwards and never runs again.
\<close>

lemma put_proc_places:
  assumes "sched_ok st s" "st p = Some x" "uint (prio x) < MAX_PRIO"
  shows "\<exists>s'. put_proc st s p = Some (st(p \<mapsto> link_queues x), s') \<and>
    sched_ok (st(p \<mapsto> link_queues x)) s' \<and>
    (\<forall>k. level s' k = (if k = nat (uint (prio x)) \<and> length (level s k) < 10 then level s k @ [p] else level s k)) \<and>
    ready_procs s' = (if length (level s (nat (uint (prio x)))) < 10
      then add_mset p (ready_procs s) else ready_procs s) \<and>
    q_elems (s_running s') = (if length (q_elems (s_running s)) < 10
      then q_elems (s_running s) @ [p] else q_elems (s_running s))"
proof -
  let ?l = "nat (uint (prio x))"
  from put_proc_spec [OF assms(1,2) _ refl] assms(3) obtain s' where
    s': "put_proc st s p = Some (st(p \<mapsto> link_queues x), s')" "sched_ok (st(p \<mapsto> link_queues x)) s'"
      "level s' ?l = (if length (level s ?l) < 10 then level s ?l @ [p] else level s ?l)"
      "\<forall>k. k \<noteq> ?l \<longrightarrow> level s' k = level s k"
      "ready_procs s' = (if length (level s ?l) < 10 then add_mset p (ready_procs s) else ready_procs s)"
      "q_elems (s_running s') = (if length (q_elems (s_running s)) < 10
        then q_elems (s_running s) @ [p] else q_elems (s_running s))"
    unfolding MAX_PRIO_def by blast
  have "level s' k = (if k = ?l \<and> length (level s k) < 10 then level s k @ [p] else level s k)" for k
    using s'(3,4) by (cases "k = ?l") simp_all
  with s' show ?thesis by blast
qed

text \<open>A process that is alone above every other ready process, once put back, is the one that is picked.\<close>

lemma put_get_alone:
  assumes "sched_ok st s" "st p = Some x" "uint (prio x) < MAX_PRIO" "st 0 = None"
    and "\<forall>k. uint (prio x) \<le> int k \<and> k < 140 \<longrightarrow> level s k = []"
  shows "\<exists>s' s''. put_proc st s p = Some (st(p \<mapsto> link_queues x), s') \<and>
    get_proc (st(p \<mapsto> link_queues x)) s' = Some (p, s'') \<and> sched_ok (st(p \<mapsto> link_queues x)) s'' \<and>
    (\<forall>k. level s'' k = level s k) \<and> ready_procs s'' = ready_procs s"
proof -
  let ?l = "nat (uint (prio x))" and ?st = "st(p \<mapsto> link_queues x)"
  have l: "uint (prio x) < 140" "int ?l = uint (prio x)" using assms(3) by (simp_all add: MAX_PRIO_def)
  then have l140: "?l < 140" by linarith
  have empty_l: "level s ?l = []" using assms(5) [rule_format, of ?l] l(2) l140 by linarith
  from put_proc_spec [OF assms(1,2) l(1) refl] empty_l obtain s' where
    s': "put_proc st s p = Some (?st, s')" "sched_ok ?st s'" "level s' ?l = [p]"
      "\<forall>k. k \<noteq> ?l \<longrightarrow> level s' k = level s k" "ready_procs s' = add_mset p (ready_procs s)" by auto
  have hi: "level s' k = []" if "?l < k" "k < 140" for k
  proof -
    have "uint (prio x) \<le> int k" using that(1) l(2) by linarith
    with assms(5) that(2) have "level s k = []" by blast
    with s'(4) that(1) show ?thesis by simp
  qed
  from s'(2) show ?thesis
  proof (cases rule: get_proc_cases)
    case empty
    with s'(3) l140 show ?thesis by auto
  next
    case (found m xs q ys s'')
    have "m = ?l"
    proof (rule linorder_cases [of m ?l])
      assume "m < ?l"
      with found(3) l140 s'(3) show ?thesis by simp
    next
      assume "?l < m"
      with hi found(1,2) show ?thesis by simp
    qed
    with found(2) s'(3) have "xs @ q # ys = [p]" by simp
    then have "xs = [] \<and> q = p \<and> ys = []" by (cases xs) simp_all
    with found(5) \<open>m = ?l\<close> have "q = p" "level s'' ?l = []" by simp_all
    moreover have "level s'' k = level s k" for k
      using \<open>m = ?l\<close> calculation found(6) s'(4) empty_l by (cases "k = ?l") simp_all
    ultimately show ?thesis using s'(1,5) found(4,9,11) by auto
  qed
qed

text \<open>
  What one CPU and the loader do to the scheduler while the process \<open>p\<close> uses up one slice after the other:
  in each round the loader adds the processes that have arrived, then the CPU puts \<open>p\<close> back and takes what
  \<open>get_proc\<close> gives. The result lists what the CPU got in each round.
\<close>

fun arrive :: "pcb_ptr list \<Rightarrow> pcbs \<Rightarrow> sched \<Rightarrow> (pcbs \<times> sched) option" where
  "arrive [] st s = Some (st, s)"
| "arrive (q # qs) st s = do { (st', s') \<leftarrow> add_proc st s q; arrive qs st' s' }"

fun slices :: "pcb_ptr \<Rightarrow> pcb_ptr list list \<Rightarrow> pcbs \<Rightarrow> sched \<Rightarrow> (pcb_ptr list \<times> pcbs \<times> sched) option" where
  "slices p [] st s = Some ([], st, s)"
| "slices p (new # news) st s = do {
     (st1, s1) \<leftarrow> arrive new st s;
     (st2, s2) \<leftarrow> put_proc st1 s1 p;
     (q, s3) \<leftarrow> get_proc st2 s2;
     (qs, r) \<leftarrow> slices p news st2 s3;
     Some (q # qs, r)
   }"

definition level_of :: "pcbs \<Rightarrow> pcb_ptr \<Rightarrow> nat option" where
  "level_of st p = map_option (\<lambda>x. unat (prio x)) (st p)"

lemma level_of_link:
  "st p = Some x \<Longrightarrow> level_of (st(p \<mapsto> link_queues x)) = level_of st"
  by (auto simp: level_of_def link_queues_def)

lemma level_length: "sched_ok st s \<Longrightarrow> l < 140 \<Longrightarrow> length (level s l) \<le> 10"
  by (simp add: sched_ok_def mlq_ok_def live_queue_def queue_ok_def level_def q_elems_def)

lemma take_again: "take n (take n xs @ ys) = take n (xs @ ys)"
  by (cases "length xs \<le> n") (simp_all add: min_def)

lemma take_room:
  "length xs \<le> n \<Longrightarrow> take n ((if length xs < n then xs @ [q] else xs) @ ys) = take n (xs @ q # ys)"
  by (simp add: take_Cons')

text \<open>Arrivals: each level takes the new processes of its number in order, up to its ten places.\<close>

lemma arrive_spec:
  assumes "sched_ok st s" "\<forall>q \<in> set qs. \<exists>l < 140. level_of st q = Some l"
  shows "\<exists>st' s'. arrive qs st s = Some (st', s') \<and> sched_ok st' s' \<and> level_of st' = level_of st \<and>
    (\<forall>l < 140. level s' l = take 10 (level s l @ filter (\<lambda>q. level_of st q = Some l) qs))"
  using assms
proof (induction qs arbitrary: st s)
  case Nil
  then show ?case using level_length by simp
next
  case (Cons q qs)
  then obtain x where q: "st q = Some x" "unat (prio x) < 140" by (auto simp: level_of_def)
  then have x: "st q = Some x" "uint (prio x) < 140" using of_nat_unat [of "prio x", where 'a = int] by linarith+
  let ?l = "nat (uint (prio x))" and ?st = "st(q \<mapsto> link_queues x)"
  from put_proc_spec [OF Cons.prems(1) x refl] obtain s1 where s1:
    "add_proc st s q = Some (?st, s1)" "sched_ok ?st s1"
    "level s1 ?l = (if length (level s ?l) < 10 then level s ?l @ [q] else level s ?l)"
    "\<forall>k. k \<noteq> ?l \<longrightarrow> level s1 k = level s k" by (auto simp: add_proc_eq_put_proc)
  have lv: "level_of ?st = level_of st" using x(1) by (rule level_of_link)
  have "\<forall>q \<in> set qs. \<exists>l < 140. level_of ?st q = Some l" unfolding lv using Cons.prems(2) by simp
  from Cons.IH [OF s1(2) this] obtain st' s' where r:
    "arrive qs ?st s1 = Some (st', s')" "sched_ok st' s'" "level_of st' = level_of st"
    "\<forall>l < 140. level s' l = take 10 (level s1 l @ filter (\<lambda>q. level_of st q = Some l) qs)"
    unfolding lv by blast
  have "level s' l = take 10 (level s l @ filter (\<lambda>q. level_of st q = Some l) (q # qs))" if "l < 140" for l
  proof (cases "l = ?l")
    case True
    then have "level_of st q = Some l" using x(1) by (simp add: level_of_def)
    moreover have "level s1 l = (if length (level s l) < 10 then level s l @ [q] else level s l)"
      unfolding True by (rule s1(3))
    ultimately show ?thesis
      using r(4) that take_room [OF level_length [OF Cons.prems(1) that]] by (simp only: filter.simps simp_thms if_True)
  next
    case False
    then show ?thesis using r(4) that s1(4) x(1) by (simp add: level_of_def)
  qed
  with r(1-3) s1(1) show ?case by simp
qed

text \<open>
  C31. The number of time slots a level may use (\<open>slot\<close>) is never consulted. However many slices go by, and
  whatever processes of lower levels arrive in the meantime: a process that is alone above all others
  gets the CPU again in every round, and none of the others, ready or new, is ever picked; each level only
  grows by its arrivals, as long as it has room. So lower levels starve. \<open>sched_0.output\<close> records a run of an
  input on which this happens, with the other order of levels (see above).
\<close>

theorem higher_level_starves:
  assumes "sched_ok st s" "st p = Some x" "uint (prio x) < MAX_PRIO" "st 0 = None"
    and "\<forall>k. uint (prio x) \<le> int k \<and> k < 140 \<longrightarrow> level s k = []"
    and "\<forall>q \<in> set (concat news). \<exists>l. level_of st q = Some l \<and> int l < uint (prio x)"
  shows "\<exists>st' s'. slices p news st s = Some (replicate (length news) p, st', s') \<and> sched_ok st' s' \<and>
    (\<forall>l < 140. level s' l = take 10 (level s l @ filter (\<lambda>q. level_of st q = Some l) (concat news)))"
  using assms
proof (induction news arbitrary: st s x)
  case Nil
  then show ?case using level_length by simp
next
  case (Cons new news)
  let ?pr = "uint (prio x)"
  have pr: "?pr < 140" using Cons.prems(3) by (simp add: MAX_PRIO_def)
  have "\<forall>q \<in> set new. \<exists>l < 140. level_of st q = Some l"
  proof
    fix q assume "q \<in> set new"
    with Cons.prems(6) obtain l where "level_of st q = Some l" "int l < ?pr" by auto
    with pr show "\<exists>l < 140. level_of st q = Some l" by (intro exI [of _ l]) simp
  qed
  from arrive_spec [OF Cons.prems(1) this] obtain st1 s1 where a: "arrive new st s = Some (st1, s1)" "sched_ok st1 s1"
    "level_of st1 = level_of st"
    "\<forall>l < 140. level s1 l = take 10 (level s l @ filter (\<lambda>q. level_of st q = Some l) new)" by blast
  have "level_of st1 p = Some (unat (prio x))" using a(3) Cons.prems(2) by (simp add: level_of_def)
  then obtain y where y: "st1 p = Some y" "unat (prio y) = unat (prio x)" by (auto simp: level_of_def)
  then have y_pr: "uint (prio y) = ?pr" by (simp only: word_unat_eq_iff [symmetric])
  have null: "st1 0 = None" using Cons.prems(4) fun_cong [OF a(3), of 0] by (simp add: level_of_def)
  have "level s1 k = []" if k: "?pr \<le> int k" "k < 140" for k
  proof -
    have "level_of st q \<noteq> Some k" if "q \<in> set new" for q
    proof
      assume "level_of st q = Some k"
      then have "int k < ?pr" using Cons.prems(6) that by (metis UnCI concat.simps(2) option.inject set_append)
      with k(1) show False by simp
    qed
    then have "filter (\<lambda>q. level_of st q = Some k) new = []" by (simp add: filter_empty_conv)
    moreover have "level s k = []" using Cons.prems(5) k by blast
    ultimately show ?thesis using a(4) k(2) by simp
  qed
  then have top: "\<forall>k. uint (prio y) \<le> int k \<and> k < 140 \<longrightarrow> level s1 k = []" unfolding y_pr by blast
  let ?st = "st1(p \<mapsto> link_queues y)"
  from put_get_alone [OF a(2) y(1) _ null top] Cons.prems(3) y_pr obtain s2 s3 where
    g: "put_proc st1 s1 p = Some (?st, s2)" "get_proc ?st s2 = Some (p, s3)" "sched_ok ?st s3" "\<forall>k. level s3 k = level s1 k" by auto
  have lv: "level_of ?st = level_of st" using level_of_link [of st1 p y] y(1) a(3) by simp
  have "?st p = Some (link_queues y)" "uint (prio (link_queues y)) = ?pr" "?st 0 = None"
    using null y(1) y_pr by (cases "p = 0"; simp add: link_queues_def)+
  moreover have "\<forall>k. uint (prio (link_queues y)) \<le> int k \<and> k < 140 \<longrightarrow> level s3 k = []"
    using top y_pr g(4) calculation(2) by simp
  moreover have "\<forall>q \<in> set (concat news). \<exists>l. level_of ?st q = Some l \<and> int l < uint (prio (link_queues y))"
    unfolding lv calculation(2) using Cons.prems(6) by simp
  ultimately obtain st' s' where
    r: "slices p news ?st s3 = Some (replicate (length news) p, st', s')" "sched_ok st' s'"
    "\<forall>l < 140. level s' l = take 10 (level s3 l @ filter (\<lambda>q. level_of st q = Some l) (concat news))"
    using Cons.IH [OF g(3), of "link_queues y"] Cons.prems(3) unfolding lv by metis
  have "level s' l = take 10 (level s l @ filter (\<lambda>q. level_of st q = Some l) (concat (new # news)))" if "l < 140" for l
    using a(4) r(3) g(4) that by (simp only: concat.simps filter_append append_assoc [symmetric] take_again)
  with a(1) g(1,2) r(1,2) show ?case by simp
qed

subsection \<open>Start-up and the emptiness test\<close>

lemma upto_140: "[0..MAX_PRIO - 1] = map int [0..<140]"
  by (rule nth_equalityI) (simp_all add: MAX_PRIO_def)

lemma init_mlq_loop_spec:
  assumes "distinct ks" "\<forall>k \<in> set ks. k < 140" "length qs = 140" "length sl = 140"
  shows "\<exists>qs' sl'. init_mlq_loop qs sl (map int ks) = Some (qs', sl') \<and> length qs' = 140 \<and>
    (\<forall>k < 140. qs' ! k = (if k \<in> set ks then (qs ! k)\<lparr>q_size := 0\<rparr> else qs ! k)) \<and>
    (\<forall>k < 140. sl' ! k = (if k \<in> set ks then 140 - int k else sl ! k))"
  using assms
proof (induction ks arbitrary: qs sl)
  case Nil
  then show ?case by auto
next
  case (Cons i ks)
  let ?qs = "qs[i := (qs ! i)\<lparr>q_size := 0\<rparr>]" and ?sl = "sl[i := 140 - int i]"
  have i: "i < 140" "c_ret (MAX_PRIO - int i) = Some (140 - int i)"
    using Cons.prems(2) by (simp_all add: MAX_PRIO_def c_ret_def is_cint_def)
  then have step: "init_mlq_loop qs sl (map int (i # ks)) = init_mlq_loop ?qs ?sl (map int ks)"
    using Cons.prems(3,4) by (simp add: arr_get_in arr_set_in)
  obtain qs' sl' where r: "init_mlq_loop ?qs ?sl (map int ks) = Some (qs', sl')" "length qs' = 140"
    "\<forall>k < 140. qs' ! k = (if k \<in> set ks then (?qs ! k)\<lparr>q_size := 0\<rparr> else ?qs ! k)"
    "\<forall>k < 140. sl' ! k = (if k \<in> set ks then 140 - int k else ?sl ! k)"
    using Cons.IH [of ?qs ?sl] Cons.prems by auto
  have "qs' ! k = (if k \<in> set (i # ks) then (qs ! k)\<lparr>q_size := 0\<rparr> else qs ! k)"
    "sl' ! k = (if k \<in> set (i # ks) then 140 - int k else sl ! k)" if "k < 140" for k
    using r(3,4) that Cons.prems(1,3,4) by (cases "k = i"; simp)+
  with step r(1,2) show ?case by auto
qed

lemma queue_empty_loop_spec:
  "mlq_ok st qs \<Longrightarrow> \<forall>k \<in> set ks. k < 140 \<Longrightarrow>
   queue_empty_loop qs (map int ks) = Some (\<exists>k \<in> set ks. q_elems (qs ! k) \<noteq> [])"
proof (induction ks)
  case (Cons i ks)
  then have "arr_get qs (int i) = Some (qs ! i)" "queue_ok (qs ! i)"
    by (simp_all add: mlq_ok_def arr_get_in live_queue_def)
  with Cons show ?case by (simp add: empty_q_iff)
qed simp

lemma queue_empty_eq:
  assumes "sched_ok st s" "q_size (s_ready s) = 0" "q_size (s_run s) = 0"
  shows "queue_empty s = Some (if ready_procs s = {#} then 1 else -1)"
proof -
  have ok: "mlq_ok st (s_mlq s)" "length (s_mlq s) = 140"
    using assms(1) by (simp_all add: sched_ok_def mlq_ok_def)
  have "queue_empty_loop (s_mlq s) [0..MAX_PRIO - 1] = Some (ready_procs s \<noteq> {#})"
    using queue_empty_loop_spec [OF ok(1), of "[0..<140]"] ok(2)
    by (simp add: upto_140 ready_empty_iff level_def) (metis atLeastLessThan_iff le0)
  with assms(2,3) show ?thesis by (simp add: queue_empty_def empty_q_def)
qed

text \<open>
  \<open>queue_empty\<close> while the two unused queues are empty: it returns 1 when no process is ready and
  -1 when one is. Both are true in C, so a caller that tests the result sees an empty scheduler.
\<close>

lemma queue_empty_never_false:
  assumes "sched_ok st s" "q_size (s_ready s) = 0" "q_size (s_run s) = 0"
  shows "\<exists>r. queue_empty s = Some r \<and> r \<noteq> 0 \<and> (r = 1 \<longleftrightarrow> (\<forall>l < 140. level s l = [])) \<and>
    (r = -1 \<longleftrightarrow> (\<exists>l < 140. level s l \<noteq> []))"
proof -
  have "length (s_mlq s) = 140" using assms(1) by (simp add: sched_ok_def mlq_ok_def)
  with queue_empty_eq [OF assms] show ?thesis by (auto simp: ready_empty_iff)
qed

lemma init_scheduler_spec:
  assumes "length (s_mlq s) = 140" "\<forall>q \<in> set (s_mlq s). length (q_proc q) = 10"
    and "length (s_slot s) = 140" "length (q_proc (s_running s)) = 10"
  shows "\<exists>s'. init_scheduler s = Some s' \<and> sched_ok st s' \<and> (\<forall>l < 140. level s' l = []) \<and>
    q_size (s_ready s') = 0 \<and> q_size (s_run s') = 0 \<and> q_elems (s_running s') = [] \<and>
    (\<forall>l < 140. s_slot s' ! l = 140 - int l)"
proof -
  obtain qs sl where r: "init_mlq_loop (s_mlq s) (s_slot s) [0..MAX_PRIO - 1] = Some (qs, sl)"
    "length qs = 140" "\<forall>k < 140. qs ! k = (s_mlq s ! k)\<lparr>q_size := 0\<rparr>" "\<forall>k < 140. sl ! k = 140 - int k"
    using init_mlq_loop_spec [of "[0..<140]" "s_mlq s" "s_slot s"] assms(1,3) by (auto simp: upto_140)
  have "\<forall>k < 140. length (q_proc (s_mlq s ! k)) = 10" using assms(1,2) by simp
  with r(2,3) have "\<forall>q \<in> set qs. live_queue st q \<and> q_elems q = []"
    by (auto simp: in_set_conv_nth live_queue_def queue_ok_def q_elems_def)
  then show ?thesis
    using r assms(4) by (auto simp: init_scheduler_def sched_ok_def mlq_ok_def level_def queue_ok_def q_elems_def)
qed

subsection \<open>A scheduler with two processes\<close>

definition blank_sched :: sched where
  "blank_sched = \<lparr>s_ready = queue_of [], s_run = queue_of [], s_running = queue_of [],
     s_mlq = replicate 140 (queue_of []), s_slot = replicate 140 0\<rparr>"

definition two_levels :: sched where
  "two_levels = blank_sched\<lparr>s_mlq := (replicate 140 (queue_of []))[3 := queue_of [3], 1 := queue_of [1]]\<rparr>"

lemma two_levels_level:
  "k < 140 \<Longrightarrow> level two_levels k = (if k = 1 then [1] else if k = 3 then [3] else [])"
  by (simp add: level_def two_levels_def blank_sched_def nth_list_update)

lemma two_levels_ok: "sched_ok three_procs two_levels" "q_size (s_ready two_levels) = 0" "q_size (s_run two_levels) = 0"
proof -
  have "live_queue three_procs q" if "q \<in> set (s_mlq two_levels)" for q
  proof -
    have "q = queue_of [] \<or> q = queue_of [3] \<or> q = queue_of [1]"
      using that by (auto simp: two_levels_def dest!: set_update_subset_insert [THEN subsetD])
    then show ?thesis by (auto simp: live_queue_def three_procs_def)
  qed
  then show "sched_ok three_procs two_levels"
    by (simp add: sched_ok_def mlq_ok_def) (simp add: two_levels_def blank_sched_def)
qed (simp_all add: two_levels_def blank_sched_def queue_of_def)

lemma three_procs_simps [simp]:
  "three_procs 0 = None" "three_procs 2 = Some (proc_of 2)" "three_procs 3 = Some (proc_of 3)"
  "uint (prio (proc_of 2)) = 2" "uint (prio (proc_of 3)) = 3"
  by (simp_all add: three_procs_def proc_of_def)

theorem get_proc_strict_priority_witness:
  "\<exists>s'. get_proc three_procs two_levels = Some (3, s') \<and> level s' 3 = [] \<and> level s' 1 = [1]"
proof -
  have "ready_procs two_levels \<noteq> {#}"
    using ready_level [of 3 two_levels 3] two_levels_level [of 3] two_levels_ok(1)
    by (auto simp: sched_ok_def mlq_ok_def)
  with get_proc_strict_priority [OF two_levels_ok(1)] obtain p s' l xs ys where
    r: "get_proc three_procs two_levels = Some (p, s')" "l < 140" "level two_levels l = xs @ p # ys"
      "level s' l = xs @ ys" "\<forall>k. l < k \<and> k < 140 \<longrightarrow> level two_levels k = []"
      "\<forall>k. k \<noteq> l \<longrightarrow> level s' k = level two_levels k" by (auto 0 4)
  have "\<not> l < 3"
  proof
    assume "l < 3"
    with r(5) have "level two_levels 3 = []" by simp
    then show False using two_levels_level [of 3] by simp
  qed
  moreover have "level two_levels l \<noteq> []" using r(3) by simp
  ultimately have "l = 3" using two_levels_level [OF r(2)] by (auto split: if_splits)
  moreover from this r(3) have "xs = [] \<and> p = 3 \<and> ys = []"
    using two_levels_level [of 3] by (cases xs) simp_all
  ultimately show ?thesis using r two_levels_level [of 1] by auto
qed

lemma put_proc_places_witness:
  "\<exists>st' s'. put_proc three_procs two_levels 3 = Some (st', s') \<and> level s' 3 = [3, 3] \<and> level s' 1 = [1]"
proof -
  obtain st' s' where "put_proc three_procs two_levels 3 = Some (st', s')"
    "\<forall>k. level s' k = (if k = 3 \<and> length (level two_levels k) < 10 then level two_levels k @ [3]
       else level two_levels k)"
    using put_proc_places [OF two_levels_ok(1), of 3 "proc_of 3"] by (auto simp: MAX_PRIO_def)
  then show ?thesis using two_levels_level [of 3] two_levels_level [of 1] by simp
qed

text \<open>
  The run of \<open>src/input/sched_0\<close> on its one CPU: process 1 has \<open>prio\<close> 4 and is put back in slots 3, 5, 7 and 9;
  process 2, with \<open>prio\<close> 0, arrives in slot 4.
\<close>

definition sched_0_procs :: pcbs where
  "sched_0_procs = [1 \<mapsto> (proc_of 1)\<lparr>prio := 4\<rparr>, 2 \<mapsto> (proc_of 2)\<lparr>prio := 0\<rparr>]"

lemma blank_sched_ok: "sched_ok st blank_sched"
  by (simp add: sched_ok_def mlq_ok_def live_queue_def blank_sched_def)

lemma blank_level: "l < 140 \<Longrightarrow> level blank_sched l = []"
  by (simp add: blank_sched_def level_def)

theorem higher_level_starves_witness:
  "\<exists>st' s'. slices 1 [[], [2], [], []] sched_0_procs blank_sched = Some ([1, 1, 1, 1], st', s') \<and> level s' 0 = [2]"
proof -
  have p: "sched_0_procs 1 = Some ((proc_of 1)\<lparr>prio := 4\<rparr>)" "sched_0_procs 0 = None"
    "level_of sched_0_procs 2 = Some 0"
    by (simp_all add: sched_0_procs_def level_of_def)
  have top: "\<forall>k. uint (prio ((proc_of 1)\<lparr>prio := 4\<rparr>)) \<le> int k \<and> k < 140 \<longrightarrow> level blank_sched k = []"
    by (simp add: blank_level)
  have new: "\<forall>q \<in> set (concat [[], [2], [], []]). \<exists>l. level_of sched_0_procs q = Some l \<and>
      int l < uint (prio ((proc_of 1)\<lparr>prio := 4\<rparr>))" using p(3) by simp
  from higher_level_starves [OF blank_sched_ok p(1) _ p(2) top new] obtain st' s' where
    "slices 1 [[], [2], [], []] sched_0_procs blank_sched = Some (replicate (length [[], [2], [], [] :: nat list]) 1, st', s')"
    "level s' 0 = take 10 (level blank_sched 0 @ filter (\<lambda>q. level_of sched_0_procs q = Some 0) (concat [[], [2], [], []]))"
    by (force simp: MAX_PRIO_def simp del: slices.simps)
  then show ?thesis using p(3) by (simp add: blank_level del: slices.simps)
qed

lemma queue_empty_never_false_witness: "queue_empty two_levels = Some (-1)"
proof -
  have "\<exists>l < 140. level two_levels l \<noteq> []" using two_levels_level [of 3] by (intro exI [of _ 3]) simp
  with queue_empty_never_false [OF two_levels_ok] show ?thesis by auto
qed

end
