(* ===== verification/Killall.thy ===== *)
theory Killall
  imports Access Sched
begin

text \<open>
  The system call \<open>killall\<close> of \<open>src/sys_killall.c\<close>, and the kernel state the system calls work on:
  the process store, the scheduler and the memory devices.

  The local array \<open>proc_name\<close> is a list whose elements are \<open>None\<close> until they are assigned; reading
  an unassigned element is undefined. \<open>libread\<close> never assigns \<open>*destination\<close>, so \<open>data\<close> is still the
  0 it was set to when it is tested.
\<close>

record kernel =
  k_pcbs :: pcbs
  k_sched :: sched
  k_devs :: devs

subsection \<open>Removing processes from a queue\<close>

text \<open>The two loops end only when a queue is empty; \<open>None\<close> covers a loop that does not end.\<close>

partial_function (option) kill_loop ::
  "pcbs \<Rightarrow> string \<Rightarrow> queue_t \<Rightarrow> queue_t \<Rightarrow> (queue_t \<times> queue_t) option" where
  "kill_loop st target_name q temp =
    (if empty_q (Some q) \<noteq> 0 then Some (q, temp)
     else do {
       (proc, q') \<leftarrow> dequeue st q;
       x \<leftarrow> st proc;
       temp' \<leftarrow> (if path x = target_name then Some temp else enqueue temp proc);
       kill_loop st target_name q' temp'
     })"

partial_function (option) restore_loop :: "pcbs \<Rightarrow> queue_t \<Rightarrow> queue_t \<Rightarrow> queue_t option" where
  "restore_loop st q temp =
    (if empty_q (Some temp) \<noteq> 0 then Some q
     else do {
       (proc, temp') \<leftarrow> dequeue st temp;
       q' \<leftarrow> enqueue q proc;
       restore_loop st q' temp'
     })"

definition kill_all_in_queue :: "pcbs \<Rightarrow> queue_t \<Rightarrow> string \<Rightarrow> queue_t option" where
  "kill_all_in_queue st q target_name = do {
     let tempQueue = \<lparr>q_proc = replicate 10 0, q_size = 0\<rparr>;
     (q1, temp) \<leftarrow> kill_loop st target_name q tempQueue;
     restore_loop st q1 temp
   }"

subsection \<open>The system call\<close>

function name_loop ::
  "pcb_t \<Rightarrow> devs \<Rightarrow> u32 \<Rightarrow> u8 option list \<Rightarrow> cint \<Rightarrow> (u8 option list \<times> pcb_t \<times> devs) option" where
  "name_loop caller d memrg proc_name i = do {
     let data = (0 :: u32);
     (_, caller', d') \<leftarrow> libread caller d memrg (u32_of_int i);
     if data = -1 then do {
       buf \<leftarrow> arr_set proc_name i (Some 0);
       Some (buf, caller', d')
     }
     else do {
       buf \<leftarrow> arr_set proc_name i (Some (byte_of_u32 data));
       if i + 1 \<ge> 99 then do {
         buf' \<leftarrow> arr_set buf (i + 1) (Some 0);
         Some (buf', caller', d')
       }
       else name_loop caller' d' memrg buf (i + 1)
     }
   }"
  by pat_completeness auto
termination by (relation "measure (\<lambda>(_, _, _, _, i). nat (99 - i))") auto

declare name_loop.simps [simp del]

text \<open>The string in a \<open>char\<close> array: the bytes up to the first 0.\<close>

fun c_string :: "u8 option list \<Rightarrow> string option" where
  "c_string [] = None"
| "c_string (None # bs) = None"
| "c_string (Some b # bs) = (if b = 0 then Some []
     else map_option (\<lambda>s. char_of (unat b) # s) (c_string bs))"

text \<open>Queues reached through the pointer fields of a process.\<close>

fun kill_at :: "pcbs \<Rightarrow> sched \<Rightarrow> queue_ref \<Rightarrow> string \<Rightarrow> sched option" where
  "kill_at st s Q_null nm = Some s"
| "kill_at st s Q_wild nm = None"
| "kill_at st s Q_ready nm = do { q \<leftarrow> kill_all_in_queue st (s_ready s) nm; Some (s\<lparr>s_ready := q\<rparr>) }"
| "kill_at st s Q_running nm = do { q \<leftarrow> kill_all_in_queue st (s_running s) nm; Some (s\<lparr>s_running := q\<rparr>) }"
| "kill_at st s (Q_mlq l) nm = do {
     q0 \<leftarrow> arr_get (s_mlq s) (int l);
     q \<leftarrow> kill_all_in_queue st q0 nm;
     qs \<leftarrow> arr_set (s_mlq s) (int l) q;
     Some (s\<lparr>s_mlq := qs\<rparr>)
   }"

definition sys_killall :: "kernel \<Rightarrow> pcb_ptr \<Rightarrow> u32 \<Rightarrow> (cint \<times> kernel) option" where
  "sys_killall k caller a1 = do {
     x \<leftarrow> k_pcbs k caller;
     (buf, x', d') \<leftarrow> name_loop x (k_devs k) a1 (replicate 100 None) 0;
     proc_name \<leftarrow> c_string buf;
     let st = (k_pcbs k)(caller \<mapsto> x');
     s1 \<leftarrow> kill_at st (k_sched k) (running_list x') proc_name;
     s2 \<leftarrow> kill_at st s1 (mlq_ready_queue x') proc_name;
     Some (0, \<lparr>k_pcbs = st, k_sched = s2, k_devs = d'\<rparr>)
   }"

subsection \<open>What the queue loops do\<close>

abbreviation by_priority :: "pcbs \<Rightarrow> pcb_ptr list \<Rightarrow> pcb_ptr list" where
  "by_priority st \<equiv> sort_key (\<lambda>p. - proc_key st p)"

definition has_name :: "pcbs \<Rightarrow> string \<Rightarrow> pcb_ptr \<Rightarrow> bool" where
  "has_name st nm p = (case st p of Some x \<Rightarrow> path x = nm | None \<Rightarrow> False)"

lemma q_deq_eq:
  assumes "live_queue st q"
  shows "q_deq st q = (if q_elems q = [] then None else dequeue st q)"
  using assms empty_q_iff [of q] by (auto simp: q_deq_def live_queue_def)

lemma q_enq_eq: "enqueue q p = Some q' \<Longrightarrow> q_enq p q = q'"
  by (simp add: q_enq_def)

text \<open>Each loop is the \<open>transfer\<close> of the interface, on live queues with room.\<close>

lemma kill_loop_transfer:
  assumes "live_queue st q" "live_queue st t" "length (q_elems q) \<le> n"
    "length (q_elems t) + length (q_elems q) \<le> 10"
  shows "kill_loop st nm q t = Some (pq.transfer st n (\<lambda>p. \<not> has_name st nm p) q t)"
  using assms
proof (induction n arbitrary: q t)
  case 0
  then have "empty_q (Some q) \<noteq> 0" using empty_q_iff [of q] by (auto simp: live_queue_def)
  then show ?case by (subst kill_loop.simps) simp
next
  case (Suc n)
  show ?case
  proof (cases "q_elems q = []")
    case True
    then have "empty_q (Some q) \<noteq> 0" using empty_q_iff [of q] Suc.prems(1) by (simp add: live_queue_def)
    then show ?thesis using True Suc.prems(1) by (subst kill_loop.simps) (simp add: q_deq_eq)
  next
    case False
    then have ne: "empty_q (Some q) = 0" using empty_q_iff [of q] Suc.prems(1) by (simp add: live_queue_def)
    from dequeue_spec [OF Suc.prems(1) False] obtain xs p ys q' where
      d: "dequeue st q = Some (p, q')" "q_elems q = xs @ p # ys" "q_elems q' = xs @ ys" "live_queue st q'" by blast
    then obtain x where x: "st p = Some x" using Suc.prems(1) by (auto simp: live_queue_def)
    have room: "length (q_elems t) < 10" using Suc.prems(4) d(2) by simp
    from enqueue_live [OF Suc.prems(2), of p] x room obtain t' where
      t': "enqueue t p = Some t'" "live_queue st t'" "q_elems t' = q_elems t @ [p]" by auto
    let ?t = "if path x = nm then t else t'"
    have "kill_loop st nm q t = kill_loop st nm q' ?t"
      using ne d(1) x t'(1) by (subst kill_loop.simps) simp
    also have "\<dots> = Some (pq.transfer st n (\<lambda>p. \<not> has_name st nm p) q' ?t)"
      using Suc.prems d t' by (intro Suc.IH) auto
    finally show ?thesis
      using False Suc.prems(1) d(1) x q_enq_eq [OF t'(1)] by (simp add: q_deq_eq has_name_def)
  qed
qed

lemma restore_loop_transfer:
  assumes "live_queue st t" "live_queue st q" "length (q_elems t) \<le> n"
    "length (q_elems q) + length (q_elems t) \<le> 10"
  shows "restore_loop st q t = Some (snd (pq.transfer st n (\<lambda>p. True) t q))"
  using assms
proof (induction n arbitrary: q t)
  case 0
  then have "empty_q (Some t) \<noteq> 0" using empty_q_iff [of t] by (auto simp: live_queue_def)
  then show ?case by (subst restore_loop.simps) simp
next
  case (Suc n)
  show ?case
  proof (cases "q_elems t = []")
    case True
    then have "empty_q (Some t) \<noteq> 0" using empty_q_iff [of t] Suc.prems(1) by (simp add: live_queue_def)
    then show ?thesis using True Suc.prems(1) by (subst restore_loop.simps) (simp add: q_deq_eq)
  next
    case False
    then have ne: "empty_q (Some t) = 0" using empty_q_iff [of t] Suc.prems(1) by (simp add: live_queue_def)
    from dequeue_spec [OF Suc.prems(1) False] obtain xs p ys t' where
      d: "dequeue st t = Some (p, t')" "q_elems t = xs @ p # ys" "q_elems t' = xs @ ys" "live_queue st t'" by blast
    then have x: "st p \<noteq> None" using Suc.prems(1) by (auto simp: live_queue_def)
    have room: "length (q_elems q) < 10" using Suc.prems(4) d(2) by simp
    from enqueue_live [OF Suc.prems(2) x] room obtain q' where
      q': "enqueue q p = Some q'" "live_queue st q'" "q_elems q' = q_elems q @ [p]" by auto
    have "restore_loop st q t = restore_loop st q' t'"
      using ne d(1) q'(1) by (subst restore_loop.simps) simp
    also have "\<dots> = Some (snd (pq.transfer st n (\<lambda>p. True) t' q'))"
      using Suc.prems d q' by (intro Suc.IH) auto
    finally show ?thesis
      using False Suc.prems(1) d(1) q_enq_eq [OF q'(1)] by (simp add: q_deq_eq)
  qed
qed

lemma kill_all_in_queue_spec:
  assumes "live_queue st q"
  shows "\<exists>q'. kill_all_in_queue st q nm = Some q' \<and> live_queue st q' \<and>
    q_elems q' = by_priority st (filter (\<lambda>p. \<not> has_name st nm p) (q_elems q))"
proof -
  let ?t = "\<lparr>q_proc = replicate 10 0, q_size = 0\<rparr>" and ?P = "\<lambda>p. \<not> has_name st nm p"
  have t: "live_queue st ?t" "q_elems ?t = []" by (simp_all add: live_queue_def queue_ok_def q_elems_def)
  have len: "length (q_elems q) \<le> 10"
    using assms length_q_elems [of q] by (auto simp: live_queue_def queue_ok_def)
  obtain q1 t1 where tr: "pq.transfer st 10 ?P q ?t = (q1, t1)" by force
  from pq.transfer_elems [OF assms t(1) len _ tr] t(2) len have
    t1: "live_queue st q1" "live_queue st t1" "q_elems q1 = []" "q_elems t1 = filter ?P (by_priority st (q_elems q))"
    by simp_all
  then have len1: "length (q_elems t1) \<le> 10"
    using len length_filter_le [of ?P "by_priority st (q_elems q)"] by simp
  obtain t2 q2 where tr2: "pq.transfer st 10 (\<lambda>p. True) t1 q1 = (t2, q2)" by force
  from pq.transfer_elems [OF t1(2,1) len1 _ tr2] t1(3) len1 have
    q2: "live_queue st q2" "q_elems q2 = by_priority st (q_elems t1)" by simp_all
  have "kill_loop st nm q ?t = Some (q1, t1)"
    using kill_loop_transfer [OF assms t(1) len] t(2) len tr by simp
  moreover have "restore_loop st q1 t1 = Some q2"
    using restore_loop_transfer [OF t1(2,1) len1] t1(3) len1 tr2 by simp
  moreover have "q_elems q2 = by_priority st (filter ?P (q_elems q))"
    using q2(2) t1(4) by (simp add: filter_sort pq.by_key_idem)
  ultimately show ?thesis using q2(1) by (simp add: kill_all_in_queue_def)
qed

text \<open>On any queue: what the loops leave behind, if they end, is a well-formed queue.\<close>

lemma kill_loop_queue_ok:
  assumes "kill_loop st nm q t = Some (q', t')" "queue_ok q" "queue_ok t"
  shows "queue_ok q' \<and> queue_ok t'"
proof -
  have "queue_ok q \<longrightarrow> queue_ok t \<longrightarrow> queue_ok (fst r) \<and> queue_ok (snd r)" if "kill_loop st nm q t = Some r" for r
    using that
  proof (rule kill_loop.raw_induct [rotated], goal_cases)
    case (1 f st nm q t y)
    show ?case
    proof (intro impI)
      assume ok: "queue_ok q" "queue_ok t"
      show "queue_ok (fst y) \<and> queue_ok (snd y)"
      proof (cases "empty_q (Some q) \<noteq> 0")
        case True
        then show ?thesis using 1(2) ok by auto
      next
        case False
        with 1(2) obtain p q1 t1 where st: "dequeue st q = Some (p, q1)" "f st nm q1 t1 = Some y"
          "t1 = t \<or> enqueue t p = Some t1"
          by (auto simp: bind_eq_Some_conv split: if_splits)
        have "queue_ok t1" using st(3) ok(2) enqueue_total [OF ok(2), of p] by auto
        then show ?thesis using 1(1) [OF st(2)] dequeue_queue_ok [OF st(1) ok(1)] by simp
      qed
    qed
  qed
  from this [OF assms(1)] assms(2,3) show ?thesis by simp
qed

lemma restore_loop_queue_ok:
  assumes "restore_loop st q t = Some q'" "queue_ok q" "queue_ok t"
  shows "queue_ok q'"
proof -
  have "queue_ok q \<longrightarrow> queue_ok t \<longrightarrow> queue_ok q'"
    using assms(1)
  proof (rule restore_loop.raw_induct [rotated], goal_cases)
    case (1 f st q t y)
    show ?case
    proof (intro impI)
      assume ok: "queue_ok q" "queue_ok t"
      show "queue_ok y"
      proof (cases "empty_q (Some t) \<noteq> 0")
        case True
        then show ?thesis using 1(2) ok by auto
      next
        case False
        with 1(2) obtain p t1 q1 where st: "dequeue st t = Some (p, t1)" "enqueue q p = Some q1" "f st q1 t1 = Some y"
          by (auto simp: bind_eq_Some_conv)
        have "queue_ok q1" using st(2) enqueue_total [OF ok(1), of p] by auto
        then show ?thesis using 1(1) [OF st(3)] dequeue_queue_ok [OF st(1) ok(2)] by simp
      qed
    qed
  qed
  with assms(2,3) show ?thesis by simp
qed

lemma kill_all_in_queue_ok:
  assumes "kill_all_in_queue st q nm = Some q'" "queue_ok q"
  shows "queue_ok q'"
proof -
  have e: "queue_ok \<lparr>q_proc = replicate 10 0, q_size = 0\<rparr>" by (simp add: queue_ok_def)
  from assms(1) obtain q1 t1 where r: "kill_loop st nm q \<lparr>q_proc = replicate 10 0, q_size = 0\<rparr> = Some (q1, t1)"
    "restore_loop st q1 t1 = Some q'"
    by (auto simp: kill_all_in_queue_def bind_eq_Some_conv)
  show ?thesis using kill_loop_queue_ok [OF r(1) assms(2) e] restore_loop_queue_ok [OF r(2)] by simp
qed

lemma subseteq_mset_sum:
  assumes "a + b = c + d" "d \<subseteq># (b :: 'a multiset)"
  shows "a \<subseteq># c"
proof -
  from assms(2) obtain e where "b = d + e" by (auto simp: mset_subset_eq_exists_conv)
  with assms(1) have "(a + e) + d = c + d" by (simp add: ac_simps)
  then show ?thesis by (auto simp: mset_subset_eq_exists_conv)
qed

text \<open>Killing processes keeps the scheduler well formed, and makes no process ready.\<close>

lemma kill_at_ready:
  assumes "sched_ok st s" "kill_at st s ref nm = Some s'"
  shows "sched_ok st s' \<and> ready_procs s' \<subseteq># ready_procs s"
proof (cases ref)
  case Q_ready
  then show ?thesis using assms by (auto simp: bind_eq_Some_conv sched_ok_def ready_procs_def)
next
  case Q_running
  then show ?thesis using assms kill_all_in_queue_ok
    by (auto simp: bind_eq_Some_conv sched_ok_def ready_procs_def)
next
  case (Q_mlq l)
  with assms(2) have l: "l < length (s_mlq s)" by (auto simp: bind_eq_Some_conv arr_simps)
  with assms(1) have "live_queue st (s_mlq s ! l)" by (simp add: sched_ok_def mlq_ok_def)
  from kill_all_in_queue_spec [OF this, of nm] obtain q' where q': "kill_all_in_queue st (s_mlq s ! l) nm = Some q'"
    "live_queue st q'" "q_elems q' = by_priority st (filter (\<lambda>p. \<not> has_name st nm p) (q_elems (s_mlq s ! l)))"
    by blast
  with Q_mlq assms(2) l have s': "s' = s\<lparr>s_mlq := (s_mlq s)[l := q']\<rparr>" by (simp add: arr_get_in arr_set_in)
  have "mset (q_elems q') \<subseteq># mset (q_elems (s_mlq s ! l))" using q'(3) by (simp add: mset_filter)
  with mset_concat_upd [OF l, of q_elems q'] have "ready_procs s' \<subseteq># ready_procs s"
    unfolding ready_procs_def s' by (simp add: subseteq_mset_sum)
  moreover have "sched_ok st s'"
    using assms(1) q'(2) by (auto simp: sched_ok_def mlq_ok_def s' dest!: set_update_subset_insert [THEN subsetD])
  ultimately show ?thesis by (rule conjI [rotated])
qed (use assms in auto)

text \<open>
  C32. \<open>kill_all_in_queue\<close> on a queue of live processes: both loops end, every process whose path is
  the target name is removed and no other, and the survivors are left in order of falling
  \<open>priority\<close>, processes of equal \<open>priority\<close> in their old order.
\<close>

theorem kill_all_in_queue_survivors:
  assumes "queue_ok q" "\<forall>p \<in> set (q_elems q). st p \<noteq> None"
  shows "\<exists>q'. kill_all_in_queue st q nm = Some q' \<and> queue_ok q' \<and>
    q_elems q' = sort_key (\<lambda>p. - proc_key st p) (filter (\<lambda>p. map_option path (st p) \<noteq> Some nm) (q_elems q))"
proof -
  have "has_name st nm p \<longleftrightarrow> map_option path (st p) = Some nm" for p
    by (auto simp: has_name_def split: option.splits)
  then show ?thesis
    using kill_all_in_queue_spec [of st q nm] assms by (auto simp: live_queue_def)
qed

lemma best_loop_dead:
  "i \<in> set is \<Longrightarrow> arr_get ps i = Some x \<Longrightarrow> st x = None \<Longrightarrow> best_loop st ps b is = None"
proof (induction "is" arbitrary: b)
  case (Cons j js)
  show ?case
  proof (cases "j = i")
    case True
    with Cons.prems show ?thesis by simp
  next
    case False
    with Cons have "best_loop st ps b' js = None" for b' by simp
    then show ?thesis by (auto simp: bind_eq_None_conv)
  qed
qed simp

lemma best_loop_dead_head: "is \<noteq> [] \<Longrightarrow> arr_get ps b = Some y \<Longrightarrow> st y = None \<Longrightarrow> best_loop st ps b is = None"
  by (cases "is") (auto simp: bind_eq_None_conv)

lemma dequeue_dead:
  assumes "queue_ok q" "p \<in> set (q_elems q)" "st p = None"
  shows "dequeue st q = None \<or> (\<exists>q'. dequeue st q = Some (p, q'))"
proof -
  from assms(2) obtain k where k: "k < length (q_elems q)" "q_elems q ! k = p" by (auto simp: in_set_conv_nth)
  then have n: "int k < q_size q" "length (q_proc q) = 10" "q_size q \<le> 10" "q_proc q ! k = p"
    using assms(1) length_q_elems [OF assms(1)] by (auto simp: queue_ok_def q_elems_def)
  then have get: "arr_get (q_proc q) (int k) = Some p" by (simp add: arr_get_in)
  have ne: "empty_q (Some q) = 0" using empty_q_iff [OF assms(1)] assms(2) by auto
  consider "q_size q = 1" | "1 \<le> k" "1 < q_size q" | "k = 0" "1 < q_size q" using n(1) by fastforce
  then show ?thesis
  proof cases
    case 1
    then have "k = 0" using n(1) by simp
    with 1 get n(2) ne show ?thesis by (auto simp: dequeue_def c_ret_def is_cint_def arr_get_def)
  next
    case 2
    then have "best_loop st (q_proc q) 0 [1..q_size q - 1] = None"
      using n(1) best_loop_dead [of "int k" "[1..q_size q - 1]" "q_proc q" p st 0] get assms(3) by simp
    then show ?thesis using ne by (simp add: dequeue_def)
  next
    case 3
    then have "best_loop st (q_proc q) 0 [1..q_size q - 1] = None"
      using get best_loop_dead_head [of "[1..q_size q - 1]" "q_proc q" 0 p st] assms(3) by simp
    then show ?thesis using ne by (simp add: dequeue_def)
  qed
qed

text \<open>
  A finished process is freed by its CPU but stays on \<open>running_list\<close>. As soon as a queue holds one
  pointer to a freed process, \<open>kill_all_in_queue\<close> on it reads freed memory, whatever the name.
\<close>

lemma killall_dangling_pointer:
  assumes "queue_ok q" "p \<in> set (q_elems q)" "st p = None"
  shows "kill_all_in_queue st q nm = None"
proof -
  have "empty_q (Some q) = 0" using empty_q_iff [OF assms(1)] assms(2) by auto
  with dequeue_dead [of q p st] assms have "kill_loop st nm q t = None" for t
    by (subst kill_loop.simps) auto
  then show ?thesis by (simp add: kill_all_in_queue_def)
qed

subsection \<open>What the system call kills\<close>

lemma name_loop_zero:
  assumes "\<And>j. 0 \<le> j \<Longrightarrow> j < 99 \<Longrightarrow> \<exists>r. libread c d a (u32_of_int j) = Some (r, c, d)"
    and "0 \<le> i" "i < 99" "length buf = 100"
  shows "\<exists>buf'. name_loop c d a buf i = Some (buf', c, d) \<and> length buf' = 100 \<and>
    buf' ! nat i = Some 0 \<and> (\<forall>k < nat i. buf' ! k = buf ! k)"
  using assms(2-4)
proof (induction "nat (99 - i)" arbitrary: i buf rule: less_induct)
  case less
  let ?buf = "buf[nat i := Some 0]"
  obtain r where "libread c d a (u32_of_int i) = Some (r, c, d)"
    using assms(1) less.prems by blast
  then have step: "name_loop c d a buf i =
      (if i + 1 \<ge> 99 then Some (?buf[nat (i + 1) := Some 0], c, d) else name_loop c d a ?buf (i + 1))"
    using less.prems by (subst name_loop.simps) (simp add: arr_set_in byte_of_u32_def)
  show ?case
  proof (cases "i + 1 \<ge> 99")
    case True
    then show ?thesis using step less.prems by (auto simp: nth_list_update)
  next
    case False
    then obtain buf' where r: "name_loop c d a ?buf (i + 1) = Some (buf', c, d)" "length buf' = 100"
      "\<forall>k < nat (i + 1). buf' ! k = ?buf ! k"
      using less.hyps [of "i + 1" ?buf] less.prems by auto
    have "buf' ! nat i = Some 0" "\<forall>k < nat i. buf' ! k = buf ! k"
      using r(3) less.prems by auto
    with step False r(1,2) show ?thesis by auto
  qed
qed

lemma name_is_empty:
  assumes "\<And>j. 0 \<le> j \<Longrightarrow> j < 99 \<Longrightarrow> \<exists>r. libread c d a (u32_of_int j) = Some (r, c, d)"
  shows "\<exists>buf. name_loop c d a (replicate 100 None) 0 = Some (buf, c, d) \<and> c_string buf = Some []"
proof -
  obtain buf where "name_loop c d a (replicate 100 None) 0 = Some (buf, c, d)" "length buf = 100" "buf ! 0 = Some 0"
    using name_loop_zero [OF assms, of 0 "replicate 100 None"] by auto
  then show ?thesis by (cases buf) auto
qed

text \<open>
  C33. \<open>killall\<close> kills nobody. The bytes it collects are never assigned by \<open>libread\<close>, so the name it
  looks for is always the empty string; when no process has an empty path, every process survives.
  What the call does change is the order of \<open>running_list\<close> and of ready queue 0, the only level it
  looks at: both are sorted by \<open>priority\<close>.
\<close>

theorem killall_kills_nobody:
  assumes "k_pcbs k p = Some x" "running_list x = Q_running" "mlq_ready_queue x = Q_mlq 0"
    and "\<forall>i. 0 \<le> i \<and> i < 99 \<longrightarrow>
      (\<exists>r. libread x (k_devs k) a1 (u32_of_int i) = Some (r, x, k_devs k))"
    and "sched_ok (k_pcbs k) (k_sched k)" "live_queue (k_pcbs k) (s_running (k_sched k))"
    and "\<forall>q y. k_pcbs k q = Some y \<longrightarrow> path y \<noteq> []"
  shows "\<exists>s'. sys_killall k p a1 = Some (0, k\<lparr>k_sched := s'\<rparr>) \<and>
    q_elems (s_running s') = sort_key (\<lambda>p. - proc_key (k_pcbs k) p) (q_elems (s_running (k_sched k))) \<and>
    level s' 0 = sort_key (\<lambda>p. - proc_key (k_pcbs k) p) (level (k_sched k) 0) \<and>
    (\<forall>l. l \<noteq> 0 \<longrightarrow> level s' l = level (k_sched k) l) \<and> ready_procs s' = ready_procs (k_sched k)"
proof -
  let ?st = "k_pcbs k" and ?s = "k_sched k"
  have none: "filter (\<lambda>p. \<not> has_name ?st [] p) ps = ps" for ps
    using assms(7) by (auto simp: has_name_def filter_id_conv split: option.splits)
  have st: "?st(p \<mapsto> x) = ?st" using assms(1) by auto
  obtain buf where buf: "name_loop x (k_devs k) a1 (replicate 100 None) 0 = Some (buf, x, k_devs k)"
    "c_string buf = Some []"
    using name_is_empty [of x "k_devs k" a1] assms(4) by blast
  obtain rl where rl: "kill_all_in_queue ?st (s_running ?s) [] = Some rl"
    "q_elems rl = by_priority ?st (q_elems (s_running ?s))"
    using kill_all_in_queue_spec [OF assms(6), of "[]"] none by auto
  have len: "length (s_mlq ?s) = 140" and live: "live_queue ?st (s_mlq ?s ! 0)"
    using assms(5) by (auto simp: sched_ok_def mlq_ok_def)
  obtain q0 where q0: "kill_all_in_queue ?st (s_mlq ?s ! 0) [] = Some q0"
    "q_elems q0 = by_priority ?st (level ?s 0)"
    using kill_all_in_queue_spec [OF live, of "[]"] none by (auto simp: level_def)
  let ?s' = "?s\<lparr>s_running := rl, s_mlq := (s_mlq ?s)[0 := q0]\<rparr>"
  have "sys_killall k p a1 = Some (0, k\<lparr>k_sched := ?s'\<rparr>)"
    using buf rl(1) q0(1) len assms(1-3) st by (simp add: sys_killall_def arr_get_in arr_set_in)
  moreover have "ready_procs ?s' = ready_procs ?s"
    using mset_concat_upd [of 0 "s_mlq ?s" q_elems q0] len q0(2) by (simp add: ready_procs_def level_def)
  ultimately show ?thesis
    using rl(2) q0(2) len by (intro exI [of _ ?s']) (auto simp: level_def)
qed

subsection \<open>A kernel with two processes\<close>

definition sample_proc :: pcb_t where
  "sample_proc = link_queues sample_pcb"

definition two_procs :: pcbs where
  "two_procs p = (if p = 1 then Some sample_proc else if p = 2 then Some (proc_of 2) else None)"

definition sample_kernel :: kernel where
  "sample_kernel = \<lparr>k_pcbs = two_procs,
     k_sched = blank_sched\<lparr>s_running := queue_of [1, 2], s_mlq := (replicate 140 (queue_of []))[0 := queue_of [2]]\<rparr>,
     k_devs = sample_devs\<rparr>"

lemma sample_kernel_simps [simp]:
  "k_pcbs sample_kernel = two_procs" "k_devs sample_kernel = sample_devs"
  "two_procs 1 = Some sample_proc" "two_procs (Suc 0) = Some sample_proc" "two_procs 2 = Some (proc_of 2)" "two_procs 0 = None"
  "s_running (k_sched sample_kernel) = queue_of [1, 2]" "level (k_sched sample_kernel) 0 = [2]"
  "running_list sample_proc = Q_running" "mlq_ready_queue sample_proc = Q_mlq 0"
  "mm sample_proc = Some sample_mm"
  by (simp_all add: sample_kernel_def two_procs_def sample_proc_def link_queues_def level_def blank_sched_def)

lemma sample_sched_ok: "sched_ok two_procs (k_sched sample_kernel)"
proof -
  have "live_queue two_procs q" if "q \<in> set (s_mlq (k_sched sample_kernel))" for q
  proof -
    have "q = queue_of [] \<or> q = queue_of [2]"
      using that by (auto simp: sample_kernel_def dest!: set_update_subset_insert [THEN subsetD])
    then show ?thesis by (auto simp: live_queue_def)
  qed
  moreover have "length (s_mlq (k_sched sample_kernel)) = 140" by (simp add: sample_kernel_def)
  ultimately show ?thesis by (simp add: sched_ok_def mlq_ok_def)
qed

lemma sample_libread:
  assumes "0 \<le> i" "i < 256"
  shows "libread sample_proc sample_devs 3 (u32_of_int i) = Some (0, sample_proc, sample_devs)"
proof -
  have c: "int_of_u32 3 = 3" "int_of_u32 (u32_of_int i) = i" "int_of_u64 (u64_of_int i) = i"
    using assms int_of_u32_of_int [of i] int_of_u64_of_int [of i]
    by (simp_all add: int_of_u32_def is_cint_def)
  have m: "get_vma_by_num sample_mm 0 \<noteq> None" "fifo_pgn sample_mm = PgNull"
    "symrgtbl sample_mm = replicate 30 \<lparr>rg_start = 0, rg_end = 0, rg_next = RgNull\<rparr>"
    by (simp_all add: get_vma_by_num_def int_of_u64_def sample_mm_def blank_mm_def)
  show ?thesis
    using libread_unmapped [of sample_proc sample_mm 3 i "u32_of_int i" sample_devs] c m assms
    by (simp add: not_present_zero PAGING_CPU_BUS_WIDTH_def)
qed

lemma sample_keys:
  "proc_key two_procs 1 = 0" "proc_key two_procs (Suc 0) = 0" "proc_key two_procs 2 = 0"
  by (simp_all add: proc_key_def sample_proc_def link_queues_def sample_pcb_def proc_of_def)

theorem kill_all_in_queue_survivors_witness:
  "\<exists>q'. kill_all_in_queue two_procs (queue_of [1, 2]) ''p'' = Some q' \<and> q_elems q' = [1]"
proof -
  obtain q' where q': "kill_all_in_queue two_procs (queue_of [1, 2]) ''p'' = Some q'"
    "q_elems q' = by_priority two_procs (filter (\<lambda>p. map_option path (two_procs p) \<noteq> Some ''p'') [1, 2])"
    using kill_all_in_queue_survivors [of "queue_of [1, 2]" two_procs "''p''"] by auto
  have "path (proc_of 2) = ''p''" "path sample_proc \<noteq> ''p''"
    by (simp_all add: proc_of_def sample_proc_def link_queues_def sample_pcb_def)
  then show ?thesis using q' by simp
qed

lemma killall_dangling_pointer_witness: "kill_all_in_queue two_procs (queue_of [1, 7]) ''p'' = None"
  using killall_dangling_pointer [of "queue_of [1, 7]" 7 two_procs "''p''"] by (simp add: two_procs_def)

theorem killall_kills_nobody_witness:
  "\<exists>s'. sys_killall sample_kernel 1 3 = Some (0, sample_kernel\<lparr>k_sched := s'\<rparr>) \<and>
    q_elems (s_running s') = [1, 2] \<and> level s' 0 = [2]"
proof -
  have live: "live_queue two_procs (queue_of [1, 2])" by (simp add: live_queue_def)
  have "path y \<noteq> []" if "two_procs q = Some y" for q y
    using that by (auto simp: two_procs_def sample_proc_def link_queues_def sample_pcb_def proc_of_def
        split: if_splits)
  then show ?thesis
    using killall_kills_nobody [of sample_kernel 1 sample_proc 3] sample_libread sample_sched_ok live
    by (auto simp: sample_keys)
qed

end
