(* ===== verification/Syscall.thy ===== *)
theory Syscall
  imports Killall
begin

text \<open>
  The system call layer: the table generated from \<open>src/syscall.tbl\<close> (\<open>src/syscalltbl.lst\<close>), the
  dispatcher of \<open>src/syscall.c\<close>, its handlers in \<open>src/sys_listsyscall.c\<close>, \<open>src/sys_mem.c\<close> and
  \<open>sys_xxxhandler.c\<close> (\<open>killall\<close> is in \<open>Killall\<close>), and the entry point \<open>libsyscall\<close> of
  \<open>src/libstd.c\<close>.

  \<open>sc_regs\<close> has the three fields that the code assigns and reads; \<open>a4\<close> to \<open>a6\<close>, \<open>orig_ax\<close> and
  \<open>flags\<close> are never touched. A handler returns its code, the registers (passed by reference) and the
  kernel state; what it prints is left out, except for the table that \<open>listsyscall\<close> is there to print.
\<close>

record sc_regs =
  a1 :: u32
  a2 :: u32
  a3 :: u32

definition sys_call_table :: "string list" where
  "sys_call_table =
    [''0-sys_listsyscall'', ''17-sys_memmap'', ''101-sys_killall'', ''440-sys_xxxhandler'']"

definition syscall_table_size :: cint where
  "syscall_table_size = int (length sys_call_table)"

definition sys_ni_syscall :: "kernel \<Rightarrow> pcb_ptr \<Rightarrow> sc_regs \<Rightarrow> (cint \<times> sc_regs \<times> kernel) option" where
  "sys_ni_syscall k caller sregs = Some (0, sregs, k)"

text \<open>The lines printed, and the result.\<close>

definition list_syscalls :: "string list option" where
  "list_syscalls = those (map (arr_get sys_call_table) [0..syscall_table_size - 1])"

definition sys_listsyscall :: "kernel \<Rightarrow> pcb_ptr \<Rightarrow> sc_regs \<Rightarrow> (cint \<times> sc_regs \<times> kernel) option" where
  "sys_listsyscall k caller sregs = do {
     _ \<leftarrow> list_syscalls;
     Some (0, sregs, k)
   }"

definition sys_xxxhandler :: "kernel \<Rightarrow> pcb_ptr \<Rightarrow> sc_regs \<Rightarrow> (cint \<times> sc_regs \<times> kernel) option" where
  "sys_xxxhandler k caller sregs = do {
     let param1 = int_of_u32 (a1 sregs);
     let param2 = int_of_u32 (a2 sregs);
     _ \<leftarrow> c_ret (param1 + param2);
     Some (0, sregs, k)
   }"

subsection \<open>\<open>__sys_memmap\<close>\<close>

definition SYSMEM_MAP_OP :: cint where "SYSMEM_MAP_OP = 1"
definition SYSMEM_INC_OP :: cint where "SYSMEM_INC_OP = 2"
definition SYSMEM_SWP_OP :: cint where "SYSMEM_SWP_OP = 3"
definition SYSMEM_IO_READ :: cint where "SYSMEM_IO_READ = 4"
definition SYSMEM_IO_WRITE :: cint where "SYSMEM_IO_WRITE = 5"

text \<open>
  The local \<open>value\<close> is unassigned when \<open>MEMPHY_read\<close> fails, and storing it in \<open>a3\<close> is undefined. The
  results of the five operations are ignored.
\<close>

definition sys_memmap :: "kernel \<Rightarrow> pcb_ptr \<Rightarrow> sc_regs \<Rightarrow> (cint \<times> sc_regs \<times> kernel) option" where
  "sys_memmap k caller sregs =
    (let memop = int_of_u32 (a1 sregs) in
     if memop = SYSMEM_MAP_OP then Some (0, sregs, k)
     else if memop = SYSMEM_INC_OP then do {
       x \<leftarrow> k_pcbs k caller;
       (_, x', d') \<leftarrow> inc_vma_limit x (k_devs k) (int_of_u32 (a2 sregs)) (int_of_u32 (a3 sregs));
       Some (0, sregs, k\<lparr>k_pcbs := (k_pcbs k)(caller \<mapsto> x'), k_devs := d'\<rparr>)
     }
     else if memop = SYSMEM_SWP_OP then do {
       _ \<leftarrow> k_pcbs k caller;
       (_, d') \<leftarrow> mm_swap_page (k_devs k) (int_of_u32 (a2 sregs)) (int_of_u32 (a3 sregs));
       Some (0, sregs, k\<lparr>k_devs := d'\<rparr>)
     }
     else if memop = SYSMEM_IO_READ then do {
       _ \<leftarrow> k_pcbs k caller;
       (_, v, mp) \<leftarrow> MEMPHY_read (mram (k_devs k)) (int_of_u32 (a2 sregs));
       value \<leftarrow> v;
       Some (0, sregs\<lparr>a3 := u32_of_byte value\<rparr>, k\<lparr>k_devs := (k_devs k)\<lparr>mram := mp\<rparr>\<rparr>)
     }
     else if memop = SYSMEM_IO_WRITE then do {
       _ \<leftarrow> k_pcbs k caller;
       (_, mp) \<leftarrow> MEMPHY_write (mram (k_devs k)) (int_of_u32 (a2 sregs)) (byte_of_u32 (a3 sregs));
       Some (0, sregs, k\<lparr>k_devs := (k_devs k)\<lparr>mram := mp\<rparr>\<rparr>)
     }
     else Some (0, sregs, k))"

subsection \<open>Dispatch\<close>

definition syscall :: "kernel \<Rightarrow> pcb_ptr \<Rightarrow> u32 \<Rightarrow> sc_regs \<Rightarrow> (cint \<times> sc_regs \<times> kernel) option" where
  "syscall k caller nr sregs =
    (if nr = 0 then sys_listsyscall k caller sregs
     else if nr = 17 then sys_memmap k caller sregs
     else if nr = 101 then do { (r, k') \<leftarrow> sys_killall k caller (a1 sregs); Some (r, sregs, k') }
     else if nr = 440 then sys_xxxhandler k caller sregs
     else sys_ni_syscall k caller sregs)"

definition libsyscall :: "kernel \<Rightarrow> pcb_ptr \<Rightarrow> u32 \<Rightarrow> u32 \<Rightarrow> u32 \<Rightarrow> u32 \<Rightarrow> (cint \<times> kernel) option" where
  "libsyscall k caller syscall_idx x1 x2 x3 = do {
     (r, _, k') \<leftarrow> syscall k caller syscall_idx \<lparr>a1 = x1, a2 = x2, a3 = x3\<rparr>;
     Some (r, k')
   }"

subsection \<open>Physical memory through system calls\<close>

lemma list_syscalls_all: "list_syscalls = Some sys_call_table"
  by code_simp

lemma libsyscall_memmap:
  "libsyscall k p 17 x1 x2 x3 = do { (r, _, k') \<leftarrow> sys_memmap k p \<lparr>a1 = x1, a2 = x2, a3 = x3\<rparr>; Some (r, k') }"
  by (simp add: libsyscall_def syscall_def)

lemma memmap_write:
  assumes "k_pcbs k p = Some x"
  shows "libsyscall k p 17 5 a v = do {
    (_, mp) \<leftarrow> MEMPHY_write (mram (k_devs k)) (int_of_u32 a) (byte_of_u32 v);
    Some (0, k\<lparr>k_devs := (k_devs k)\<lparr>mram := mp\<rparr>\<rparr>) }"
proof -
  have "int_of_u32 5 = 5" by (simp add: int_of_u32_def)
  then show ?thesis
    using assms by (simp add: libsyscall_memmap sys_memmap_def SYSMEM_MAP_OP_def SYSMEM_INC_OP_def
        SYSMEM_SWP_OP_def SYSMEM_IO_READ_def SYSMEM_IO_WRITE_def split_def)
qed

lemma pg_tr_lt:
  assumes "pg_tr pd a = Some p"
  shows "0 \<le> p \<and> p < 2 ^ 21"
proof -
  have "p = frame_at pd (nat (a div 256)) * 256 + a mod 256" using pg_tr_SomeD [OF assms] by blast
  moreover have "0 \<le> a mod 256" "a mod 256 < 256" by simp_all
  ultimately show ?thesis using frame_at_bounds [of pd "nat (a div 256)"] by simp linarith
qed

text \<open>
  C34. Memory isolation ends at the system call \<open>memmap\<close>: with operation \<open>SYSMEM_IO_WRITE\<close> any process
  writes any byte of RAM. The victim then reads the new value at its own virtual address.
\<close>

theorem memmap_write_breaks_isolation:
  assumes "k_pcbs k p = Some x" "mram (k_devs k) = Some m"
    and "mm victim = Some m0" "vm_inv (pgd m0) m" "pg_tr (pgd m0) a = Some phys"
  shows "\<exists>d'. libsyscall k p 17 5 (u32_of_int phys) v = Some (0, k\<lparr>k_devs := d'\<rparr>) \<and>
    pg_getval victim d' a = Some (0, Some (byte_of_u32 v), victim, d')"
proof -
  have ok: "ram_ok m" "pd_wf (pgd m0)" using vm_inv_pd_wf [OF assms(4)] by simp_all
  have "is_cint phys" using pg_tr_lt [OF assms(5)] by (simp add: is_cint_def)
  then have i: "int_of_u32 (u32_of_int phys) = phys" by (rule int_of_u32_of_int)
  from vm_inv_vread [OF assms(4), of a] assms(5) obtain u where "mp_rd m phys = Some u"
    by (auto simp: pgspace.vread_def)
  with mbytes.wr_succeeds [OF ok(1)] obtain m' where w: "mp_wr m phys (byte_of_u32 v) = Some m'" by blast
  have rd: "mp_rd m' phys = Some (byte_of_u32 v)" "ram_ok m'"
    using mbytes.rd_wr_same [OF ok(1) w] mbytes.ok_wr [OF ok(1) w] by simp_all
  let ?d = "(k_devs k)\<lparr>mram := Some m'\<rparr>"
  have "MEMPHY_write (Some m) phys (byte_of_u32 v) = Some (0, Some m')"
    using w ok(1) by (cases "arr_set (storage m) phys (byte_of_u32 v)")
      (auto simp: mp_wr_random MEMPHY_write_random ram_ok_def)
  then have "libsyscall k p 17 5 (u32_of_int phys) v = Some (0, k\<lparr>k_devs := ?d\<rparr>)"
    using memmap_write [OF assms(1), of "u32_of_int phys" v] assms(2) i by simp
  moreover have "pg_getval victim ?d a = Some (0, Some (byte_of_u32 v), victim, ?d)"
    using pg_getval_eq [OF assms(3) _ rd(2), of ?d a] assms(5) rd(1) by (simp add: pgspace.vread_def)
  ultimately show ?thesis by blast
qed

text \<open>
  The dispatcher: a number that is not in the table does nothing and reports success, the list of
  calls is printed in table order, and the sample handler is undefined exactly when the sum of its two
  arguments, read as signed, overflows.
\<close>

lemma syscall_dispatch:
  "(nr \<notin> {0, 17, 101, 440} \<longrightarrow> libsyscall k p nr x1 x2 x3 = Some (0, k)) \<and>
   libsyscall k p 0 x1 x2 x3 = Some (0, k) \<and> list_syscalls = Some sys_call_table \<and>
   (libsyscall k p 440 x1 x2 x3 = (if is_cint (int_of_u32 x1 + int_of_u32 x2) then Some (0, k) else None))"
  by (auto simp: libsyscall_def syscall_def sys_ni_syscall_def sys_listsyscall_def list_syscalls_all
      sys_xxxhandler_def c_ret_def Let_def)

theorem memmap_write_breaks_isolation_witness:
  "\<exists>d'. libsyscall (sample_kernel\<lparr>k_devs := paged_devs\<rparr>) 2 17 5 (u32_of_int 263) 42 =
      Some (0, sample_kernel\<lparr>k_devs := d'\<rparr>) \<and>
    pg_getval (paged_pcb 1) d' 7 = Some (0, Some (byte_of_u32 42), paged_pcb 1, d')"
proof -
  have tr: "pg_tr (one_page 1) 7 = Some 263" by (simp add: pg_tr_def one_page_present one_page_frame)
  show ?thesis
    using memmap_write_breaks_isolation [of "sample_kernel\<lparr>k_devs := paged_devs\<rparr>" 2 "proc_of 2" paged_ram
      "paged_pcb 1" "paged_mm 1" 7 263 42] tr by (simp add: one_page_vm_inv)
qed

lemma syscall_dispatch_witness:
  "libsyscall sample_kernel 2 5 1 2 3 = Some (0, sample_kernel) \<and>
   libsyscall sample_kernel 2 440 1 2 3 = Some (0, sample_kernel)"
  using syscall_dispatch [of 5 sample_kernel 2 1 2 3] by (simp add: int_of_u32_def is_cint_def)

end
