(* ===== verification/Mem.thy ===== *)
theory Mem
  imports Common Interfaces
begin

text \<open>
  The flat memory of \<open>src/mem.c\<close>: 1 MB of RAM in 1024 pages of 1024 bytes, a table that says who
  owns each page, and a two-level page table per process with linear search on both levels.

  The static arrays \<open>_ram\<close> and \<open>_mem_stat\<close> are the state \<open>flat_mem\<close>; every operation holds
  \<open>mem_lock\<close> or is called by one thread. A row of a page table that was never assigned is \<open>None\<close>,
  and reading it is undefined.
\<close>

definition OFFSET_LEN :: nat where "OFFSET_LEN = 10"
definition FIRST_LV_LEN :: nat where "FIRST_LV_LEN = 5"
definition SECOND_LV_LEN :: nat where "SECOND_LV_LEN = 5"
definition PAGE_LEN :: nat where "PAGE_LEN = SECOND_LV_LEN"
definition ADDRESS_SIZE :: nat where "ADDRESS_SIZE = 20"
definition RAM_SIZE :: cint where "RAM_SIZE = push_bit ADDRESS_SIZE 1"
definition NUM_PAGES :: cint where "NUM_PAGES = push_bit (ADDRESS_SIZE - OFFSET_LEN) 1"
definition PAGE_SIZE :: cint where "PAGE_SIZE = push_bit OFFSET_LEN 1"

record mem_row =
  ms_proc :: u32
  ms_index :: cint
  ms_next :: cint

record flat_mem =
  mem_stat :: "mem_row list"
  flat_ram :: "u8 list"

definition init_mem :: "flat_mem \<Rightarrow> flat_mem" where
  "init_mem fm = fm\<lparr>mem_stat := replicate (nat NUM_PAGES) \<lparr>ms_proc = 0, ms_index = 0, ms_next = 0\<rparr>,
     flat_ram := replicate (nat RAM_SIZE) 0\<rparr>"

subsection \<open>Translation\<close>

definition get_offset :: "u32 \<Rightarrow> u32" where
  "get_offset addr = addr AND NOT (push_bit OFFSET_LEN (NOT 0))"

definition get_first_lv :: "u32 \<Rightarrow> u32" where
  "get_first_lv addr = drop_bit (OFFSET_LEN + PAGE_LEN) addr"

definition get_second_lv :: "u32 \<Rightarrow> u32" where
  "get_second_lv addr = drop_bit OFFSET_LEN addr - push_bit PAGE_LEN (get_first_lv addr)"

text \<open>
  The search of \<open>get_trans_table\<close>; the second-level table is owned by its row, so the result is the
  number of the row (\<open>None\<close> inside \<open>Some\<close>: the null pointer).
\<close>

fun find_row_loop :: "page_row option list \<Rightarrow> u32 \<Rightarrow> int list \<Rightarrow> int option option" where
  "find_row_loop tbl index [] = Some None"
| "find_row_loop tbl index (i # is) = do {
     row \<leftarrow> arr_get tbl i;
     r \<leftarrow> row;
     if v_index r = index then Some (Some i) else find_row_loop tbl index is
   }"

definition get_trans_table :: "u32 \<Rightarrow> page_table_t \<Rightarrow> int option option" where
  "get_trans_table index pt = find_row_loop (pt_table pt) index [0..pt_size pt - 1]"

fun find_page_loop :: "trans_row option list \<Rightarrow> u32 \<Rightarrow> int list \<Rightarrow> u32 option option" where
  "find_page_loop tbl second_lv [] = Some None"
| "find_page_loop tbl second_lv (i # is) = do {
     row \<leftarrow> arr_get tbl i;
     r \<leftarrow> row;
     if tv_index r = second_lv then Some (Some (p_index r)) else find_page_loop tbl second_lv is
   }"

text \<open>\<open>Some None\<close> is the return value 0, \<open>Some (Some p)\<close> is 1 with \<open>*physical_addr = p\<close>.\<close>

definition translate :: "u32 \<Rightarrow> pcb_t \<Rightarrow> u32 option option" where
  "translate virtual_addr proc = do {
     let offset = get_offset virtual_addr;
     let first_lv = get_first_lv virtual_addr;
     let second_lv = get_second_lv virtual_addr;
     t \<leftarrow> get_trans_table first_lv (page_table proc);
     (case t of
        None \<Rightarrow> Some None
      | Some k \<Rightarrow> do {
          row \<leftarrow> arr_get (pt_table (page_table proc)) k;
          r \<leftarrow> row;
          pg \<leftarrow> find_page_loop (tt_table (next_lv r)) second_lv [0..tt_size (next_lv r) - 1];
          (case pg of
             None \<Rightarrow> Some None
           | Some p \<Rightarrow> Some (Some (push_bit OFFSET_LEN p OR offset)))
        })
   }"

definition add_page_mapping :: "page_table_t \<Rightarrow> u32 \<Rightarrow> u32 \<Rightarrow> page_table_t option" where
  "add_page_mapping pt virtual_addr physical_page = do {
     let first_lv = get_first_lv virtual_addr;
     let second_lv = get_second_lv virtual_addr;
     found \<leftarrow> find_row_loop (pt_table pt) first_lv [0..pt_size pt - 1];
     (k, pt1) \<leftarrow> (case found of
        Some k \<Rightarrow> Some (k, pt)
      | None \<Rightarrow> do {
          let trans = \<lparr>tt_table = replicate 32 None, tt_size = 0\<rparr>;
          tbl \<leftarrow> arr_set (pt_table pt) (pt_size pt) (Some \<lparr>v_index = first_lv, next_lv = trans\<rparr>);
          n \<leftarrow> c_ret (pt_size pt + 1);
          Some (pt_size pt, \<lparr>pt_table = tbl, pt_size = n\<rparr>)
        });
     row \<leftarrow> arr_get (pt_table pt1) k;
     r \<leftarrow> row;
     let t = next_lv r;
     tt \<leftarrow> arr_set (tt_table t) (tt_size t) (Some \<lparr>tv_index = second_lv, p_index = physical_page\<rparr>);
     n \<leftarrow> c_ret (tt_size t + 1);
     tbl \<leftarrow> arr_set (pt_table pt1) k (Some (r\<lparr>next_lv := \<lparr>tt_table = tt, tt_size = n\<rparr>\<rparr>));
     Some (pt1\<lparr>pt_table := tbl\<rparr>)
   }"

subsection \<open>Allocation\<close>

text \<open>The count of free pages, a \<open>uint32_t\<close>.\<close>

fun count_free_loop :: "mem_row list \<Rightarrow> u32 \<Rightarrow> int list \<Rightarrow> u32 option" where
  "count_free_loop ms n [] = Some n"
| "count_free_loop ms n (i # is) = do {
     row \<leftarrow> arr_get ms i;
     count_free_loop ms (if ms_proc row = 0 then n + 1 else n) is
   }"

fun alloc_loop ::
  "pcb_t \<Rightarrow> u32 \<Rightarrow> cint \<Rightarrow> mem_row list \<Rightarrow> cint \<Rightarrow> cint \<Rightarrow> int list \<Rightarrow> (pcb_t \<times> mem_row list) option" where
  "alloc_loop proc ret_mem num_pages ms allocated prev_page [] = Some (proc, ms)"
| "alloc_loop proc ret_mem num_pages ms allocated prev_page (i # is) =
    (if \<not> allocated < num_pages then Some (proc, ms)
     else do {
       row \<leftarrow> arr_get ms i;
       if ms_proc row = 0 then do {
         ms1 \<leftarrow> arr_set ms i \<lparr>ms_proc = pid proc, ms_index = allocated, ms_next = -1\<rparr>;
         ms2 \<leftarrow> (if prev_page \<noteq> -1 then do {
                   prow \<leftarrow> arr_get ms1 prev_page;
                   arr_set ms1 prev_page (prow\<lparr>ms_next := i\<rparr>)
                 }
                 else Some ms1);
         off \<leftarrow> c_ret (allocated * PAGE_SIZE);
         pt \<leftarrow> add_page_mapping (page_table proc) (ret_mem + u32_of_int off) (u32_of_int i);
         a \<leftarrow> c_ret (allocated + 1);
         alloc_loop (proc\<lparr>page_table := pt\<rparr>) ret_mem num_pages ms2 a i is
       }
       else alloc_loop proc ret_mem num_pages ms allocated prev_page is
     })"

definition alloc_mem :: "u32 \<Rightarrow> pcb_t \<Rightarrow> flat_mem \<Rightarrow> (u32 \<times> pcb_t \<times> flat_mem) option" where
  "alloc_mem sz proc fm = do {
     let psz = u32_of_int PAGE_SIZE;
     let num_pages = (if sz mod psz \<noteq> 0 then sz div psz + 1 else sz div psz);
     free_page_count \<leftarrow> count_free_loop (mem_stat fm) 0 [0..NUM_PAGES - 1];
     if bp proc + num_pages * psz > u32_of_int RAM_SIZE \<or> free_page_count < num_pages
     then Some (0, proc, fm)
     else do {
       let ret_mem = bp proc;
       let proc1 = proc\<lparr>bp := bp proc + num_pages * psz\<rparr>;
       (proc2, ms) \<leftarrow> alloc_loop proc1 ret_mem (int_of_u32 num_pages) (mem_stat fm) 0 (-1) [0..NUM_PAGES - 1];
       Some (ret_mem, proc2, fm\<lparr>mem_stat := ms\<rparr>)
     }
   }"

definition free_mem :: "u32 \<Rightarrow> pcb_t \<Rightarrow> cint" where
  "free_mem address proc = 0"

subsection \<open>Access\<close>

definition read_mem :: "u32 \<Rightarrow> pcb_t \<Rightarrow> flat_mem \<Rightarrow> (cint \<times> u8 option) option" where
  "read_mem address proc fm = do {
     t \<leftarrow> translate address proc;
     (case t of
        Some physical_addr \<Rightarrow> do {
          b \<leftarrow> arr_get (flat_ram fm) (uint physical_addr);
          Some (0, Some b)
        }
      | None \<Rightarrow> Some (1, None))
   }"

definition write_mem :: "u32 \<Rightarrow> pcb_t \<Rightarrow> u8 \<Rightarrow> flat_mem \<Rightarrow> (cint \<times> flat_mem) option" where
  "write_mem address proc data fm = do {
     t \<leftarrow> translate address proc;
     (case t of
        Some physical_addr \<Rightarrow> do {
          r \<leftarrow> arr_set (flat_ram fm) (uint physical_addr) data;
          Some (0, fm\<lparr>flat_ram := r\<rparr>)
        }
      | None \<Rightarrow> Some (1, fm))
   }"

text \<open>
  \<open>dump\<close>: the lines printed for the owned pages, as page, owner, index, next and the non-zero bytes.
  The inner loop stops one byte before the end of the page.
\<close>

definition dump_bytes :: "u8 list \<Rightarrow> int \<Rightarrow> (int \<times> u8) list option" where
  "dump_bytes r i = do {
     bs \<leftarrow> those (map (\<lambda>j. map_option (\<lambda>b. (j, b)) (arr_get r j))
            [i * PAGE_SIZE..(i + 1) * PAGE_SIZE - 2]);
     Some (filter (\<lambda>(j, b). b \<noteq> 0) bs)
   }"

fun dump_loop :: "flat_mem \<Rightarrow> int list \<Rightarrow> (int \<times> mem_row \<times> (int \<times> u8) list) list option" where
  "dump_loop fm [] = Some []"
| "dump_loop fm (i # is) = do {
     row \<leftarrow> arr_get (mem_stat fm) i;
     if ms_proc row \<noteq> 0 then do {
       bs \<leftarrow> dump_bytes (flat_ram fm) i;
       rest \<leftarrow> dump_loop fm is;
       Some ((i, row, bs) # rest)
     }
     else dump_loop fm is
   }"

definition dump_mem :: "flat_mem \<Rightarrow> (int \<times> mem_row \<times> (int \<times> u8) list) list option" where
  "dump_mem fm = dump_loop fm [0..NUM_PAGES - 1]"

subsection \<open>Page tables as maps\<close>

text \<open>
  \<open>pmap pt v\<close> is the physical page of virtual page number \<open>v\<close>. In a well-formed table no index
  occurs twice on a level and every index is below 32, so neither level can overflow.
\<close>

definition tt_entries :: "trans_table_t \<Rightarrow> (u32 \<times> u32) list" where
  "tt_entries t = map (\<lambda>r. (tv_index (the r), p_index (the r))) (take (nat (tt_size t)) (tt_table t))"

definition pt_entries :: "page_table_t \<Rightarrow> (u32 \<times> (u32 \<times> u32) list) list" where
  "pt_entries pt = map (\<lambda>r. (v_index (the r), tt_entries (next_lv (the r)))) (take (nat (pt_size pt)) (pt_table pt))"

definition pmap :: "page_table_t \<Rightarrow> u32 \<Rightarrow> u32 option" where
  "pmap pt v = Option.bind (map_of (pt_entries pt) (drop_bit 5 v)) (\<lambda>e. map_of e (take_bit 5 v))"

definition keys_ok :: "(u32 \<times> 'a) list \<Rightarrow> bool" where
  "keys_ok es \<longleftrightarrow> distinct (map fst es) \<and> (\<forall>x \<in> set (map fst es). x < 32)"

definition tt_ok :: "trans_table_t \<Rightarrow> bool" where
  "tt_ok t \<longleftrightarrow> length (tt_table t) = 32 \<and> 0 \<le> tt_size t \<and> tt_size t \<le> 32 \<and>
    None \<notin> set (take (nat (tt_size t)) (tt_table t)) \<and> keys_ok (tt_entries t)"

definition pt_ok :: "page_table_t \<Rightarrow> bool" where
  "pt_ok pt \<longleftrightarrow> length (pt_table pt) = 32 \<and> 0 \<le> pt_size pt \<and> pt_size pt \<le> 32 \<and>
    None \<notin> set (take (nat (pt_size pt)) (pt_table pt)) \<and> keys_ok (pt_entries pt) \<and>
    (\<forall>i < nat (pt_size pt). tt_ok (next_lv (the (pt_table pt ! i))))"

lemma get_second_lv_eq: "get_second_lv a = take_bit 5 (drop_bit 10 a)"
proof -
  have "push_bit 5 (drop_bit 5 (drop_bit 10 a)) + take_bit 5 (drop_bit 10 a) = drop_bit 10 a" by (rule bits_ident)
  then have "take_bit 5 (drop_bit 10 a) = drop_bit 10 a - push_bit 5 (drop_bit 5 (drop_bit 10 a))"
    by (metis add_diff_cancel_left')
  then show ?thesis
    by (simp add: get_second_lv_def get_first_lv_def OFFSET_LEN_def PAGE_LEN_def SECOND_LV_LEN_def)
qed

lemma get_first_lv_eq: "get_first_lv a = drop_bit 5 (drop_bit 10 a)"
  by (simp add: get_first_lv_def OFFSET_LEN_def PAGE_LEN_def SECOND_LV_LEN_def)

lemma get_offset_eq: "get_offset a = take_bit 10 a"
  by (rule bit_word_eqI) (auto simp: get_offset_def OFFSET_LEN_def bit_simps)

lemma keys_ok_room:
  assumes "keys_ok es" "x \<notin> fst ` set es" "x < 32"
  shows "length es < 32"
proof -
  have "inj_on unat (fst ` set es \<union> {x})" by (rule inj_onI) (simp add: word_unat_eq_iff)
  moreover have "unat ` (fst ` set es \<union> {x}) \<subseteq> {0..<32}"
    using assms(1,3) by (auto simp: keys_ok_def word_less_nat_alt)
  ultimately have "card (fst ` set es \<union> {x}) \<le> 32"
    using card_inj_on_le [of unat "fst ` set es \<union> {x}" "{0..<32}"] by simp
  moreover have "card (fst ` set es) = length es"
    using assms(1) distinct_card [of "map fst es"] by (simp add: keys_ok_def)
  ultimately show ?thesis using assms(2) by simp
qed

text \<open>Both searches, over an index list in range, are \<open>find\<close> and \<open>map_of\<close>.\<close>

lemma find_row_loop_eq:
  "\<forall>k \<in> set ks. k < length tbl \<and> tbl ! k \<noteq> None \<Longrightarrow>
   find_row_loop tbl x (map int ks) = Some (map_option int (List.find (\<lambda>k. v_index (the (tbl ! k)) = x) ks))"
  by (induction ks) (auto simp: arr_get_in)

lemma find_page_loop_eq:
  "\<forall>k \<in> set ks. k < length tbl \<and> tbl ! k \<noteq> None \<Longrightarrow>
   find_page_loop tbl x (map int ks) =
     Some (map_of (map (\<lambda>k. (tv_index (the (tbl ! k)), p_index (the (tbl ! k)))) ks) x)"
  by (induction ks) (auto simp: arr_get_in)

lemma map_of_find: "map_of (map (\<lambda>k. (f k, g k)) ks) x = map_option g (List.find (\<lambda>k. f k = x) ks)"
  by (induction ks) auto

lemma map_take: "n \<le> length xs \<Longrightarrow> map f (take n xs) = map (\<lambda>k. f (xs ! k)) [0..<n]"
  by (rule nth_equalityI) simp_all

lemma upto_size: "0 \<le> n \<Longrightarrow> [0..n - 1] = map int [0..<nat n]"
  by (rule nth_equalityI) simp_all

lemma rows_valid:
  "None \<notin> set (take n tbl) \<Longrightarrow> n \<le> length tbl \<Longrightarrow> \<forall>k \<in> set [0..<n]. k < length tbl \<and> tbl ! k \<noteq> None"
  by (auto simp: in_set_conv_nth)

lemma row_at:
  assumes "pt_ok pt" "k < nat (pt_size pt)"
  shows "\<exists>r. pt_table pt ! k = Some r \<and> k < 32 \<and> tt_ok (next_lv r)"
proof -
  have n: "nat (pt_size pt) \<le> length (pt_table pt)" "None \<notin> set (take (nat (pt_size pt)) (pt_table pt))"
    using assms(1) by (auto simp: pt_ok_def)
  have "pt_table pt ! k \<noteq> None" using rows_valid [OF n(2,1)] assms(2) by simp
  then obtain r where "pt_table pt ! k = Some r" by blast
  then show ?thesis using assms by (auto simp: pt_ok_def)
qed

lemma find_row_pt:
  assumes "pt_ok pt"
  shows "find_row_loop (pt_table pt) x [0..pt_size pt - 1] =
      Some (map_option int (List.find (\<lambda>k. v_index (the (pt_table pt ! k)) = x) [0..<nat (pt_size pt)]))"
    and "map_of (pt_entries pt) x = map_option (\<lambda>k. tt_entries (next_lv (the (pt_table pt ! k))))
      (List.find (\<lambda>k. v_index (the (pt_table pt ! k)) = x) [0..<nat (pt_size pt)])"
proof -
  have n: "nat (pt_size pt) \<le> length (pt_table pt)" "0 \<le> pt_size pt" using assms by (auto simp: pt_ok_def)
  show "find_row_loop (pt_table pt) x [0..pt_size pt - 1] =
      Some (map_option int (List.find (\<lambda>k. v_index (the (pt_table pt ! k)) = x) [0..<nat (pt_size pt)]))"
    using find_row_loop_eq [OF rows_valid [OF _ n(1)]] assms n(2) by (simp add: upto_size pt_ok_def)
  show "map_of (pt_entries pt) x = map_option (\<lambda>k. tt_entries (next_lv (the (pt_table pt ! k))))
      (List.find (\<lambda>k. v_index (the (pt_table pt ! k)) = x) [0..<nat (pt_size pt)])"
    using n(1) by (simp add: pt_entries_def map_take map_of_find)
qed

lemma find_page_tt:
  assumes "tt_ok t"
  shows "find_page_loop (tt_table t) x [0..tt_size t - 1] = Some (map_of (tt_entries t) x)"
proof -
  have n: "nat (tt_size t) \<le> length (tt_table t)" "0 \<le> tt_size t" using assms by (auto simp: tt_ok_def)
  then show ?thesis
    using find_page_loop_eq [OF rows_valid [OF _ n(1)]] assms
    by (simp add: upto_size tt_ok_def tt_entries_def map_take)
qed

lemma translate_eq:
  assumes "pt_ok (page_table proc)"
  shows "translate a proc =
    Some (map_option (\<lambda>p. push_bit 10 p OR take_bit 10 a) (pmap (page_table proc) (drop_bit 10 a)))"
proof -
  let ?pt = "page_table proc" and ?x = "drop_bit 5 (drop_bit 10 a) :: u32"
  let ?f = "List.find (\<lambda>k. v_index (the (pt_table ?pt ! k)) = ?x) [0..<nat (pt_size ?pt)]"
  note row = find_row_pt [OF assms, of ?x]
  show ?thesis
  proof (cases ?f)
    case None
    then show ?thesis
      using row by (simp add: translate_def get_trans_table_def get_first_lv_eq pmap_def Let_def)
  next
    case (Some k)
    then have k: "k < nat (pt_size ?pt)" by (auto simp: find_Some_iff)
    with row_at [OF assms] obtain r where "pt_table ?pt ! k = Some r" "k < 32" "tt_ok (next_lv r)" by blast
    then show ?thesis
      using row Some find_page_tt [of "next_lv r"] assms
      by (auto simp: translate_def get_trans_table_def get_first_lv_eq get_second_lv_eq get_offset_eq
          pmap_def Let_def arr_get_in OFFSET_LEN_def pt_ok_def split: option.split)
  qed
qed

subsection \<open>Adding a mapping\<close>

lemma map_of_update_key:
  "distinct (map fst es) \<Longrightarrow> k < length es \<Longrightarrow> fst (es ! k) = x \<Longrightarrow> map_of (es[k := (x, e)]) = (map_of es)(x \<mapsto> e)"
proof (induction es arbitrary: k)
  case (Cons a es)
  show ?case
  proof (cases k)
    case 0
    with Cons.prems show ?thesis by (cases a) auto
  next
    case (Suc j)
    with Cons.prems have "fst a \<noteq> x" by auto
    with Suc Cons show ?thesis by (cases a) (auto simp: fun_upd_twist)
  qed
qed simp

lemma take_snoc: "n < length xs \<Longrightarrow> take (Suc n) (xs[n := x]) = take n xs @ [x]"
  by (simp add: take_Suc_conv_app_nth)

lemma tt_append:
  assumes "tt_ok t" "map_of (tt_entries t) x = None" "x < 32"
  shows "tt_size t < 32" "arr_set (tt_table t) (tt_size t) (Some \<lparr>tv_index = x, p_index = p\<rparr>) =
      Some ((tt_table t)[nat (tt_size t) := Some \<lparr>tv_index = x, p_index = p\<rparr>])"
    "tt_ok \<lparr>tt_table = (tt_table t)[nat (tt_size t) := Some \<lparr>tv_index = x, p_index = p\<rparr>], tt_size = tt_size t + 1\<rparr>"
    "tt_entries \<lparr>tt_table = (tt_table t)[nat (tt_size t) := Some \<lparr>tv_index = x, p_index = p\<rparr>], tt_size = tt_size t + 1\<rparr> =
      tt_entries t @ [(x, p)]"
proof -
  let ?t = "\<lparr>tt_table = (tt_table t)[nat (tt_size t) := Some \<lparr>tv_index = x, p_index = p\<rparr>], tt_size = tt_size t + 1\<rparr>"
  have t: "length (tt_table t) = 32" "0 \<le> tt_size t" "keys_ok (tt_entries t)" "tt_size t \<le> 32"
    using assms(1) by (simp_all add: tt_ok_def)
  have new: "x \<notin> fst ` set (tt_entries t)" using assms(2) by (simp add: map_of_eq_None_iff)
  have "length (tt_entries t) = nat (tt_size t)" using t by (simp add: tt_entries_def)
  with keys_ok_room [OF t(3) new assms(3)] show lt: "tt_size t < 32" by simp
  then show "arr_set (tt_table t) (tt_size t) (Some \<lparr>tv_index = x, p_index = p\<rparr>) =
      Some ((tt_table t)[nat (tt_size t) := Some \<lparr>tv_index = x, p_index = p\<rparr>])"
    using t by (simp add: arr_set_in)
  have sz: "nat (tt_size t + 1) = Suc (nat (tt_size t))" using t(2) by simp
  show e: "tt_entries ?t = tt_entries t @ [(x, p)]" using t lt sz by (simp add: tt_entries_def take_snoc)
  show "tt_ok ?t" unfolding tt_ok_def e
    using assms(1,3) new t lt sz by (simp add: tt_ok_def take_snoc keys_ok_def)
qed

lemma pt_append:
  assumes "pt_ok pt" "map_of (pt_entries pt) x = None" "x < 32"
  defines "pt' \<equiv> \<lparr>pt_table = (pt_table pt)[nat (pt_size pt) :=
      Some \<lparr>v_index = x, next_lv = \<lparr>tt_table = replicate 32 None, tt_size = 0\<rparr>\<rparr>], pt_size = pt_size pt + 1\<rparr>"
  shows "pt_size pt < 32" "pt_ok pt'" "pt_entries pt' = pt_entries pt @ [(x, [])]"
proof -
  let ?row = "\<lparr>v_index = x, next_lv = \<lparr>tt_table = replicate 32 None, tt_size = 0\<rparr>\<rparr>"
  have t: "length (pt_table pt) = 32" "0 \<le> pt_size pt" "keys_ok (pt_entries pt)" "pt_size pt \<le> 32"
    using assms(1) by (simp_all add: pt_ok_def)
  have new: "x \<notin> fst ` set (pt_entries pt)" using assms(2) by (simp add: map_of_eq_None_iff)
  have "length (pt_entries pt) = nat (pt_size pt)" using t by (simp add: pt_entries_def)
  with keys_ok_room [OF t(3) new assms(3)] show lt: "pt_size pt < 32" by simp
  have sz: "nat (pt_size pt + 1) = Suc (nat (pt_size pt))" using t(2) by simp
  have tt: "tt_ok \<lparr>tt_table = replicate 32 None, tt_size = 0\<rparr>" "tt_entries \<lparr>tt_table = replicate 32 None, tt_size = 0\<rparr> = []"
    by (simp_all add: tt_ok_def tt_entries_def keys_ok_def)
  show e: "pt_entries pt' = pt_entries pt @ [(x, [])]"
    using t lt sz tt(2) by (simp add: pt_entries_def pt'_def take_snoc)
  have "tt_ok (next_lv (the (pt_table pt' ! i)))" if "i < Suc (nat (pt_size pt))" for i
    using that assms(1) t lt tt(1) by (cases "i = nat (pt_size pt)") (auto simp: pt'_def pt_ok_def)
  moreover have "pt_size pt' = pt_size pt + 1" "length (pt_table pt') = 32"
    "take (Suc (nat (pt_size pt))) (pt_table pt') = take (nat (pt_size pt)) (pt_table pt) @ [Some ?row]"
    using t lt by (simp_all add: pt'_def take_snoc)
  ultimately show "pt_ok pt'" unfolding pt_ok_def e
    using assms(1,3) new t lt sz by (simp add: pt_ok_def keys_ok_def)
qed

lemma pt_update_row:
  assumes "pt_ok pt" "k < nat (pt_size pt)" "pt_table pt ! k = Some r" "tt_ok t"
  defines "pt' \<equiv> pt\<lparr>pt_table := (pt_table pt)[k := Some (r\<lparr>next_lv := t\<rparr>)]\<rparr>"
  shows "pt_ok pt'" "pt_entries pt' = (pt_entries pt)[k := (v_index r, tt_entries t)]"
proof -
  let ?n = "nat (pt_size pt)"
  have n: "?n \<le> length (pt_table pt)" using assms(1) by (auto simp: pt_ok_def)
  show e: "pt_entries pt' = (pt_entries pt)[k := (v_index r, tt_entries t)]"
    using assms(2) n by (simp add: pt_entries_def pt'_def take_update_swap map_update)
  have "pt_entries pt ! k = (v_index r, tt_entries (next_lv r))"
    using assms(2,3) n by (simp add: pt_entries_def)
  then have keys: "map fst (pt_entries pt') = map fst (pt_entries pt)"
    unfolding e by (metis fst_conv list_update_id map_update)
  have "None \<notin> set (take ?n (pt_table pt'))"
    using assms(1) by (auto simp: pt'_def pt_ok_def take_update_swap dest!: set_update_subset_insert [THEN subsetD])
  moreover have "tt_ok (next_lv (the (pt_table pt' ! i)))" if "i < ?n" for i
    using that assms(1,4) n by (cases "i = k") (auto simp: pt'_def pt_ok_def)
  ultimately show "pt_ok pt'"
    using assms(1) keys by (simp add: pt_ok_def keys_ok_def) (simp add: pt'_def)
qed

lemma page_eqI: "drop_bit 5 (v :: u32) = drop_bit 5 w \<Longrightarrow> take_bit 5 v = take_bit 5 w \<Longrightarrow> v = w"
  by (metis bits_ident)

text \<open>The new page is mapped; every other page keeps its mapping.\<close>

text \<open>The first half: the row of the first level is found, or appended with an empty second level.\<close>

lemma add_page_row:
  assumes "pt_ok pt" "drop_bit 10 a < 1024"
  obtains k pt1 r where "k < nat (pt_size pt1)" "pt_ok pt1" "pmap pt1 = pmap pt"
    "pt_table pt1 ! k = Some r" "v_index r = drop_bit 5 (drop_bit 10 a)"
    "add_page_mapping pt a p = do {
       tt \<leftarrow> arr_set (tt_table (next_lv r)) (tt_size (next_lv r)) (Some \<lparr>tv_index = take_bit 5 (drop_bit 10 a), p_index = p\<rparr>);
       n \<leftarrow> c_ret (tt_size (next_lv r) + 1);
       tbl \<leftarrow> arr_set (pt_table pt1) (int k) (Some (r\<lparr>next_lv := \<lparr>tt_table = tt, tt_size = n\<rparr>\<rparr>));
       Some (pt1\<lparr>pt_table := tbl\<rparr>) }"
proof -
  let ?v = "drop_bit 10 a" and ?x = "drop_bit 5 (drop_bit 10 a)" and ?y = "take_bit 5 (drop_bit 10 a)"
  let ?P = "\<lambda>k. v_index (the (pt_table pt ! k)) = ?x"
  have xy: "?x < 32"
    using assms(2) by (simp add: word_less_nat_alt unat_drop_bit_eq drop_bit_eq_div unat_div_distrib)
  note row = find_row_pt [OF assms(1), of ?x]
  have n: "0 \<le> pt_size pt" "length (pt_table pt) = 32" "pt_size pt \<le> 32" using assms(1) by (auto simp: pt_ok_def)
  show thesis
  proof (cases "List.find ?P [0..<nat (pt_size pt)]")
    case (Some k)
    then have k: "k < nat (pt_size pt)" "?P k" by (auto simp: find_Some_iff)
    with row_at [OF assms(1)] obtain r where r: "pt_table pt ! k = Some r" "k < 32" by blast
    show thesis
      using k r row(1) Some n
      by (intro that [of k pt r])
        (simp_all add: assms(1) add_page_mapping_def get_first_lv_eq get_second_lv_eq Let_def arr_get_in)
  next
    case None
    then have none: "map_of (pt_entries pt) ?x = None" using row(2) by simp
    let ?k = "nat (pt_size pt)" and ?r = "\<lparr>v_index = ?x, next_lv = \<lparr>tt_table = replicate 32 None, tt_size = 0\<rparr>\<rparr>"
    let ?pt1 = "\<lparr>pt_table = (pt_table pt)[?k := Some ?r], pt_size = pt_size pt + 1\<rparr>"
    note app = pt_append [OF assms(1) none xy]
    have "pmap ?pt1 w = pmap pt w" for w
      unfolding pmap_def app(3) using none by (auto simp: map_add_def split: option.splits)
    then have pm: "pmap ?pt1 = pmap pt" by blast
    have "c_ret (pt_size pt + 1) = Some (pt_size pt + 1)" using n by (simp add: c_ret_def is_cint_def)
    then show thesis
      using app(1,2) n row(1) None pm
      by (intro that [of ?k ?pt1 ?r])
        (simp_all add: add_page_mapping_def get_first_lv_eq get_second_lv_eq Let_def arr_get_in arr_set_in)
  qed
qed

lemma add_page_mapping_spec:
  assumes "pt_ok pt" "pmap pt (drop_bit 10 a) = None" "drop_bit 10 a < 1024"
  shows "\<exists>pt'. add_page_mapping pt a p = Some pt' \<and> pt_ok pt' \<and> pmap pt' = (pmap pt)(drop_bit 10 a \<mapsto> p)"
proof -
  let ?v = "drop_bit 10 a" and ?x = "drop_bit 5 (drop_bit 10 a)" and ?y = "take_bit 5 (drop_bit 10 a)"
  have y: "?y < 32"
    using assms(3) by (simp add: word_less_nat_alt take_bit_eq_mod unsigned_take_bit_eq unat_mod_distrib)
  obtain k pt1 r where s1: "k < nat (pt_size pt1)" "pt_ok pt1" "pmap pt1 = pmap pt"
    "pt_table pt1 ! k = Some r" "v_index r = ?x"
    "add_page_mapping pt a p = do {
       tt \<leftarrow> arr_set (tt_table (next_lv r)) (tt_size (next_lv r)) (Some \<lparr>tv_index = ?y, p_index = p\<rparr>);
       n \<leftarrow> c_ret (tt_size (next_lv r) + 1);
       tbl \<leftarrow> arr_set (pt_table pt1) (int k) (Some (r\<lparr>next_lv := \<lparr>tt_table = tt, tt_size = n\<rparr>\<rparr>));
       Some (pt1\<lparr>pt_table := tbl\<rparr>) }"
    by (rule add_page_row [OF assms(1,3), where p = p])
  have tt: "tt_ok (next_lv r)" "k < 32" using row_at [OF s1(2,1)] s1(4) by auto
  let ?t = "next_lv r"
  have ent: "pt_entries pt1 ! k = (?x, tt_entries ?t)" "k < length (pt_entries pt1)"
    and dist: "distinct (map fst (pt_entries pt1))" and len: "length (pt_table pt1) = 32"
    using s1 by (auto simp: pt_entries_def pt_ok_def keys_ok_def)
  have mo: "map_of (pt_entries pt1) ?x = Some (tt_entries ?t)"
    using dist ent by (metis map_of_eq_Some_iff nth_mem)
  have "pmap pt1 ?v = None" using assms(2) s1(3) by simp
  then have none: "map_of (tt_entries ?t) ?y = None" unfolding pmap_def mo by simp
  note app = tt_append [OF tt(1) none y]
  define t' where "t' = \<lparr>tt_table = (tt_table ?t)[nat (tt_size ?t) := Some \<lparr>tv_index = ?y, p_index = p\<rparr>],
    tt_size = tt_size ?t + 1\<rparr>"
  define pt2 where "pt2 = pt1\<lparr>pt_table := (pt_table pt1)[k := Some (r\<lparr>next_lv := t'\<rparr>)]\<rparr>"
  have t': "tt_ok t'" "tt_entries t' = tt_entries ?t @ [(?y, p)]" using app(3,4) by (simp_all add: t'_def)
  note upd = pt_update_row [OF s1(2,1,4) t'(1), folded pt2_def]
  have "c_ret (tt_size ?t + 1) = Some (tt_size ?t + 1)"
    using tt(1) by (simp add: tt_ok_def c_ret_def is_cint_def)
  then have "add_page_mapping pt a p = Some pt2"
    using s1(6) app(2) tt(2) len by (simp add: arr_set_in pt2_def t'_def)
  moreover have "pmap pt2 w = ((pmap pt)(?v \<mapsto> p)) w" for w
  proof -
    have "map_of (pt_entries pt2) = (map_of (pt_entries pt1))(?x \<mapsto> tt_entries ?t @ [(?y, p)])"
      unfolding upd(2) s1(5) t'(2) by (rule map_of_update_key [OF dist ent(2)]) (simp add: ent(1))
    moreover have "map_of (tt_entries ?t @ [(?y, p)]) z = (if z = ?y then Some p else map_of (tt_entries ?t) z)" for z
      using none by (auto simp: map_add_def split: option.splits)
    ultimately have "pmap pt2 w = (if drop_bit 5 w = ?x then (if take_bit 5 w = ?y then Some p
        else map_of (tt_entries ?t) (take_bit 5 w)) else pmap pt1 w)"
      unfolding pmap_def by simp
    also have "\<dots> = (if w = ?v then Some p else pmap pt1 w)"
      using page_eqI [of w ?v] mo by (auto simp: pmap_def)
    finally show ?thesis using s1(3) by simp
  qed
  then have "pmap pt2 = (pmap pt)(?v \<mapsto> p)" by blast
  ultimately show ?thesis using upd(1) by blast
qed

subsection \<open>Allocating pages\<close>

definition free_pages :: "mem_row list \<Rightarrow> nat list \<Rightarrow> nat list" where
  "free_pages ms ks = filter (\<lambda>k. ms_proc (ms ! k) = 0) ks"

lemma mem_consts: "PAGE_SIZE = 1024" "NUM_PAGES = 1024" "RAM_SIZE = 1048576"
  by (simp_all add: PAGE_SIZE_def NUM_PAGES_def RAM_SIZE_def OFFSET_LEN_def ADDRESS_SIZE_def push_bit_eq_mult)

lemma count_free_loop_eq:
  "\<forall>k \<in> set ks. k < length ms \<Longrightarrow>
   count_free_loop ms n (map int ks) = Some (n + of_nat (length (free_pages ms ks)))"
  by (induction ks arbitrary: n) (auto simp: arr_get_in free_pages_def)

lemma unat_of_nat_u32: "n < 4294967296 \<Longrightarrow> unat (word_of_nat n :: u32) = n"
  by (simp add: unsigned_of_nat take_bit_nat_eq_self)

lemma page_no_eq:
  assumes "a < 1024" "b < 1024" "word_of_nat a = (word_of_nat b :: u32)"
  shows "a = b"
proof -
  have "unat (word_of_nat a :: u32) = unat (word_of_nat b :: u32)" using assms(3) by simp
  then show ?thesis using assms(1,2) by (simp add: unat_of_nat_u32)
qed

lemma page_of_address:
  assumes "r + j < 1024"
  shows "drop_bit 10 (word_of_nat (r * 1024) + u32_of_int (int j * 1024) :: u32) = word_of_nat (r + j)"
proof -
  have e: "(word_of_nat (r * 1024) + u32_of_int (int j * 1024) :: u32) = word_of_nat ((r + j) * 1024)"
    by (simp add: u32_of_int_def algebra_simps)
  have "unat (word_of_nat ((r + j) * 1024) :: u32) = (r + j) * 1024" "unat (word_of_nat (r + j) :: u32) = r + j"
    by (rule unat_of_nat_u32, use assms in simp)+
  then have "unat (drop_bit 10 (word_of_nat ((r + j) * 1024) :: u32)) = unat (word_of_nat (r + j) :: u32)"
    by (simp add: unat_drop_bit_eq drop_bit_eq_div [where 'a = nat] del: of_nat_add of_nat_mult)
  then show ?thesis unfolding e by (simp only: word_unat_eq_iff)
qed

definition new_map :: "nat \<Rightarrow> nat \<Rightarrow> nat \<Rightarrow> nat list \<Rightarrow> u32 \<Rightarrow> u32 option" where
  "new_map r i n fs = map_of (zip (map (\<lambda>j. word_of_nat (r + j)) [i..<n]) (map word_of_nat fs))"

lemma new_map_notin:
  assumes "r + n \<le> 1024"
  shows "word_of_nat (r + i) \<notin> dom (new_map r (Suc i) n fs)"
proof -
  have "word_of_nat (r + i) \<noteq> (word_of_nat (r + j) :: u32)" if "Suc i \<le> j" "j < n" for j
    using page_no_eq [of "r + i" "r + j"] that assms by (auto simp del: of_nat_add)
  then have "\<forall>j. Suc i \<le> j \<and> j < n \<longrightarrow> word_of_nat (r + i) \<noteq> (word_of_nat (r + j) :: u32)" by blast
  then have "(word_of_nat (r + i) :: u32) \<notin> set (map (\<lambda>j. word_of_nat (r + j)) [Suc i..<n])"
    by (auto simp del: of_nat_add)
  then show ?thesis
    unfolding new_map_def by (metis domD map_of_SomeD set_zip_leftD)
qed

lemma new_map_Cons:
  "i < n \<Longrightarrow> new_map r i n (f # fs) = (new_map r (Suc i) n fs)(word_of_nat (r + i) \<mapsto> word_of_nat f)"
  by (simp add: new_map_def upt_conv_Cons)

text \<open>One round of the loop on a free page: it is mapped and marked, and linked to the page before.\<close>

lemma alloc_loop_take:
  assumes "length ms = 1024" "k < 1024" "ms_proc (ms ! k) = 0" "pt_ok (page_table c)" "i < n" "r + n \<le> 1024"
    and "pmap (page_table c) (word_of_nat (r + i)) = None" "prev = -1 \<or> 0 \<le> prev \<and> prev < 1024"
    and "ret = word_of_nat (r * 1024)"
  obtains pt1 ms2 where
    "alloc_loop c ret (int n) ms (int i) prev (map int (k # ks)) =
      alloc_loop (c\<lparr>page_table := pt1\<rparr>) ret (int n) ms2 (int (Suc i)) (int k) (map int ks)"
    "pt_ok pt1" "pmap pt1 = (pmap (page_table c))(word_of_nat (r + i) \<mapsto> word_of_nat k)" "length ms2 = 1024"
    "\<forall>j < 1024. ms_proc (ms2 ! j) = (if j = k then pid c else ms_proc (ms ! j))"
proof -
  define ms1 where "ms1 = ms[k := \<lparr>ms_proc = pid c, ms_index = int i, ms_next = -1\<rparr>]"
  define ms2 where "ms2 = (if prev \<noteq> -1 then ms1[nat prev := (ms1 ! nat prev)\<lparr>ms_next := int k\<rparr>] else ms1)"
  have p2: "\<forall>j < 1024. ms_proc (ms2 ! j) = (if j = k then pid c else ms_proc (ms ! j))"
  proof (intro allI impI)
    fix j assume "j < (1024 :: nat)"
    then show "ms_proc (ms2 ! j) = (if j = k then pid c else ms_proc (ms ! j))"
      using assms(1) by (cases "j = nat prev") (auto simp: ms2_def ms1_def nth_list_update)
  qed
  have l2: "length ms2 = 1024" using assms(1) by (simp add: ms2_def ms1_def)
  have i: "i < 1024" using assms(5,6) by simp
  have page: "drop_bit 10 (ret + u32_of_int (int i * 1024)) = word_of_nat (r + i)"
    using page_of_address [of r i] assms(5,6,9) by simp
  have "(word_of_nat (r + i) :: u32) < 1024"
    using assms(5,6) unat_of_nat_u32 [of "r + i"] by (simp add: word_less_nat_alt del: of_nat_add)
  with assms(7) obtain pt1 where pt1:
    "add_page_mapping (page_table c) (ret + u32_of_int (int i * 1024)) (u32_of_int (int k)) = Some pt1"
    "pt_ok pt1" "pmap pt1 = (pmap (page_table c))(word_of_nat (r + i) \<mapsto> word_of_nat k)"
    using add_page_mapping_spec [OF assms(4), of "ret + u32_of_int (int i * 1024)" "u32_of_int (int k)"]
    unfolding page by (auto simp: u32_of_int_def)
  have "c_ret (int i * PAGE_SIZE) = Some (int i * 1024)" "c_ret (int i + 1) = Some (int (Suc i))"
    using i by (simp_all add: mem_consts c_ret_def is_cint_def)
  moreover have "(if prev \<noteq> -1 then do { prow \<leftarrow> arr_get ms1 prev; arr_set ms1 prev (prow\<lparr>ms_next := int k\<rparr>) }
      else Some ms1) = Some ms2"
    using assms(1,8) by (auto simp: ms2_def ms1_def arr_get_in arr_set_in)
  moreover have "arr_set ms (int k) \<lparr>ms_proc = pid c, ms_index = int i, ms_next = -1\<rparr> = Some ms1"
    using assms(1,2) by (simp add: ms1_def arr_set_in)
  moreover have "arr_get ms (int k) = Some (ms ! k)" using assms(1,2) by (simp add: arr_get_in)
  ultimately have "alloc_loop c ret (int n) ms (int i) prev (map int (k # ks)) =
      alloc_loop (c\<lparr>page_table := pt1\<rparr>) ret (int n) ms2 (int (Suc i)) (int k) (map int ks)"
    using assms(3,5) pt1(1) by (simp del: of_nat_Suc)
  then show thesis using that pt1(2,3) l2 p2 by blast
qed

text \<open>
  \<open>taken c n r i ms fs c' ms'\<close>: from \<open>c\<close> and \<open>ms\<close>, the pages \<open>i\<close> to \<open>n - 1\<close> after page \<open>r\<close> have been mapped to
  the physical pages \<open>fs\<close>, which now belong to the process; nothing else changes.
\<close>

definition taken :: "pcb_t \<Rightarrow> nat \<Rightarrow> nat \<Rightarrow> nat \<Rightarrow> mem_row list \<Rightarrow> nat list \<Rightarrow> pcb_t \<Rightarrow> mem_row list \<Rightarrow> bool" where
  "taken c n r i ms fs c' ms' \<longleftrightarrow> c' = c\<lparr>page_table := page_table c'\<rparr> \<and> length ms' = 1024 \<and> pt_ok (page_table c') \<and>
    pmap (page_table c') = pmap (page_table c) ++ new_map r i n fs \<and>
    (\<forall>k < 1024. ms_proc (ms' ! k) = (if k \<in> set fs then pid c else ms_proc (ms ! k)))"

lemma taken_none: "length ms = 1024 \<Longrightarrow> pt_ok (page_table c) \<Longrightarrow> taken c n r n ms [] c ms"
  by (simp add: taken_def new_map_def)

text \<open>What \<open>alloc_loop_take\<close> did for page \<open>i\<close>, before the rest.\<close>

lemma taken_Cons:
  assumes "i < n" "r + n \<le> 1024" "pmap pt1 = (pmap (page_table c))(word_of_nat (r + i) \<mapsto> word_of_nat k)"
    and "\<forall>j < 1024. ms_proc (ms2 ! j) = (if j = k then pid c else ms_proc (ms ! j))"
    and "taken (c\<lparr>page_table := pt1\<rparr>) n r (Suc i) ms2 fs c' ms'"
  shows "taken c n r i ms (k # fs) c' ms'"
  using assms(3-5) new_map_notin [OF assms(2), of i fs]
  unfolding taken_def new_map_Cons [OF assms(1)] by (auto simp: map_add_upd_left)

lemma unmapped_after:
  assumes "\<forall>j. i \<le> j \<and> j < n \<longrightarrow> pmap pt (word_of_nat (r + j)) = None" "r + n \<le> 1024"
    and "pmap pt1 = (pmap pt)(word_of_nat (r + i) \<mapsto> p)"
  shows "\<forall>j. Suc i \<le> j \<and> j < n \<longrightarrow> pmap pt1 (word_of_nat (r + j)) = None"
proof (intro allI impI)
  fix j assume j: "Suc i \<le> j \<and> j < n"
  have "word_of_nat (r + j) \<noteq> (word_of_nat (r + i) :: u32)"
    using page_no_eq [of "r + j" "r + i"] j assms(2) by (auto simp del: of_nat_add)
  with assms j show "pmap pt1 (word_of_nat (r + j)) = None" by simp
qed

lemma alloc_loop_spec:
  assumes "length ms = 1024" "\<forall>k \<in> set ks. k < 1024" "distinct ks" "pt_ok (page_table c)"
    and "\<forall>j. i \<le> j \<and> j < n \<longrightarrow> pmap (page_table c) (word_of_nat (r + j)) = None"
    and "r + n \<le> 1024" "i \<le> n" "n - i \<le> length (free_pages ms ks)" "prev = -1 \<or> 0 \<le> prev \<and> prev < 1024"
    and "ret = word_of_nat (r * 1024)"
  shows "\<exists>c' ms'. alloc_loop c ret (int n) ms (int i) prev (map int ks) = Some (c', ms') \<and>
    taken c n r i ms (take (n - i) (free_pages ms ks)) c' ms'"
  using assms
proof (induction ks arbitrary: c ms i prev)
  case Nil
  then have "n = i" by (simp add: free_pages_def)
  with Nil show ?case by (auto simp: free_pages_def intro!: taken_none)
next
  case (Cons k ks)
  show ?case
  proof (cases "i < n")
    case False
    with Cons.prems(7) have "n = i" by simp
    with Cons.prems show ?thesis by (auto intro!: taken_none)
  next
    case True
    have k: "k < 1024" "arr_get ms (int k) = Some (ms ! k)" using Cons.prems(1,2) by (simp_all add: arr_get_in)
    show ?thesis
    proof (cases "ms_proc (ms ! k) = 0")
      case False
      then have "free_pages ms (k # ks) = free_pages ms ks" by (simp add: free_pages_def)
      then show ?thesis using Cons.IH [of ms c i prev] Cons.prems False True k by simp
    next
      case free: True
      have "pmap (page_table c) (word_of_nat (r + i)) = None" using Cons.prems(5) True by blast
      from alloc_loop_take [OF Cons.prems(1) k(1) free Cons.prems(4) True Cons.prems(6) this Cons.prems(9,10)]
      obtain pt1 ms2 where step: "alloc_loop c ret (int n) ms (int i) prev (map int (k # ks)) =
          alloc_loop (c\<lparr>page_table := pt1\<rparr>) ret (int n) ms2 (int (Suc i)) (int k) (map int ks)"
        and pt1: "pt_ok pt1" "pmap pt1 = (pmap (page_table c))(word_of_nat (r + i) \<mapsto> word_of_nat k)"
        and l2: "length ms2 = 1024" and p2: "\<forall>j < 1024. ms_proc (ms2 ! j) = (if j = k then pid c else ms_proc (ms ! j))" .
      let ?c = "c\<lparr>page_table := pt1\<rparr>"
      have fr: "free_pages ms (k # ks) = k # free_pages ms ks" "free_pages ms2 ks = free_pages ms ks"
        using free p2 Cons.prems(2,3) by (auto simp: free_pages_def intro!: filter_cong split: if_splits)
      have rest: "n - Suc i \<le> length (free_pages ms ks)" using Cons.prems(8) fr(1) by simp
      obtain c' ms' where r: "alloc_loop ?c ret (int n) ms2 (int (Suc i)) (int k) (map int ks) = Some (c', ms')"
        "taken ?c n r (Suc i) ms2 (take (n - Suc i) (free_pages ms ks)) c' ms'"
        using Cons.IH [of ms2 ?c "Suc i" "int k"] unmapped_after [OF Cons.prems(5,6) pt1(2)] Cons.prems True pt1(1) l2 k(1) rest
        unfolding fr by auto
      have tk: "take (n - i) (free_pages ms (k # ks)) = k # take (n - Suc i) (free_pages ms ks)"
        using True by (simp add: fr(1) take_Cons')
      from taken_Cons [OF True Cons.prems(6) pt1(2) p2 r(2)] r(1) show ?thesis unfolding step tk by auto
    qed
  qed
qed

end
