(* ===== verification/Flat.thy ===== *)
theory Flat
  imports Mem
begin

text \<open>
  What the flat memory of \<open>src/mem.c\<close> guarantees: the invariant that ties the page tables to the
  table of owners, its preservation by \<open>alloc_mem\<close>, and the memory of a process as an
  \<open>address_space\<close> over the RAM.
\<close>

subsection \<open>The invariant\<close>

definition flat_ok :: "flat_mem \<Rightarrow> bool" where
  "flat_ok fm \<longleftrightarrow> length (mem_stat fm) = 1024 \<and> length (flat_ram fm) = 1048576"

definition pmap_ok :: "page_table_t \<Rightarrow> bool" where
  "pmap_ok pt \<longleftrightarrow> pt_ok pt \<and> inj_on (pmap pt) (dom (pmap pt)) \<and> (\<forall>p \<in> ran (pmap pt). p < 1024)"

text \<open>
  Every mapped page of a process lies below its break pointer and is a physical page that the owner
  table gives to this process.
\<close>

definition flat_inv :: "pcb_t \<Rightarrow> flat_mem \<Rightarrow> bool" where
  "flat_inv c fm \<longleftrightarrow> flat_ok fm \<and> pmap_ok (page_table c) \<and> pid c \<noteq> 0 \<and>
    unat (bp c) mod 1024 = 0 \<and> unat (bp c) \<le> 1048576 \<and>
    (\<forall>v p. pmap (page_table c) v = Some p \<longrightarrow>
      unat v < unat (bp c) div 1024 \<and> ms_proc (mem_stat fm ! unat p) = pid c)"

lemma flat_invD:
  assumes "flat_inv c fm" "pmap (page_table c) v = Some p"
  shows "unat v < unat (bp c) div 1024" "ms_proc (mem_stat fm ! unat p) = pid c" "unat p < 1024"
  using assms by (auto simp: flat_inv_def pmap_ok_def word_less_nat_alt ran_def)

subsection \<open>The memory of a process\<close>

definition fm_rd :: "flat_mem \<Rightarrow> int \<Rightarrow> u8 option" where
  "fm_rd fm = arr_get (flat_ram fm)"

definition fm_wr :: "flat_mem \<Rightarrow> int \<Rightarrow> u8 \<Rightarrow> flat_mem option" where
  "fm_wr fm a v = map_option (\<lambda>r. fm\<lparr>flat_ram := r\<rparr>) (arr_set (flat_ram fm) a v)"

definition flat_tr :: "page_table_t \<Rightarrow> u32 \<Rightarrow> int option" where
  "flat_tr pt a = map_option (\<lambda>p. uint (push_bit 10 p OR take_bit 10 a)) (pmap pt (drop_bit 10 a))"

lemma phys_addr:
  assumes "p < (1024 :: u32)"
  shows "uint (push_bit 10 p OR take_bit 10 a) = uint p * 1024 + uint a mod 1024"
proof -
  have up: "uint p < 1024" using assms by (simp add: word_less_def)
  have "uint (push_bit 10 p) = uint p * 1024"
    using up by (simp add: push_bit_eq_mult uint_word_ariths)
  moreover have "uint (take_bit 10 a :: u32) = uint a mod 1024" 
    by (simp add: unsigned_take_bit_eq take_bit_eq_mod [where 'a = int] del: take_bit_numeral_minus_numeral_int)
  moreover have "push_bit 10 p AND take_bit 10 a = (0 :: u32)" by (rule bit_word_eqI) (auto simp: bit_simps)
  then have "push_bit 10 p OR take_bit 10 a = push_bit 10 p + take_bit 10 (a :: u32)"
    by (rule disjunctive_add_eq_or [symmetric])
  ultimately show ?thesis using up by (simp add: uint_word_ariths del: push_bit_numeral_minus_1)
qed

lemma flat_tr_SomeD:
  assumes "pmap_ok pt" "flat_tr pt a = Some x"
  obtains p where "pmap pt (drop_bit 10 a) = Some p" "p < 1024" "x = uint p * 1024 + uint a mod 1024"
  using assms phys_addr by (auto simp: flat_tr_def pmap_ok_def ran_def)

lemma page_and_byte:
  assumes "drop_bit 10 a = drop_bit 10 (b :: u32)" "uint a mod 1024 = uint b mod 1024"
  shows "a = b"
proof -
  have "unat (drop_bit 10 a) = unat (drop_bit 10 b)" using assms(1) by simp
  then have "int (unat a div 1024) = int (unat b div 1024)"
    by (simp add: unat_drop_bit_eq drop_bit_eq_div [where 'a = nat])
  then have "uint a div 1024 = uint b div 1024" by (simp add: zdiv_int)
  with assms(2) have "uint a = uint b" by (metis div_mult_mod_eq)
  then show ?thesis by (simp only: word_uint_eq_iff)
qed

interpretation flat_store: byte_store fm_rd fm_wr flat_ok
proof
  fix m a v m' b
  show "fm_wr m a v \<noteq> None \<longleftrightarrow> fm_rd m a \<noteq> None" by (simp add: fm_wr_def fm_rd_def arr_set_def arr_get_def)
  assume "fm_wr m a v = Some m'"
  then obtain r where r: "arr_set (flat_ram m) a v = Some r" "m' = m\<lparr>flat_ram := r\<rparr>" by (auto simp: fm_wr_def)
  then show "fm_rd m' b = (if b = a then Some v else fm_rd m b)" using arr_get_arr_set [OF r(1)] by (simp add: fm_rd_def)
  assume "flat_ok m"
  then show "flat_ok m'" using r length_arr_set [OF r(1)] by (simp add: flat_ok_def)
qed

interpretation flat_space: address_space fm_rd fm_wr flat_ok flat_tr pmap_ok
proof
  fix t a p b
  assume ok: "pmap_ok t" and "flat_tr t a = Some p" "flat_tr t b = Some p"
  then obtain q r where q: "pmap t (drop_bit 10 a) = Some q" "p = uint q * 1024 + uint a mod 1024"
    and r: "pmap t (drop_bit 10 b) = Some r" "p = uint r * 1024 + uint b mod 1024"
    by (metis flat_tr_SomeD)
  then have e: "uint q * 1024 + uint a mod 1024 = uint r * 1024 + uint b mod 1024" by simp
  then have "(uint q * 1024 + uint a mod 1024) div 1024 = (uint r * 1024 + uint b mod 1024) div 1024" by simp
  then have "uint q = uint r" by simp
  with e have "q = r" "uint a mod 1024 = uint b mod 1024" by (simp_all add: word_uint_eq_iff)
  with q r ok have "drop_bit 10 a = drop_bit 10 b"
    using inj_onD [of "pmap t" "dom (pmap t)" "drop_bit 10 a" "drop_bit 10 b"] by (auto simp: pmap_ok_def)
  with \<open>uint a mod 1024 = uint b mod 1024\<close> show "a = b" by (rule page_and_byte [rotated])
qed

text \<open>The two access functions are those of the address space.\<close>

lemma translate_flat:
  assumes "pt_ok (page_table c)"
  shows "translate a c = Some (map_option word_of_int (flat_tr (page_table c) a))"
  using translate_eq [OF assms, of a] by (cases "pmap (page_table c) (drop_bit 10 a)") (simp_all add: flat_tr_def)

lemma read_mem_eq:
  assumes "flat_inv c fm"
  shows "read_mem a c fm = Some (case flat_space.vread (page_table c) fm a of
    Some b \<Rightarrow> (0, Some b) | None \<Rightarrow> (1, None))"
proof (cases "pmap (page_table c) (drop_bit 10 a)")
  case None
  then show ?thesis
    using assms by (simp add: read_mem_def translate_eq flat_inv_def pmap_ok_def flat_space.vread_def flat_tr_def)
next
  case (Some p)
  then have "p < 1024" "pt_ok (page_table c)" using assms by (auto simp: flat_inv_def pmap_ok_def ran_def)
  moreover from this have "uint p < 1024" by (simp add: word_less_def)
  moreover have "length (flat_ram fm) = 1048576" using assms by (simp add: flat_inv_def flat_ok_def)
  ultimately show ?thesis
    using Some phys_addr [of p a] by (simp add: read_mem_def translate_eq flat_space.vread_def flat_tr_def fm_rd_def arr_get_def)
qed

lemma write_mem_eq:
  assumes "flat_inv c fm"
  shows "write_mem a c v fm = Some (case flat_space.vwrite (page_table c) fm a v of
    Some fm' \<Rightarrow> (0, fm') | None \<Rightarrow> (1, fm))"
proof (cases "pmap (page_table c) (drop_bit 10 a)")
  case None
  then show ?thesis
    using assms by (simp add: write_mem_def translate_eq flat_inv_def pmap_ok_def flat_space.vwrite_def flat_tr_def)
next
  case (Some p)
  then have "p < 1024" "pt_ok (page_table c)" using assms by (auto simp: flat_inv_def pmap_ok_def ran_def)
  moreover from this have "uint p < 1024" by (simp add: word_less_def)
  moreover have "length (flat_ram fm) = 1048576" using assms by (simp add: flat_inv_def flat_ok_def)
  ultimately show ?thesis
    using Some phys_addr [of p a]
    by (simp add: write_mem_def translate_eq flat_space.vwrite_def flat_tr_def fm_wr_def arr_set_def)
qed

subsection \<open>Isolation\<close>

lemma flat_inv_ram: "flat_inv c fm \<Longrightarrow> flat_ok fm' \<Longrightarrow> mem_stat fm' = mem_stat fm \<Longrightarrow> flat_inv c fm'"
  by (simp add: flat_inv_def)

lemma flat_tr_disjoint:
  assumes "flat_inv c fm" "flat_inv c2 fm" "pid c \<noteq> pid c2" "flat_tr (page_table c) a = Some x"
  shows "flat_tr (page_table c2) b \<noteq> Some x"
proof
  assume b: "flat_tr (page_table c2) b = Some x"
  have ok: "pmap_ok (page_table c)" "pmap_ok (page_table c2)" using assms(1,2) by (simp_all add: flat_inv_def)
  obtain p where p: "pmap (page_table c) (drop_bit 10 a) = Some p" "x = uint p * 1024 + uint a mod 1024"
    using flat_tr_SomeD [OF ok(1) assms(4)] by blast
  obtain q where q: "pmap (page_table c2) (drop_bit 10 b) = Some q" "x = uint q * 1024 + uint b mod 1024"
    using flat_tr_SomeD [OF ok(2) b] by blast
  have "(uint p * 1024 + uint a mod 1024) div 1024 = (uint q * 1024 + uint b mod 1024) div 1024"
    using p q by simp
  then have "p = q" by (simp add: word_uint_eq_iff)
  with flat_invD(2) [OF assms(1) p(1)] flat_invD(2) [OF assms(2) q(1)] assms(3) show False by simp
qed

lemma flat_vread_defined:
  assumes "flat_inv c fm" "pmap (page_table c) (drop_bit 10 a) \<noteq> None"
  shows "\<exists>b. flat_space.vread (page_table c) fm a = Some b"
proof -
  obtain p where p: "pmap (page_table c) (drop_bit 10 a) = Some p" using assms(2) by blast
  then have "p < 1024" using assms(1) by (auto simp: flat_inv_def pmap_ok_def ran_def)
  moreover from this have "uint p < 1024" by (simp add: word_less_def)
  moreover have "length (flat_ram fm) = 1048576" using assms(1) by (simp add: flat_inv_def flat_ok_def)
  ultimately show ?thesis
    using p phys_addr [of p a] by (simp add: flat_space.vread_def flat_tr_def fm_rd_def arr_get_def)
qed

text \<open>
  C36. The flat memory is a memory per process: a write to a mapped address succeeds, is read back at
  that address only, and no read of another process sees it. An address whose page is not mapped is
  refused and nothing changes.
\<close>

theorem flat_memory_isolated:
  assumes "flat_inv c fm"
  shows "(pmap (page_table c) (drop_bit 10 a) = None \<longrightarrow> write_mem a c v fm = Some (1, fm)) \<and>
    (pmap (page_table c) (drop_bit 10 a) \<noteq> None \<longrightarrow> (\<exists>fm'. write_mem a c v fm = Some (0, fm') \<and> flat_inv c fm' \<and>
      (\<forall>b. read_mem b c fm' = (if b = a then Some (0, Some v) else read_mem b c fm)) \<and>
      (\<forall>c2 b. flat_inv c2 fm \<and> pid c2 \<noteq> pid c \<longrightarrow> flat_inv c2 fm' \<and> read_mem b c2 fm' = read_mem b c2 fm)))"
proof (cases "pmap (page_table c) (drop_bit 10 a)")
  case None
  then show ?thesis using write_mem_eq [OF assms, of a v] by (simp add: flat_space.vwrite_def flat_tr_def)
next
  case (Some p)
  have ok: "flat_ok fm" "pmap_ok (page_table c)" using assms by (simp_all add: flat_inv_def)
  from flat_vread_defined [OF assms] Some flat_space.vwrite_defined [OF ok(1), of "page_table c" a v]
  obtain fm' where w: "flat_space.vwrite (page_table c) fm a v = Some fm'" by fastforce
  then obtain x where x: "fm_wr fm x v = Some fm'" by (auto simp: flat_space.vwrite_def bind_eq_Some_conv)
  then obtain r where r: "fm' = fm\<lparr>flat_ram := r\<rparr>" by (auto simp: fm_wr_def)
  with flat_store.ok_wr [OF ok(1) x] have ok': "flat_ok fm'" by simp
  have inv: "flat_inv d fm'" if "flat_inv d fm" for d using flat_inv_ram [OF that ok'] r by simp
  have "read_mem b c fm' = (if b = a then Some (0, Some v) else read_mem b c fm)" for b
    using flat_space.vread_vwrite [OF ok w, of b] by (simp add: read_mem_eq [OF assms] read_mem_eq [OF inv [OF assms]])
  moreover have "flat_inv c2 fm' \<and> read_mem b c2 fm' = read_mem b c2 fm"
    if "flat_inv c2 fm" "pid c2 \<noteq> pid c" for c2 b
    using flat_space.vread_vwrite_separate [OF ok(1) w, of "page_table c2" b]
      flat_tr_disjoint [OF assms that(1)] that inv [OF that(1)]
    by (simp add: read_mem_eq)
  moreover have "write_mem a c v fm = Some (0, fm')" using write_mem_eq [OF assms, of a v] w by simp
  ultimately show ?thesis using Some inv [OF assms] by auto
qed

subsection \<open>Allocation keeps the invariant\<close>

lemma new_map_eq:
  assumes "length fs = n" "r + n \<le> 1024"
  shows "new_map r 0 n fs v =
    (if r \<le> unat v \<and> unat v < r + n then Some (word_of_nat (fs ! (unat v - r))) else None)"
proof -
  let ?ks = "map (\<lambda>j. word_of_nat (r + j) :: u32) [0..<n]"
  have nth: "?ks ! j = word_of_nat (r + j)" "unat (?ks ! j) = r + j" if "j < n" for j
    using that assms(2) unat_of_nat_u32 [of "r + j"] by (simp_all del: of_nat_add)
  have dist: "distinct ?ks"
    using assms(2) page_no_eq [of "r + i" "r + j" for i j]
    by (auto simp: distinct_map inj_on_def simp del: of_nat_add)
  show ?thesis
  proof (cases "r \<le> unat v \<and> unat v < r + n")
    case True
    let ?j = "unat v - r"
    have "r + ?j = unat v" "?j < n" using True by arith+
    then have "?ks ! ?j = word_of_nat (unat v)" using nth(1) [of ?j] by presburger
    then have kv: "?ks ! ?j = v" by simp
    have "map_of (zip ?ks (map word_of_nat fs)) (?ks ! ?j) = Some (map word_of_nat fs ! ?j)"
      by (rule map_of_zip_nth) (use assms(1) dist \<open>?j < n\<close> in simp_all)
    then show ?thesis using True assms(1) \<open>?j < n\<close> unfolding kv by (simp add: new_map_def)
  next
    case False
    have "v \<notin> set ?ks"
    proof
      assume "v \<in> set ?ks"
      then obtain j where "j < n" "v = ?ks ! j" by (auto simp: in_set_conv_nth simp del: of_nat_add)
      with nth(2) [of j] False show False by simp
    qed
    then have "map_of (zip ?ks (map word_of_nat fs)) v = None"
      using assms(1) by (simp add: map_of_zip_is_None)
    then show ?thesis using False by (auto simp: new_map_def)
  qed
qed

lemma round_up_1024: "((x :: nat) + 1023) div 1024 = (if x mod 1024 = 0 then x div 1024 else x div 1024 + 1)"
proof -
  define q m where "q = x div 1024" and "m = x mod 1024"
  have x: "x = 1024 * q + m" "m < 1024" by (simp_all add: q_def m_def)
  have "(x + 1023) div 1024 = (if m = 0 then q else q + 1)"
    by (rule div_nat_eqI) (use x in \<open>auto split: if_splits\<close>)
  then show ?thesis by (simp add: q_def m_def)
qed

lemma pages_needed:
  fixes sz :: u32
  defines "w \<equiv> (if sz mod 1024 \<noteq> 0 then sz div 1024 + 1 else sz div 1024)"
  shows "unat w = (unat sz + 1023) div 1024" "unat w \<le> 4194304"
proof -
  have d: "unat (sz div 1024) = unat sz div 1024" "unat (sz mod 1024) = unat sz mod 1024"
    by (simp_all add: unat_div_distrib unat_mod_distrib)
  have s: "unat sz < 4294967296" using unsigned_less [of sz] by simp
  then have q: "unat sz div 1024 < 4194304" by (simp add: div_less_iff_less_mult)
  have m: "sz mod 1024 = 0 \<longleftrightarrow> unat sz mod 1024 = 0" using d(2) by (metis unat_eq_0)
  have "unat (sz div 1024 + 1) = unat sz div 1024 + 1" using d(1) q by (simp add: unat_word_ariths)
  then show "unat w = (unat sz + 1023) div 1024" "unat w \<le> 4194304"
    using d(1) q m unfolding w_def round_up_1024 by simp_all
qed

definition free_count :: "flat_mem \<Rightarrow> nat" where
  "free_count fm = length (free_pages (mem_stat fm) [0..<1024])"

text \<open>The two guards of \<open>alloc_mem\<close>, over natural numbers, and the call of its loop.\<close>

lemma alloc_mem_guards:
  assumes inv: "flat_inv c fm" and n: "n = (unat sz + 1023) div 1024"
  shows "free_count fm < n \<or> 1048576 < unat (bp c) + n * 1024 \<Longrightarrow> alloc_mem sz c fm = Some (0, c, fm)"
    and "\<not> (free_count fm < n \<or> 1048576 < unat (bp c) + n * 1024) \<Longrightarrow> \<exists>b. unat b = unat (bp c) + n * 1024 \<and>
      alloc_mem sz c fm = do {
        (c', ms') \<leftarrow> alloc_loop (c\<lparr>bp := b\<rparr>) (bp c) (int n) (mem_stat fm) (int 0) (-1) (map int [0..<1024]);
        Some (bp c, c', fm\<lparr>mem_stat := ms'\<rparr>) }"
proof -
  define w where "w = (if sz mod 1024 \<noteq> 0 then sz div 1024 + 1 else sz div 1024)"
  have w: "unat w = n" "n \<le> 4194304" using pages_needed [of sz] by (simp_all add: w_def n)
  have ms: "length (mem_stat fm) = 1024" using inv by (simp add: flat_inv_def flat_ok_def)
  have up: "[0..NUM_PAGES - 1] = map int [0..<1024]" by (rule nth_equalityI) (simp_all add: mem_consts)
  have "length (free_pages (mem_stat fm) [0..<1024]) \<le> 1024"
    unfolding free_pages_def by (rule order_trans [OF length_filter_le]) simp
  then have fc: "free_count fm \<le> 1024" by (simp add: free_count_def)
  have cnt: "count_free_loop (mem_stat fm) 0 (map int [0..<1024]) = Some (word_of_nat (free_count fm))"
    using count_free_loop_eq [of "[0..<1024]" "mem_stat fm" 0] ms by (simp add: free_count_def)
  have "u32_of_int PAGE_SIZE = 1024" "u32_of_int RAM_SIZE = 1048576" by (simp_all add: mem_consts u32_of_int_def)
  then have eq: "alloc_mem sz c fm = (if 1048576 < bp c + w * 1024 \<or> word_of_nat (free_count fm) < w then Some (0, c, fm)
    else do { (c', ms') \<leftarrow> alloc_loop (c\<lparr>bp := bp c + w * 1024\<rparr>) (bp c) (int_of_u32 w) (mem_stat fm) 0 (-1) (map int [0..<1024]);
        Some (bp c, c', fm\<lparr>mem_stat := ms'\<rparr>) })"
    unfolding alloc_mem_def Let_def up cnt by (simp add: w_def)
  have lt: "word_of_nat (free_count fm) < w \<longleftrightarrow> free_count fm < n"
    using w(1) fc unat_of_nat_u32 [of "free_count fm"] by (simp add: word_less_nat_alt)
  have sum: "unat (bp c + w * 1024) = unat (bp c) + n * 1024" and i: "int_of_u32 w = int n" if "\<not> free_count fm < n"
    using that fc inv w(1) int_of_u32_small [of w] by (simp_all add: unat_word_ariths flat_inv_def uint_nat)
  then have gt: "1048576 < bp c + w * 1024 \<longleftrightarrow> 1048576 < unat (bp c) + n * 1024" if "\<not> free_count fm < n"
    using that by (simp add: word_less_nat_alt)
  show "alloc_mem sz c fm = Some (0, c, fm)" if "free_count fm < n \<or> 1048576 < unat (bp c) + n * 1024"
    using that lt gt unfolding eq by auto
  show "\<exists>b. unat b = unat (bp c) + n * 1024 \<and> alloc_mem sz c fm = do {
        (c', ms') \<leftarrow> alloc_loop (c\<lparr>bp := b\<rparr>) (bp c) (int n) (mem_stat fm) (int 0) (-1) (map int [0..<1024]);
        Some (bp c, c', fm\<lparr>mem_stat := ms'\<rparr>) }"
    if "\<not> (free_count fm < n \<or> 1048576 < unat (bp c) + n * 1024)"
    using that lt gt sum i unfolding eq by (intro exI [of _ "bp c + w * 1024"]) simp
qed

text \<open>The pages above the break pointer are not mapped.\<close>

lemma flat_inv_unmapped:
  assumes "flat_inv c fm" "unat (bp c) div 1024 + n \<le> 1024"
  shows "\<forall>j. 0 \<le> j \<and> j < n \<longrightarrow> pmap (page_table c) (word_of_nat (unat (bp c) div 1024 + j)) = None"
proof (intro allI impI, rule ccontr)
  fix j assume j: "0 \<le> j \<and> j < n"
    and "pmap (page_table c) (word_of_nat (unat (bp c) div 1024 + j)) \<noteq> None"
  then have "unat (word_of_nat (unat (bp c) div 1024 + j) :: u32) < unat (bp c) div 1024"
    using flat_invD(1) [OF assms(1)] by auto
  then show False using unat_of_nat_u32 [of "unat (bp c) div 1024 + j"] j assms(2) by simp
qed

lemma alloc_mem_eq:
  assumes inv: "flat_inv c fm" and n: "n = (unat sz + 1023) div 1024"
  defines "r \<equiv> unat (bp c) div 1024" and "fs \<equiv> take n (free_pages (mem_stat fm) [0..<1024])"
  shows "(free_count fm < n \<or> 1048576 < unat (bp c) + n * 1024) \<and> alloc_mem sz c fm = Some (0, c, fm) \<or>
    n \<le> free_count fm \<and> r + n \<le> 1024 \<and> (\<exists>pt ms b. alloc_mem sz c fm =
        Some (bp c, c\<lparr>bp := b, page_table := pt\<rparr>, fm\<lparr>mem_stat := ms\<rparr>) \<and>
      unat b = unat (bp c) + n * 1024 \<and> length ms = 1024 \<and> pt_ok pt \<and>
      pmap pt = pmap (page_table c) ++ new_map r 0 n fs \<and>
      (\<forall>k < 1024. ms_proc (ms ! k) = (if k \<in> set fs then pid c else ms_proc (mem_stat fm ! k))))"
proof (cases "free_count fm < n \<or> 1048576 < unat (bp c) + n * 1024")
  case True
  then show ?thesis using alloc_mem_guards(1) [OF inv n] by blast
next
  case False
  from alloc_mem_guards(2) [OF inv n False] obtain b where b: "unat b = unat (bp c) + n * 1024"
    "alloc_mem sz c fm = do {
        (c', ms') \<leftarrow> alloc_loop (c\<lparr>bp := b\<rparr>) (bp c) (int n) (mem_stat fm) (int 0) (-1) (map int [0..<1024]);
        Some (bp c, c', fm\<lparr>mem_stat := ms'\<rparr>) }" by blast
  have bp: "unat (bp c) = r * 1024" using inv by (auto simp: flat_inv_def r_def)
  then have rn: "r + n \<le> 1024" "bp c = word_of_nat (r * 1024)"
    using False by simp (simp flip: bp)
  have "length (mem_stat fm) = 1024" "pt_ok (page_table c)"
    using inv by (simp_all add: flat_inv_def flat_ok_def pmap_ok_def)
  moreover have "n - 0 \<le> length (free_pages (mem_stat fm) [0..<1024])" using False by (simp add: free_count_def)
  moreover note flat_inv_unmapped [OF inv, of n, folded r_def]
  ultimately obtain c' ms' where l: "alloc_loop (c\<lparr>bp := b\<rparr>) (bp c) (int n) (mem_stat fm) (int 0) (-1) (map int [0..<1024]) =
      Some (c', ms')" "taken (c\<lparr>bp := b\<rparr>) n r 0 (mem_stat fm) fs c' ms'"
    using alloc_loop_spec [of "mem_stat fm" "[0..<1024]" "c\<lparr>bp := b\<rparr>" 0 n r "-1" "bp c"] rn by (auto simp: fs_def)
  have "c' = c\<lparr>bp := b, page_table := page_table c'\<rparr>" using l(2) by (simp add: taken_def)
  then have "alloc_mem sz c fm = Some (bp c, c\<lparr>bp := b, page_table := page_table c'\<rparr>, fm\<lparr>mem_stat := ms'\<rparr>)"
    using b(2) l(1) by simp
  moreover have "n \<le> free_count fm" using False by simp
  moreover have "pid (c\<lparr>bp := b\<rparr>) = pid c" "page_table (c\<lparr>bp := b\<rparr>) = page_table c" by simp_all
  note l(2) [unfolded taken_def this]
  ultimately show ?thesis using b(1) rn(1) by blast
qed

lemma free_page_props:
  assumes "i < n" "n \<le> length (free_pages ms [0..<1024])"
  shows "free_pages ms [0..<1024] ! i < 1024" "ms_proc (ms ! (free_pages ms [0..<1024] ! i)) = 0"
proof -
  have "free_pages ms [0..<1024] ! i \<in> set (free_pages ms [0..<1024])" using assms by (intro nth_mem) simp
  then show "free_pages ms [0..<1024] ! i < 1024" "ms_proc (ms ! (free_pages ms [0..<1024] ! i)) = 0"
    by (auto simp: free_pages_def)
qed

text \<open>The map after an allocation: where each new page goes, and that the invariant is kept.\<close>

lemma pmap_after_alloc:
  assumes "pmap pt = pmap pt0 ++ new_map r 0 n fs" "length fs = n" "r + n \<le> 1024"
  shows "pmap pt v = (if r \<le> unat v \<and> unat v < r + n then Some (word_of_nat (fs ! (unat v - r))) else pmap pt0 v)"
  using assms(1) new_map_eq [OF assms(2,3), of v] by (simp add: map_add_def)

lemma first_free:
  assumes "fs = take n (free_pages (mem_stat fm) [0..<1024])" "n \<le> free_count fm"
  shows "length fs = n" "distinct fs" "i < n \<Longrightarrow> fs ! i < 1024 \<and> ms_proc (mem_stat fm ! (fs ! i)) = 0 \<and> fs ! i \<in> set fs"
    and "f \<in> set fs \<Longrightarrow> ms_proc (mem_stat fm ! f) = 0"
proof -
  show len: "length fs = n" "distinct fs" using assms by (simp_all add: free_count_def free_pages_def)
  show nth: "fs ! i < 1024 \<and> ms_proc (mem_stat fm ! (fs ! i)) = 0 \<and> fs ! i \<in> set fs" if "i < n" for i
    using free_page_props [of i n "mem_stat fm"] that assms nth_mem [of i fs] len by (simp add: free_count_def)
  show "ms_proc (mem_stat fm ! f) = 0" if "f \<in> set fs" using that nth len by (metis in_set_conv_nth)
qed

text \<open>A page that is mapped after an allocation is one of the new ones, or an old one.\<close>

lemma mapped_after_alloc:
  assumes inv: "flat_inv c fm" and fs: "fs = take n (free_pages (mem_stat fm) [0..<1024])"
    and n: "n \<le> free_count fm" "unat (bp c) div 1024 + n \<le> 1024"
    and pt: "pmap pt = pmap (page_table c) ++ new_map (unat (bp c) div 1024) 0 n fs" "pmap pt v = Some p"
  obtains i where "i < n" "v = word_of_nat (unat (bp c) div 1024 + i)" "unat v = unat (bp c) div 1024 + i" "unat p = fs ! i"
  | "pmap (page_table c) v = Some p" "unat v < unat (bp c) div 1024" "unat p < 1024" "unat p \<notin> set fs"
proof -
  let ?r = "unat (bp c) div 1024"
  note free = first_free [OF fs n(1)] and pm = pmap_after_alloc [OF pt(1) first_free(1) [OF fs n(1)] n(2)]
  show thesis
  proof (cases "?r \<le> unat v \<and> unat v < ?r + n")
    case True
    then have i: "unat v - ?r < n" "unat v = ?r + (unat v - ?r)" by arith+
    have w: "v = word_of_nat (?r + (unat v - ?r))" unfolding i(2) [symmetric] by simp
    have "unat p = fs ! (unat v - ?r)" using pt(2) pm True free(3) [OF i(1)] by (auto simp: unat_of_nat_u32)
    then show ?thesis by (rule that(1) [OF i(1) w i(2)])
  next
    case False
    then have o: "pmap (page_table c) v = Some p" using pt(2) pm by (simp split: if_splits)
    have "pid c \<noteq> 0" using inv by (simp add: flat_inv_def)
    then have "unat p \<notin> set fs" using flat_invD(2) [OF inv o] free(4) by force
    with o flat_invD [OF inv o] show ?thesis by (intro that(2))
  qed
qed

lemma inj_after_alloc:
  assumes inv: "flat_inv c fm" and fs: "fs = take n (free_pages (mem_stat fm) [0..<1024])"
    and n: "n \<le> free_count fm" "unat (bp c) div 1024 + n \<le> 1024"
    and pt: "pmap pt = pmap (page_table c) ++ new_map (unat (bp c) div 1024) 0 n fs"
  shows "inj_on (pmap pt) (dom (pmap pt))"
proof (rule inj_onI)
  note free = first_free [OF fs n(1)] and cs = mapped_after_alloc [OF inv fs n pt]
  have inj0: "inj_on (pmap (page_table c)) (dom (pmap (page_table c)))"
    using inv by (simp add: flat_inv_def pmap_ok_def)
  fix v w assume "v \<in> dom (pmap pt)" "w \<in> dom (pmap pt)" "pmap pt v = pmap pt w"
  then obtain p where p: "pmap pt v = Some p" "pmap pt w = Some p" by auto
  show "v = w"
  proof (rule cs [OF p(1)])
    fix i assume v: "i < n" "v = word_of_nat (unat (bp c) div 1024 + i)" "unat p = fs ! i"
    show "v = w" by (rule cs [OF p(2)]) (use v free in \<open>metis nth_eq_iff_index_eq\<close>, use v free in metis)
  next
    assume v: "pmap (page_table c) v = Some p" "unat p \<notin> set fs"
    show "v = w" by (rule cs [OF p(2)]) (use v free in metis, use v inj_onD [OF inj0, of v w] in auto)
  qed
qed

lemma alloc_keeps_inv:
  assumes inv: "flat_inv c fm" and fs: "fs = take n (free_pages (mem_stat fm) [0..<1024])"
    and n: "n \<le> free_count fm" "unat (bp c) div 1024 + n \<le> 1024"
    and pt: "pt_ok pt" "pmap pt = pmap (page_table c) ++ new_map (unat (bp c) div 1024) 0 n fs"
    and b: "unat b = unat (bp c) + n * 1024"
    and ms: "length ms = 1024" "\<forall>k < 1024. ms_proc (ms ! k) = (if k \<in> set fs then pid c else ms_proc (mem_stat fm ! k))"
  shows "flat_inv (c\<lparr>bp := b, page_table := pt\<rparr>) (fm\<lparr>mem_stat := ms\<rparr>)"
proof -
  note free = first_free [OF fs n(1)] and cs = mapped_after_alloc [OF inv fs n pt(2)]
  have d: "(unat (bp c) + n * 1024) div 1024 = unat (bp c) div 1024 + n" by simp
  have pages: "unat p < 1024 \<and> unat v < (unat (bp c) + n * 1024) div 1024 \<and> ms_proc (ms ! unat p) = pid c"
    if v: "pmap pt v = Some p" for v p
    by (rule cs [OF v]; use free(3) ms(2) flat_invD(2) [OF inv] in \<open>simp add: d\<close>)
  then have "p < 1024" if "p \<in> ran (pmap pt)" for p
    using that by (auto simp: ran_def word_less_nat_alt)
  moreover have "flat_ok (fm\<lparr>mem_stat := ms\<rparr>)" "(unat (bp c) + n * 1024) mod 1024 = 0"
    "unat (bp c) + n * 1024 \<le> 1048576" "pid c \<noteq> 0"
    using inv ms(1) n(2) by (auto simp: flat_inv_def flat_ok_def)
  ultimately show ?thesis
    using inj_after_alloc [OF inv fs n pt(2)] pt(1) b pages by (simp add: flat_inv_def pmap_ok_def)
qed

lemma alloc_keeps_others:
  assumes inv: "flat_inv c fm" "flat_inv c2 fm"
    and ms: "length ms = 1024" "\<forall>k < 1024. k \<notin> set fs \<longrightarrow> ms_proc (ms ! k) = ms_proc (mem_stat fm ! k)"
    and fs: "\<forall>k \<in> set fs. ms_proc (mem_stat fm ! k) = 0"
  shows "flat_inv c2 (fm\<lparr>mem_stat := ms\<rparr>)"
proof -
  have "ms_proc (ms ! unat p) = pid c2" if p: "pmap (page_table c2) v = Some p" for v p
  proof -
    have o: "ms_proc (mem_stat fm ! unat p) = pid c2" "unat p < 1024" using flat_invD [OF inv(2) p] by auto
    moreover have "pid c2 \<noteq> 0" using inv(2) by (simp add: flat_inv_def)
    ultimately have "unat p \<notin> set fs" using fs by auto
    with o ms(2) show ?thesis by simp
  qed
  then show ?thesis using inv(2) ms(1) by (simp add: flat_inv_def flat_ok_def)
qed

text \<open>What \<open>alloc_mem\<close> returns and maps, and what it keeps, in one statement.\<close>

lemma alloc_mem_spec:
  assumes "flat_inv c fm" "n = (unat sz + 1023) div 1024" "r = unat (bp c) div 1024"
  shows "if free_count fm < n \<or> 1048576 < unat (bp c) + n * 1024 then alloc_mem sz c fm = Some (0, c, fm)
    else \<exists>c' fm'. alloc_mem sz c fm = Some (bp c, c', fm') \<and> flat_inv c' fm' \<and>
      unat (bp c') = unat (bp c) + n * 1024 \<and> flat_ram fm' = flat_ram fm \<and>
      (\<forall>v. pmap (page_table c') v = (if r \<le> unat v \<and> unat v < r + n
        then Some (word_of_nat (free_pages (mem_stat fm) [0..<1024] ! (unat v - r)))
        else pmap (page_table c) v)) \<and>
      (\<forall>c2. flat_inv c2 fm \<and> pid c2 \<noteq> pid c \<longrightarrow> flat_inv c2 fm')"
proof (cases "free_count fm < n \<or> 1048576 < unat (bp c) + n * 1024")
  case True
  have "unat (bp c) mod 1024 = 0" using assms(1) by (simp add: flat_inv_def)
  then have "unat (bp c) = r * 1024" by (auto simp: assms(3))
  with True have "free_count fm < n \<or> \<not> r + n \<le> 1024" by auto
  then have "alloc_mem sz c fm = Some (0, c, fm)"
    using alloc_mem_eq [OF assms(1,2)] unfolding assms(3) by (metis leD)
  with True show ?thesis by simp
next
  case False
  let ?fs = "take n (free_pages (mem_stat fm) [0..<1024])"
  obtain pt ms b where a: "n \<le> free_count fm" "r + n \<le> 1024"
    "alloc_mem sz c fm = Some (bp c, c\<lparr>bp := b, page_table := pt\<rparr>, fm\<lparr>mem_stat := ms\<rparr>)"
    "unat b = unat (bp c) + n * 1024" "length ms = 1024" "pt_ok pt"
    "pmap pt = pmap (page_table c) ++ new_map r 0 n ?fs"
    "\<forall>k < 1024. ms_proc (ms ! k) = (if k \<in> set ?fs then pid c else ms_proc (mem_stat fm ! k))"
    using alloc_mem_eq [OF assms(1,2)] False unfolding assms(3) by blast
  have inv: "flat_inv (c\<lparr>bp := b, page_table := pt\<rparr>) (fm\<lparr>mem_stat := ms\<rparr>)"
    using alloc_keeps_inv [OF assms(1) refl a(1) _ a(6) _ a(4,5,8)] a(2,7) by (simp add: assms(3))
  have len: "length ?fs = n" using a(1) by (simp add: free_count_def)
  have pm: "pmap pt v = (if r \<le> unat v \<and> unat v < r + n
      then Some (word_of_nat (free_pages (mem_stat fm) [0..<1024] ! (unat v - r))) else pmap (page_table c) v)" for v
    unfolding pmap_after_alloc [OF a(7) len a(2)] by auto
  have "\<forall>k \<in> set ?fs. ms_proc (mem_stat fm ! k) = 0" by (auto simp: free_pages_def dest!: in_set_takeD)
  then have "flat_inv c2 (fm\<lparr>mem_stat := ms\<rparr>)" if "flat_inv c2 fm" for c2
    using alloc_keeps_others [OF assms(1) that a(5), of ?fs] a(8) by simp
  with False a(3,4) inv pm show ?thesis by auto
qed

text \<open>
  C37. \<open>alloc_mem\<close> always returns. With \<open>n\<close> the size in pages rounded up: when \<open>n\<close> pages are free and
  fit below 1 MB, it returns the old break pointer, moves it by \<open>n\<close> pages, and maps the \<open>n\<close> virtual
  pages from there to the first \<open>n\<close> free physical pages, which it marks as owned; other pages keep
  their mapping, RAM keeps its bytes, and the invariant of this and of every other process is kept.
  Otherwise it returns 0 and changes nothing.
\<close>

theorem alloc_mem_maps:
  assumes "flat_inv c fm" "n = (unat sz + 1023) div 1024" "r = unat (bp c) div 1024"
  shows "if free_count fm < n \<or> 1048576 < unat (bp c) + n * 1024 then alloc_mem sz c fm = Some (0, c, fm)
    else \<exists>c' fm'. alloc_mem sz c fm = Some (bp c, c', fm') \<and> flat_inv c' fm' \<and>
      unat (bp c') = unat (bp c) + n * 1024 \<and> flat_ram fm' = flat_ram fm \<and>
      (\<forall>v. pmap (page_table c') v = (if r \<le> unat v \<and> unat v < r + n
        then Some (word_of_nat (free_pages (mem_stat fm) [0..<1024] ! (unat v - r)))
        else pmap (page_table c) v)) \<and>
      (\<forall>c2. flat_inv c2 fm \<and> pid c2 \<noteq> pid c \<longrightarrow> flat_inv c2 fm')"
  using alloc_mem_spec [OF assms] .

subsection \<open>A machine with one process\<close>

definition fresh_proc :: pcb_t where
  "fresh_proc = \<lparr>pid = 1, priority = 0, path = ''p0'', code = \<lparr>cs_text = [], cs_size = 0\<rparr>,
     regs = replicate 10 0, pc = 0, ready_queue = Q_wild, running_list = Q_wild,
     mlq_ready_queue = Q_wild, prio = 0, mm = None,
     page_table = \<lparr>pt_table = replicate 32 None, pt_size = 0\<rparr>, bp = 1024\<rparr>"

definition fresh_flat :: flat_mem where
  "fresh_flat = init_mem \<lparr>mem_stat = [], flat_ram = []\<rparr>"

lemma fresh_simps [simp]:
  "bp fresh_proc = 1024" "pmap (page_table fresh_proc) v = None" "pid fresh_proc = 1"
  "mem_stat fresh_flat = replicate 1024 \<lparr>ms_proc = 0, ms_index = 0, ms_next = 0\<rparr>"
  "flat_ram fresh_flat = replicate 1048576 0"
  by (simp_all add: fresh_proc_def fresh_flat_def init_mem_def pmap_def pt_entries_def mem_consts)

lemma fresh_flat_inv: "flat_inv fresh_proc fresh_flat"
proof -
  have "pt_ok (page_table fresh_proc)" by (simp add: fresh_proc_def pt_ok_def keys_ok_def pt_entries_def)
  moreover have "dom (pmap (page_table fresh_proc)) = {}" "ran (pmap (page_table fresh_proc)) = {}"
    by (auto simp: ran_def)
  ultimately show ?thesis
    unfolding flat_inv_def pmap_ok_def flat_ok_def by simp
qed

lemma fresh_free: "free_pages (mem_stat fresh_flat) [0..<1024] = [0..<1024]"
  unfolding free_pages_def by (rule filter_True) simp

theorem alloc_mem_maps_witness:
  "\<exists>c' fm'. alloc_mem 300 fresh_proc fresh_flat = Some (1024, c', fm') \<and> flat_inv c' fm' \<and>
    pmap (page_table c') 1 = Some 0"
proof -
  have "free_count fresh_flat = 1024" by (simp only: free_count_def fresh_free length_upt)
  then show ?thesis
    using alloc_mem_maps [OF fresh_flat_inv, of 1 300 1] unfolding fresh_free by auto
qed

theorem flat_memory_isolated_witness:
  "write_mem 5000 fresh_proc 7 fresh_flat = Some (1, fresh_flat) \<and>
   (\<exists>c' fm' fm''. alloc_mem 300 fresh_proc fresh_flat = Some (1024, c', fm') \<and> write_mem 1029 c' 7 fm' = Some (0, fm'') \<and>
     read_mem 1029 c' fm'' = Some (0, Some 7))"
proof
  show "write_mem 5000 fresh_proc 7 fresh_flat = Some (1, fresh_flat)"
    using flat_memory_isolated [OF fresh_flat_inv, of 5000 7] by simp
  have "free_count fresh_flat = 1024" by (simp only: free_count_def fresh_free length_upt)
  then obtain c' fm' where a: "alloc_mem 300 fresh_proc fresh_flat = Some (1024, c', fm')" "flat_inv c' fm'"
    "pmap (page_table c') 1 = Some 0"
    using alloc_mem_spec [OF fresh_flat_inv, of 1 300 1] unfolding fresh_free by auto
  have "drop_bit 10 1029 = (1 :: u32)" by simp
  with a(3) obtain fm'' where "write_mem 1029 c' 7 fm' = Some (0, fm'')" "read_mem 1029 c' fm'' = Some (0, Some 7)"
    using flat_memory_isolated [OF a(2), of 1029 7] by auto
  with a(1) show "\<exists>c' fm' fm''. alloc_mem 300 fresh_proc fresh_flat = Some (1024, c', fm') \<and>
      write_mem 1029 c' 7 fm' = Some (0, fm'') \<and> read_mem 1029 c' fm'' = Some (0, Some 7)" by blast
qed

end
