(* ===== verification/Cpu.thy ===== *)
theory Cpu
  imports Syscall Flat
begin

text \<open>
  The interpreter of \<open>src/cpu.c\<close>. \<open>run\<close> executes one instruction of a process on the kernel state of
  \<open>Killall\<close>. The file also holds the interpreter's own instructions for the flat memory (\<open>alloc\<close>,
  \<open>free_data\<close>, \<open>read\<close>, \<open>write\<close>): \<open>os-cfg.h\<close> defines \<open>MM_PAGING\<close>, so they are compiled but \<open>run\<close>
  does not call them.

  \<open>libread\<close> gets the address of the local copy of an operand and never writes through it: the byte an
  instruction \<open>read\<close> finds reaches no register of the process.
\<close>

definition calc :: "pcb_ptr \<Rightarrow> cint" where
  "calc proc = 0"

subsection \<open>Instructions on the flat memory\<close>

definition alloc :: "pcb_t \<Rightarrow> flat_mem \<Rightarrow> u32 \<Rightarrow> u32 \<Rightarrow> (cint \<times> pcb_t \<times> flat_mem) option" where
  "alloc proc fm sz reg_index = do {
     (addr, proc', fm') \<leftarrow> alloc_mem sz proc fm;
     if addr = 0 then Some (1, proc', fm')
     else do {
       rs \<leftarrow> arr_set (regs proc') (uint reg_index) addr;
       Some (0, proc'\<lparr>regs := rs\<rparr>, fm')
     }
   }"

definition free_data :: "pcb_t \<Rightarrow> u32 \<Rightarrow> cint option" where
  "free_data proc reg_index = do {
     a \<leftarrow> arr_get (regs proc) (uint reg_index);
     Some (free_mem a proc)
   }"

definition cpu_read :: "pcb_t \<Rightarrow> flat_mem \<Rightarrow> u32 \<Rightarrow> u32 \<Rightarrow> u32 \<Rightarrow> (cint \<times> pcb_t) option" where
  "cpu_read proc fm source offset destination = do {
     a \<leftarrow> arr_get (regs proc) (uint source);
     (e, data) \<leftarrow> read_mem (a + offset) proc fm;
     if e \<noteq> 0 then do {
       v \<leftarrow> data;
       rs \<leftarrow> arr_set (regs proc) (uint destination) (u32_of_byte v);
       Some (0, proc\<lparr>regs := rs\<rparr>)
     }
     else Some (1, proc)
   }"

definition cpu_write :: "pcb_t \<Rightarrow> flat_mem \<Rightarrow> u8 \<Rightarrow> u32 \<Rightarrow> u32 \<Rightarrow> (cint \<times> flat_mem) option" where
  "cpu_write proc fm data destination offset = do {
     a \<leftarrow> arr_get (regs proc) (uint destination);
     write_mem (a + offset) proc data fm
   }"

subsection \<open>One instruction\<close>

text \<open>The \<open>switch\<close> of \<open>run\<close>, after the program counter has been advanced.\<close>

definition exec_inst :: "kernel \<Rightarrow> pcb_ptr \<Rightarrow> inst_t \<Rightarrow> (cint \<times> kernel) option" where
  "exec_inst k proc ins = do {
     x \<leftarrow> k_pcbs k proc;
     let d = k_devs k;
     let upd = (\<lambda>x' d'. k\<lparr>k_pcbs := (k_pcbs k)(proc \<mapsto> x'), k_devs := d'\<rparr>);
     (case opcode ins of
        CALC \<Rightarrow> Some (calc proc, k)
      | ALLOC \<Rightarrow> do { (r, _, x', d') \<leftarrow> liballoc x d (arg_0 ins) (arg_1 ins); Some (r, upd x' d') }
      | FREE \<Rightarrow> do { (r, x') \<leftarrow> libfree x (arg_0 ins); Some (r, upd x' d) }
      | READ \<Rightarrow> do { (r, x', d') \<leftarrow> libread x d (arg_0 ins) (arg_1 ins); Some (r, upd x' d') }
      | WRITE \<Rightarrow> do {
          (r, x', d') \<leftarrow> libwrite x d (byte_of_u32 (arg_0 ins)) (arg_1 ins) (arg_2 ins);
          Some (r, upd x' d')
        }
      | SYSCALL \<Rightarrow> libsyscall k proc (arg_0 ins) (arg_1 ins) (arg_2 ins) (arg_3 ins))
   }"

definition run :: "kernel \<Rightarrow> pcb_ptr \<Rightarrow> (cint \<times> kernel) option" where
  "run k proc = do {
     x \<leftarrow> k_pcbs k proc;
     if pc x \<ge> cs_size (code x) then Some (1, k)
     else do {
       ins \<leftarrow> arr_get (cs_text (code x)) (uint (pc x));
       exec_inst (k\<lparr>k_pcbs := (k_pcbs k)(proc \<mapsto> x\<lparr>pc := pc x + 1\<rparr>)\<rparr>) proc ins
     }
   }"

text \<open>A number of calls of \<open>run\<close> in a row, as a CPU makes them.\<close>

fun runs :: "nat \<Rightarrow> kernel \<Rightarrow> pcb_ptr \<Rightarrow> kernel option" where
  "runs 0 k proc = Some k"
| "runs (Suc n) k proc = do { (_, k') \<leftarrow> run k proc; runs n k' proc }"

subsection \<open>What the library leaves alone\<close>

text \<open>
  The operations of the memory library change \<open>mm\<close> and \<open>bp\<close> of the caller and nothing else, and they
  keep the sizes of the arrays of \<open>mm\<close>.
\<close>

definition mm_shape :: "mm_struct \<Rightarrow> nat \<times> nat \<times> nat" where
  "mm_shape m = (length (pgd m), length (symrgtbl m), length (mmap m))"

definition mem_only :: "pcb_t \<Rightarrow> pcb_t \<Rightarrow> bool" where
  "mem_only x x' \<longleftrightarrow> x'\<lparr>mm := mm x, bp := bp x\<rparr> = x \<and> map_option mm_shape (mm x') = map_option mm_shape (mm x)"

lemma mem_only_refl [simp, intro]: "mem_only x x"
  by (cases x) (simp add: mem_only_def)

lemma mem_only_mm: "mem_only x y \<Longrightarrow> mm y = Some m0 \<Longrightarrow> mm_shape m = mm_shape m0 \<Longrightarrow> mem_only x (y\<lparr>mm := Some m\<rparr>)"
  by (cases x, cases y) (simp add: mem_only_def)

lemma mem_only_bp [simp]: "mem_only x (y\<lparr>bp := b\<rparr>) \<longleftrightarrow> mem_only x y" "mem_only (x\<lparr>bp := b\<rparr>) y \<longleftrightarrow> mem_only x y"
  by (cases x, cases y, simp add: mem_only_def)+

lemma mem_only_trans: "mem_only x y \<Longrightarrow> mem_only y z \<Longrightarrow> mem_only x z"
  by (cases x, cases y, cases z) (simp add: mem_only_def)

lemma shape_simps [simp]:
  "mm_shape (vma_set m k v) = mm_shape m" "mm_shape (m\<lparr>fifo_pgn := f\<rparr>) = mm_shape m"
  "length pd = length (pgd m) \<Longrightarrow> mm_shape (m\<lparr>pgd := pd\<rparr>) = mm_shape m"
  "length st = length (symrgtbl m) \<Longrightarrow> mm_shape (m\<lparr>symrgtbl := st\<rparr>) = mm_shape m"
  "length pd = length (pgd m) \<Longrightarrow> mm_shape (m\<lparr>pgd := pd, fifo_pgn := f\<rparr>) = mm_shape m"
  by (simp_all add: mm_shape_def vma_set_def)

lemma rg_store_shape: "rg_store m q r = Some m' \<Longrightarrow> mm_shape m' = mm_shape m"
  by (cases q) (auto simp: mm_shape_def split: if_splits)

lemma rg_free_shape: "rg_free m q = Some m' \<Longrightarrow> mm_shape m' = mm_shape m"
  by (cases q) (auto simp: mm_shape_def split: if_splits)

lemma vmap_loop_length: "vmap_loop pd a n i fs = Some pd' \<Longrightarrow> length pd' = length pd"
  by (induction pd a n i fs rule: vmap_loop.induct)
    (auto simp: Let_def bind_eq_Some_conv split: if_splits dest: length_arr_set)

lemma free_vmrg_loop_keeps:
  assumes "free_vmrg_loop m v sz prev rgit = Some (r, w, m')"
  shows "mm_shape m' = mm_shape m \<and> pgd m' = pgd m"
proof -
  have "mm_shape (snd (snd y)) = mm_shape m \<and> pgd (snd (snd y)) = pgd m" if "free_vmrg_loop m v sz prev rgit = Some y" for y
    using that
  proof (rule free_vmrg_loop.raw_induct [rotated], goal_cases)
    case (1 f m v sz prev rgit y)
    show ?case
    proof (cases "rgit = RgNull")
      case True
      then show ?thesis using 1(2) by auto
    next
      case False
      with 1(2) obtain r where r: "rg_load m rgit = Some r" by (auto simp: bind_eq_Some_conv)
      show ?thesis
      proof (cases "int_of_u64 (rg_end r - rg_start r) \<ge> sz")
        case True
        define e where "e = rg_start r + u64_of_int sz"
        define w where "w = (rg_start r, e)"
        from 1(2) False r True obtain m1 where m1: "rg_store m rgit (r\<lparr>rg_start := e\<rparr>) = Some m1"
          and y: "y = (0, w, m1) \<or> (\<exists>m2 m3. (m2 = vma_set m1 v ((mmap m1 ! v)\<lparr>vm_freerg_list := rg_next r\<rparr>) \<or>
            (\<exists>q. rg_store m1 prev q = Some m2)) \<and> rg_free m2 rgit = Some m3 \<and> y = (0, w, m3))"
          by (simp add: Let_def bind_eq_Some_conv e_def [symmetric] w_def [symmetric] split: if_splits) blast+
        have st: "mm_shape b = mm_shape a \<and> pgd b = pgd a" if "rg_store a q x = Some b" for a b q x
          using rg_store_shape [OF that] rg_store_fields(1) [OF that] by simp
        have fr: "mm_shape b = mm_shape a \<and> pgd b = pgd a" if "rg_free a q = Some b" for a b q
          using rg_free_shape [OF that] rg_free_fields(1) [OF that] by simp
        from st [OF m1] y show ?thesis by (auto simp: vma_set_fields dest!: st fr)
      next
        case ge: False
        from 1(2) r False ge have "f m v sz rgit (rg_next r) = Some y" by simp
        then show ?thesis by (rule 1(1))
      qed
    qed
  qed
  from this [OF assms] show ?thesis by simp
qed

lemma mem_only_fields:
  assumes "mem_only x x'"
  shows "pid x' = pid x" "priority x' = priority x" "path x' = path x" "code x' = code x" "regs x' = regs x"
    "pc x' = pc x" "ready_queue x' = ready_queue x" "running_list x' = running_list x"
    "mlq_ready_queue x' = mlq_ready_queue x" "prio x' = prio x" "page_table x' = page_table x"
  using assms by (cases x, cases x', simp add: mem_only_def)+

lemma mem_only_exec: "mem_only (x\<lparr>pc := n\<rparr>) x' \<Longrightarrow> x' = x\<lparr>pc := n, mm := mm x', bp := bp x'\<rparr>"
  by (cases x, cases x') (simp add: mem_only_def)

lemma vm_map_ram_only:
  "vm_map_ram c d s e a n = Some (r, rg, c', d') \<Longrightarrow> mem_only c c'"
  by (auto simp: vm_map_ram_def vmap_page_range_def Let_def split_def bind_eq_Some_conv split: if_splits
      dest!: vmap_loop_length intro!: mem_only_mm)

lemma inc_vma_limit_only:
  assumes "inc_vma_limit c d v n = Some (r, c', d')"
  shows "mem_only c c'"
proof -
  have *: "mem_only c c'" if "vm_map_ram (c\<lparr>bp := b, mm := Some (vma_set m k w)\<rparr>) d s e a n' = Some (r', rg, c', d'')" "mm c = Some m"
    for b m k w s e a n' r' rg d''
    using vm_map_ram_only [OF that(1)] that(2) mem_only_trans [OF mem_only_mm [of c "c\<lparr>bp := b\<rparr>" m "vma_set m k w"]] by simp
  show ?thesis
    using assms by (auto simp: inc_vma_limit_def get_vm_area_node_at_brk_def Let_def split_def bind_eq_Some_conv
        split: if_splits option.splits dest: *)
qed

lemma get_free_vmrg_area_only:
  "get_free_vmrg_area c v z = Some (e, w, c1) \<Longrightarrow> mem_only c c1"
  by (auto simp: get_free_vmrg_area_def Let_def bind_eq_Some_conv split: if_splits option.splits prod.splits
      dest!: free_vmrg_loop_keeps intro!: mem_only_mm)

lemma liballoc_only:
  assumes "liballoc c d s n = Some (r, a, c', d')"
  shows "mem_only c c'"
  using assms
  by (auto simp: liballoc_def alloc_region_def Let_def bind_eq_Some_conv split: if_splits option.splits prod.splits
      dest!: get_free_vmrg_area_only inc_vma_limit_only length_arr_set intro!: mem_only_mm intro: mem_only_trans)

lemma libfree_only: "libfree c n = Some (r, c') \<Longrightarrow> mem_only c c'"
proof -
  have e: "mm_shape m1 = mm_shape m" if "enlist_vm_freerg_list m q = Some (z, m1)" for m q z m1
    using that by (auto simp: enlist_vm_freerg_list_def Let_def bind_eq_Some_conv
        split: list.splits if_splits dest!: rg_store_shape)
  have *: "mem_only c c'" if "(if b then Some (-1, c) else e) = Some (r, c')" "e = Some (r, c') \<Longrightarrow> mem_only c c'" for b e
    using that by (cases b) auto
  assume "libfree c n = Some (r, c')"
  then show ?thesis
    unfolding libfree_def free_region_def Let_def
    by (elim * bind_eq_Some_conv [THEN iffD1, elim_format] exE conjE)
      (auto simp: bind_eq_Some_conv split_def split: if_splits dest!: e rg_store_shape intro!: mem_only_mm)
qed

lemma find_victim_page_shape: "find_victim_page m = Some (r, n, m') \<Longrightarrow> mm_shape m' = mm_shape m"
  by (cases "fifo_pgn m") (auto simp: find_victim_page_def)

lemma pg_getpage_only: "pg_getpage c d n = Some (r, f, c', d') \<Longrightarrow> mem_only c c'"
  by (auto simp: pg_getpage_def Let_def bind_eq_Some_conv split: if_splits prod.splits
      dest!: length_arr_set find_victim_page_shape intro!: mem_only_mm)

lemma libread_only: "libread c d s n = Some (r, c', d') \<Longrightarrow> mem_only c c'"
  by (auto simp: libread_def read_region_def pg_getval_def Let_def bind_eq_Some_conv
      split: if_splits prod.splits dest!: pg_getpage_only)

lemma libwrite_only: "libwrite c d v s n = Some (r, c', d') \<Longrightarrow> mem_only c c'"
  by (auto simp: libwrite_def write_region_def pg_setval_def Let_def bind_eq_Some_conv
      split: if_splits prod.splits dest!: pg_getpage_only)

lemma name_loop_only: "name_loop c d rg buf i = Some (b, c', d') \<Longrightarrow> mem_only c c'"
proof (induction c d rg buf i arbitrary: b c' d' rule: name_loop.induct)
  case (1 c d rg buf i)
  from 1(2) obtain r c1 d1 buf1 where rd: "libread c d rg (u32_of_int i) = Some (r, c1, d1)"
    and rest: "c' = c1 \<or> name_loop c1 d1 rg buf1 (i + 1) = Some (b, c', d')" "\<not> i + 1 \<ge> 99 \<or> c' = c1"
    and b1: "arr_set buf i (Some (byte_of_u32 0)) = Some buf1"
    by (subst (asm) name_loop.simps) (auto simp: bind_eq_Some_conv Let_def split: if_splits)
  show ?case
  proof (cases "c' = c1")
    case True
    then show ?thesis using libread_only [OF rd] by simp
  next
    case False
    then have "mem_only c1 c'" using 1(1) [OF refl rd refl refl _ b1] rest by auto
    then show ?thesis using libread_only [OF rd] mem_only_trans by blast
  qed
qed

lemma libsyscall_only:
  assumes "libsyscall k p nr y1 y2 y3 = Some (r, k')" "k_pcbs k p = Some x"
  shows "\<exists>x'. k_pcbs k' = (k_pcbs k)(p \<mapsto> x') \<and> mem_only x x'"
proof -
  have same: "\<exists>x'. k_pcbs k = (k_pcbs k)(p \<mapsto> x') \<and> mem_only x x'"
    using assms(2) by (intro exI [of _ x]) auto
  have memmap: "\<exists>x'. k_pcbs k1 = (k_pcbs k)(p \<mapsto> x') \<and> mem_only x x'"
    if "sys_memmap k p regs = Some (r, regs', k1)" for regs regs' k1
    using that assms(2) same
    by (auto simp: sys_memmap_def Let_def split_def bind_eq_Some_conv split: if_splits dest!: inc_vma_limit_only)
  have kill: "\<exists>x'. k_pcbs k1 = (k_pcbs k)(p \<mapsto> x') \<and> mem_only x x'"
    if "sys_killall k p a = Some (r, k1)" for a k1
    using that assms(2)
    by (auto simp: sys_killall_def Let_def split_def bind_eq_Some_conv dest!: name_loop_only)
  show ?thesis
    using assms(1) same
    by (auto simp: libsyscall_def syscall_def sys_listsyscall_def sys_xxxhandler_def sys_ni_syscall_def
        bind_eq_Some_conv Let_def split: if_splits dest!: memmap kill)
qed

text \<open>One instruction changes the memory fields of its own process and nothing of any other.\<close>

lemma exec_inst_only:
  assumes "exec_inst k p ins = Some (r, k')" "k_pcbs k p = Some x"
  shows "\<exists>x'. k_pcbs k' = (k_pcbs k)(p \<mapsto> x') \<and> mem_only x x'"
proof -
  have "\<exists>x'. k_pcbs k = (k_pcbs k)(p \<mapsto> x') \<and> mem_only x x'"
    using assms(2) by (intro exI [of _ x]) auto
  then show ?thesis
    using assms
    by (cases "opcode ins")
      (auto simp: exec_inst_def Let_def bind_eq_Some_conv
        dest!: liballoc_only libfree_only libread_only libwrite_only libsyscall_only)
qed

text \<open>Nor does it make a process ready: at most \<open>killall\<close> takes some off a queue.\<close>

lemma sched_ok_dom: "sched_ok st s \<Longrightarrow> dom st \<subseteq> dom st' \<Longrightarrow> sched_ok st' s"
  by (fastforce simp: sched_ok_def mlq_ok_def live_queue_def)

lemma libsyscall_ready:
  assumes "libsyscall k p nr y1 y2 y3 = Some (r, k')" "k_pcbs k p = Some x" "sched_ok (k_pcbs k) (k_sched k)"
  shows "sched_ok (k_pcbs k') (k_sched k') \<and> ready_procs (k_sched k') \<subseteq># ready_procs (k_sched k)"
proof -
  have ok: "sched_ok ((k_pcbs k)(p \<mapsto> z)) (k_sched k)" for z by (rule sched_ok_dom [OF assms(3)]) auto
  have memmap: "sched_ok (k_pcbs k1) (k_sched k1) \<and> k_sched k1 = k_sched k"
    if "sys_memmap k p regs = Some (r, regs', k1)" for regs regs' k1
    using that assms(2,3) ok by (auto simp: sys_memmap_def Let_def split_def bind_eq_Some_conv split: if_splits)
  have kill: "sched_ok (k_pcbs k1) (k_sched k1) \<and> ready_procs (k_sched k1) \<subseteq># ready_procs (k_sched k)"
    if "sys_killall k p a = Some (r, k1)" for a k1
  proof -
    from that obtain x' d' nm s1 s2 where s: "kill_at ((k_pcbs k)(p \<mapsto> x')) (k_sched k) (running_list x') nm = Some s1"
      "kill_at ((k_pcbs k)(p \<mapsto> x')) s1 (mlq_ready_queue x') nm = Some s2"
      "k1 = \<lparr>k_pcbs = (k_pcbs k)(p \<mapsto> x'), k_sched = s2, k_devs = d'\<rparr>"
      by (auto simp: sys_killall_def Let_def split_def bind_eq_Some_conv)
    from kill_at_ready [OF ok s(1)] kill_at_ready [OF _ s(2)] s(3) show ?thesis
      by (auto intro: subset_mset.order_trans)
  qed
  show ?thesis
    using assms(1,3)
    by (auto simp: libsyscall_def syscall_def sys_listsyscall_def sys_xxxhandler_def sys_ni_syscall_def
        bind_eq_Some_conv Let_def split: if_splits dest!: memmap kill)
qed

lemma exec_inst_ready:
  assumes "exec_inst k p ins = Some (r, k')" "k_pcbs k p = Some x" "sched_ok (k_pcbs k) (k_sched k)"
  shows "sched_ok (k_pcbs k') (k_sched k') \<and> ready_procs (k_sched k') \<subseteq># ready_procs (k_sched k)"
proof -
  have ok: "sched_ok ((k_pcbs k)(p \<mapsto> z)) (k_sched k)" for z by (rule sched_ok_dom [OF assms(3)]) auto
  show ?thesis
    using assms ok
    by (cases "opcode ins")
      (auto simp: exec_inst_def Let_def bind_eq_Some_conv dest!: libsyscall_ready)
qed

subsection \<open>Running a program\<close>

lemma run_cases:
  assumes "run k p = Some (r, k')" "k_pcbs k p = Some x"
  obtains (ended) "cs_size (code x) \<le> pc x" "r = 1" "k' = k"
    | (step) x' where "pc x < cs_size (code x)" "k_pcbs k' = (k_pcbs k)(p \<mapsto> x')" "mem_only (x\<lparr>pc := pc x + 1\<rparr>) x'"
proof (cases "cs_size (code x) \<le> pc x")
  case True
  then show thesis using assms ended by (simp add: run_def)
next
  case False
  let ?x = "x\<lparr>pc := pc x + 1\<rparr>"
  from False assms obtain ins where e: "exec_inst (k\<lparr>k_pcbs := (k_pcbs k)(p \<mapsto> ?x)\<rparr>) p ins = Some (r, k')"
    by (auto simp: run_def bind_eq_Some_conv)
  from exec_inst_only [OF this, of ?x] obtain x' where "k_pcbs k' = (k_pcbs k)(p \<mapsto> x')" "mem_only ?x x'" by auto
  with False show thesis by (intro step) auto
qed

lemma run_ready:
  assumes "run k p = Some (r, k')" "sched_ok (k_pcbs k) (k_sched k)"
  shows "sched_ok (k_pcbs k') (k_sched k') \<and> ready_procs (k_sched k') \<subseteq># ready_procs (k_sched k)"
proof -
  from assms(1) obtain x where x: "k_pcbs k p = Some x" by (auto simp: run_def bind_eq_Some_conv)
  let ?k = "k\<lparr>k_pcbs := (k_pcbs k)(p \<mapsto> x\<lparr>pc := pc x + 1\<rparr>)\<rparr>"
  have ok: "sched_ok (k_pcbs ?k) (k_sched ?k)" by (simp, rule sched_ok_dom [OF assms(2)]) auto
  have step: "sched_ok (k_pcbs k') (k_sched k') \<and> ready_procs (k_sched k') \<subseteq># ready_procs (k_sched k)"
    if "exec_inst ?k p ins = Some (r, k')" for ins
    using exec_inst_ready [OF that _ ok] by auto
  from assms x show ?thesis
    by (auto simp: run_def bind_eq_Some_conv split: if_splits dest!: step)
qed

text \<open>
  C39. One call of \<open>run\<close>: a process at the end of its code is left alone and 1 is returned; otherwise
  its program counter advances by exactly one, its code, registers, priorities and queue pointers do
  not change, and no other process changes.
\<close>

theorem run_advances:
  assumes "run k p = Some (r, k')" "k_pcbs k p = Some x"
  shows "if cs_size (code x) \<le> pc x then r = 1 \<and> k' = k
    else \<exists>m b. k_pcbs k' = (k_pcbs k)(p \<mapsto> x\<lparr>pc := pc x + 1, mm := m, bp := b\<rparr>)"
  using assms
proof (cases rule: run_cases)
  case (step x')
  from mem_only_exec [OF step(3)] step(1,2) show ?thesis by (metis leD)
qed simp

text \<open>The types of the machine: array lengths, program counters in the code, live ready queues.\<close>

definition pcb_wf :: "pcb_t \<Rightarrow> bool" where
  "pcb_wf x \<longleftrightarrow> length (regs x) = 10 \<and> int (length (cs_text (code x))) = uint (cs_size (code x)) \<and>
    pc x \<le> cs_size (code x) \<and>
    (case mm x of None \<Rightarrow> True | Some m \<Rightarrow> length (pgd m) = 16384 \<and> length (symrgtbl m) = 30)"

definition machine_ok :: "kernel \<Rightarrow> bool" where
  "machine_ok k \<longleftrightarrow> (\<forall>p y. k_pcbs k p = Some y \<longrightarrow> pcb_wf y) \<and> k_pcbs k 0 = None \<and>
    sched_ok (k_pcbs k) (k_sched k)"

lemma pcb_wf_step:
  assumes "pcb_wf x" "pc x < cs_size (code x)" "mem_only (x\<lparr>pc := pc x + 1\<rparr>) x'"
  shows "pcb_wf x'"
proof -
  have "pc x + 1 \<le> cs_size (code x)" using assms(2) by (rule inc_le)
  moreover have "map_option mm_shape (mm x') = map_option mm_shape (mm x)"
    using assms(3) by (cases x) (simp add: mem_only_def)
  ultimately show ?thesis
    using assms(1) mem_only_fields [OF assms(3)]
    by (auto simp: pcb_wf_def mm_shape_def split: option.splits)
qed

lemma run_machine_ok:
  assumes "run k p = Some (r, k')" "machine_ok k"
  shows "machine_ok k' \<and> dom (k_pcbs k') = dom (k_pcbs k)"
proof -
  from assms(1) obtain x where x: "k_pcbs k p = Some x" by (auto simp: run_def bind_eq_Some_conv)
  with assms(2) have "pcb_wf x" "p \<noteq> 0" by (auto simp: machine_ok_def intro: gr0I)
  note r = run_ready [OF assms(1)]
  from assms(1) x show ?thesis
  proof (cases rule: run_cases)
    case (step x')
    with \<open>pcb_wf x\<close> have "pcb_wf x'" by (blast intro: pcb_wf_step)
    with step(2) assms(2) r x \<open>p \<noteq> 0\<close> show ?thesis by (auto simp: machine_ok_def)
  qed (use assms(2) in simp)
qed

text \<open>
  Types are preserved: \<open>run\<close> keeps the machine well formed (array sizes, program counters within
  the code, ready queues of live processes), creates and destroys no process and makes none ready.
\<close>

lemma run_keeps_types:
  assumes "run k p = Some (r, k')" "machine_ok k"
  shows "machine_ok k' \<and> dom (k_pcbs k') = dom (k_pcbs k) \<and>
    ready_procs (k_sched k') \<subseteq># ready_procs (k_sched k)"
  using run_machine_ok [OF assms] run_ready [OF assms(1)] assms(2) by (simp add: machine_ok_def)

subsection \<open>Programs that only compute and access memory\<close>

text \<open>Instructions that stay within present pages of the regions of the process.\<close>

definition access_ok :: "mm_struct \<Rightarrow> inst_t \<Rightarrow> bool" where
  "access_ok m ins \<longleftrightarrow> (case opcode ins of
     CALC \<Rightarrow> True
   | READ \<Rightarrow> region_ok m (arg_0 ins) \<and> pg_tr (pgd m) (region_addr m (arg_0 ins) (arg_1 ins)) \<noteq> None
   | WRITE \<Rightarrow> region_ok m (arg_1 ins) \<and> pg_tr (pgd m) (region_addr m (arg_1 ins) (arg_2 ins)) \<noteq> None
   | _ \<Rightarrow> False)"

text \<open>What a run of such a program does to RAM: the invariant stays, and other frames keep their bytes.\<close>

definition ram_step :: "u32 list \<Rightarrow> memphy \<Rightarrow> memphy \<Rightarrow> bool" where
  "ram_step pd m m' \<longleftrightarrow> vm_inv pd m' \<and> (\<forall>pd2 b. mapped_frames pd \<inter> mapped_frames pd2 = {} \<longrightarrow>
    pgspace.vread pd2 m' b = pgspace.vread pd2 m b)"

lemma ram_step_refl: "vm_inv pd m \<Longrightarrow> ram_step pd m m"
  by (simp add: ram_step_def)

lemma ram_step_trans: "ram_step pd m m' \<Longrightarrow> ram_step pd m' m'' \<Longrightarrow> ram_step pd m m''"
  by (simp add: ram_step_def)

lemma ram_step_write:
  assumes "vm_inv pd m" "pgspace.vwrite pd m a v = Some m'"
  shows "ram_step pd m m'"
  using vm_inv_vwrite [OF assms] vm_inv_pd_wf [OF assms(1)]
    pgspace.vread_vwrite_separate [OF _ assms(2) disjoint_frames_tr]
  by (simp add: ram_step_def)

lemma exec_access:
  assumes "k_pcbs k p = Some x" "mm x = Some m" "mram (k_devs k) = Some ram" "vm_inv (pgd m) ram" "access_ok m ins"
  shows "\<exists>ram'. exec_inst k p ins = Some (0, k\<lparr>k_devs := (k_devs k)\<lparr>mram := Some ram'\<rparr>\<rparr>) \<and> ram_step (pgd m) ram ram'"
proof -
  have st: "(k_pcbs k)(p \<mapsto> x) = k_pcbs k" using assms(1) by auto
  have dv: "(k_devs k)\<lparr>mram := Some ram\<rparr> = k_devs k" using assms(3) by simp
  show ?thesis
  proof (cases "opcode ins")
    case CALC
    then show ?thesis
      using assms(1) ram_step_refl [OF assms(4)] dv
      by (intro exI [of _ ram]) (simp add: exec_inst_def calc_def Let_def)
  next
    case READ
    then have a: "region_ok m (arg_0 ins)" "pg_tr (pgd m) (region_addr m (arg_0 ins) (arg_1 ins)) \<noteq> None"
      using assms(5) by (simp_all add: access_ok_def)
    from vm_inv_vread [OF assms(4) a(2)] pg_getval_eq [OF assms(2,3) _ a(2)] vm_inv_pd_wf [OF assms(4)]
    obtain v where "pg_getval x (k_devs k) (region_addr m (arg_0 ins) (arg_1 ins)) = Some (0, Some v, x, k_devs k)" by auto
    with libread_region [OF assms(2) a(1)] READ assms(1) st dv ram_step_refl [OF assms(4)] show ?thesis
      by (intro exI [of _ ram]) (simp add: exec_inst_def Let_def)
  next
    case WRITE
    then have a: "region_ok m (arg_1 ins)" "pg_tr (pgd m) (region_addr m (arg_1 ins) (arg_2 ins)) \<noteq> None"
      using assms(5) by (simp_all add: access_ok_def)
    from pg_setval_present [OF assms(2-4) a(2)] obtain ram' where
      "pg_setval x (k_devs k) (region_addr m (arg_1 ins) (arg_2 ins)) (byte_of_u32 (arg_0 ins)) =
        Some (0, x, (k_devs k)\<lparr>mram := Some ram'\<rparr>)"
      "pgspace.vwrite (pgd m) ram (region_addr m (arg_1 ins) (arg_2 ins)) (byte_of_u32 (arg_0 ins)) = Some ram'" by blast
    with libwrite_region [OF assms(2) a(1)] WRITE assms(1) st ram_step_write [OF assms(4)] show ?thesis
      by (intro exI [of _ ram']) (simp add: exec_inst_def Let_def)
  qed (use assms(5) in \<open>simp_all add: access_ok_def\<close>)
qed

lemma unat_Suc:
  fixes w v :: u32
  assumes "unat w < unat v"
  shows "unat (w + 1) = Suc (unat w)"
proof -
  have "unat v < 2 ^ 32" using unsigned_less [of v] by simp
  with assms show ?thesis by (simp add: unat_word_ariths)
qed

lemma runs_access:
  assumes "k_pcbs k p = Some x" "mm x = Some m" "mram (k_devs k) = Some ram" "vm_inv (pgd m) ram"
    and "int (length (cs_text (code x))) = uint (cs_size (code x))" "\<forall>ins \<in> set (cs_text (code x)). access_ok m ins"
    and "unat (pc x) + n \<le> unat (cs_size (code x))"
  shows "\<exists>ram'. runs n k p = Some (k\<lparr>k_pcbs := (k_pcbs k)(p \<mapsto> x\<lparr>pc := pc x + of_nat n\<rparr>),
    k_devs := (k_devs k)\<lparr>mram := Some ram'\<rparr>\<rparr>) \<and> ram_step (pgd m) ram ram'"
  using assms
proof (induction n arbitrary: k x ram)
  case 0
  then have "(k_pcbs k)(p \<mapsto> x) = k_pcbs k" "(k_devs k)\<lparr>mram := Some ram\<rparr> = k_devs k" by auto
  then show ?case using ram_step_refl [OF 0(4)] by (intro exI [of _ ram]) simp
next
  case (Suc n)
  let ?x = "x\<lparr>pc := pc x + 1\<rparr>" and ?ins = "cs_text (code x) ! unat (pc x)"
  have lt: "unat (pc x) < unat (cs_size (code x))" using Suc.prems(7) by simp
  then have pc: "unat (pc x + 1) = Suc (unat (pc x))"
    by (rule unat_Suc)
  have len: "uint (pc x) < int (length (cs_text (code x)))"
    using lt Suc.prems(5) by (simp add: word_less_nat_alt [symmetric] word_less_def)
  then have ins: "arr_get (cs_text (code x)) (uint (pc x)) = Some ?ins" by (simp add: arr_get_def)
  have "nat (uint (pc x)) < length (cs_text (code x))" using len by (simp only: nat_less_iff uint_ge_0)
  then have "?ins \<in> set (cs_text (code x))" by simp
  with Suc.prems(6) have ok: "access_ok m ?ins" by blast
  let ?k = "k\<lparr>k_pcbs := (k_pcbs k)(p \<mapsto> ?x)\<rparr>"
  from exec_access [of ?k p ?x m ram ?ins] Suc.prems(2-4) ok obtain ram1 where
    e: "exec_inst ?k p ?ins = Some (0, ?k\<lparr>k_devs := (k_devs k)\<lparr>mram := Some ram1\<rparr>\<rparr>)" "ram_step (pgd m) ram ram1" by auto
  have "\<not> cs_size (code x) \<le> pc x" using lt by (simp add: word_le_nat_alt)
  then have r: "run k p = Some (0, ?k\<lparr>k_devs := (k_devs k)\<lparr>mram := Some ram1\<rparr>\<rparr>)"
    using Suc.prems(1) ins e(1) by (simp add: run_def)
  let ?k1 = "?k\<lparr>k_devs := (k_devs k)\<lparr>mram := Some ram1\<rparr>\<rparr>"
  have inv1: "vm_inv (pgd m) ram1" using e(2) by (simp add: ram_step_def)
  have "\<exists>ram'. runs n ?k1 p = Some (?k1\<lparr>k_pcbs := (k_pcbs ?k1)(p \<mapsto> ?x\<lparr>pc := pc ?x + of_nat n\<rparr>),
      k_devs := (k_devs ?k1)\<lparr>mram := Some ram'\<rparr>\<rparr>) \<and> ram_step (pgd m) ram1 ram'"
    by (rule Suc.IH) (use Suc.prems inv1 pc in simp_all)
  then obtain ram' where "runs n ?k1 p =
      Some (k\<lparr>k_pcbs := (k_pcbs k)(p \<mapsto> x\<lparr>pc := pc x + 1 + of_nat n\<rparr>), k_devs := (k_devs k)\<lparr>mram := Some ram'\<rparr>\<rparr>)"
    "ram_step (pgd m) ram1 ram'" by (simp del: fun_upd_apply) blast
  note rest = this
  have "pc x + 1 + of_nat n = pc x + of_nat (Suc n)" by simp
  with r rest(1) have "runs (Suc n) k p = Some (k\<lparr>k_pcbs := (k_pcbs k)(p \<mapsto> x\<lparr>pc := pc x + of_nat (Suc n)\<rparr>),
      k_devs := (k_devs k)\<lparr>mram := Some ram'\<rparr>\<rparr>)" by (simp only: runs.simps) simp
  with ram_step_trans [OF e(2) rest(2)] show ?case by blast
qed

text \<open>
  C40. A process whose program only computes and accesses present pages of its regions runs to its end:
  after as many calls of \<open>run\<close> as instructions are left it is at the end of its code, further calls
  change nothing, and whatever it wrote, a process on other frames still reads the same bytes.
\<close>

theorem access_program_finishes:
  assumes "k_pcbs k p = Some x" "mm x = Some m" "mram (k_devs k) = Some ram" "vm_inv (pgd m) ram"
    and "int (length (cs_text (code x))) = uint (cs_size (code x))" "\<forall>ins \<in> set (cs_text (code x)). access_ok m ins"
    and "pc x \<le> cs_size (code x)"
    and "mm y = Some m2" "vm_inv (pgd m2) ram" "mapped_frames (pgd m) \<inter> mapped_frames (pgd m2) = {}"
    and "pg_tr (pgd m2) b \<noteq> None"
  shows "\<exists>k' u. runs (unat (cs_size (code x) - pc x)) k p = Some k' \<and>
    k_pcbs k' = (k_pcbs k)(p \<mapsto> x\<lparr>pc := cs_size (code x)\<rparr>) \<and> run k' p = Some (1, k') \<and>
    pg_getval y (k_devs k) b = Some (0, Some u, y, k_devs k) \<and>
    pg_getval y (k_devs k') b = Some (0, Some u, y, k_devs k')"
proof -
  let ?n = "unat (cs_size (code x) - pc x)"
  have "unat (pc x) + ?n \<le> unat (cs_size (code x))"
    using assms(7) by (simp add: unat_sub word_le_nat_alt)
  from runs_access [OF assms(1-6) this] obtain ram' where
    r: "runs ?n k p = Some (k\<lparr>k_pcbs := (k_pcbs k)(p \<mapsto> x\<lparr>pc := cs_size (code x)\<rparr>),
      k_devs := (k_devs k)\<lparr>mram := Some ram'\<rparr>\<rparr>)" "ram_step (pgd m) ram ram'" by auto
  let ?k = "k\<lparr>k_pcbs := (k_pcbs k)(p \<mapsto> x\<lparr>pc := cs_size (code x)\<rparr>), k_devs := (k_devs k)\<lparr>mram := Some ram'\<rparr>\<rparr>"
  from vm_inv_vread [OF assms(9,11)] obtain u where u: "pgspace.vread (pgd m2) ram b = Some u" ..
  have ok: "ram_ok ram" "ram_ok ram'" using vm_inv_pd_wf r(2) assms(9) by (auto simp: ram_step_def)
  have "pg_getval y (k_devs k) b = Some (0, Some u, y, k_devs k)"
    using pg_getval_eq [OF assms(8,3) ok(1) assms(11)] u by simp
  moreover have "pg_getval y (k_devs ?k) b = Some (0, Some u, y, k_devs ?k)"
    using pg_getval_eq [OF assms(8) _ ok(2) assms(11), of "k_devs ?k"] u r(2) assms(10) by (simp add: ram_step_def)
  moreover have "run ?k p = Some (1, ?k)" by (simp add: run_def)
  ultimately show ?thesis using r(1) by (intro exI [of _ ?k] exI [of _ u]) simp
qed

subsection \<open>The load instruction of the flat memory\<close>

text \<open>
  The flat-memory \<open>read\<close> tests the result of \<open>read_mem\<close> the wrong way round: on a mapped address it
  reports failure and drops the byte, on an unmapped one it would store a byte that was never assigned.
  No register is ever loaded.
\<close>

lemma cpu_read_never_loads:
  assumes "flat_inv proc fm" "length (regs proc) = 10" "source < 10"
  shows "cpu_read proc fm source offset destination =
    (if flat_tr (page_table proc) (regs proc ! unat source + offset) = None then None else Some (1, proc))"
proof -
  have src: "arr_get (regs proc) (uint source) = Some (regs proc ! unat source)"
  proof -
    have "uint source < 10" using assms(3) by (simp add: word_less_def)
    then show ?thesis by (simp add: arr_get_def assms(2))
  qed
  let ?a = "regs proc ! unat source + offset"
  show ?thesis
  proof (cases "flat_tr (page_table proc) ?a")
    case None
    then show ?thesis
      using src read_mem_eq [OF assms(1), of ?a] by (simp add: cpu_read_def flat_space.vread_def)
  next
    case (Some x)
    then have "pmap (page_table proc) (drop_bit 10 ?a) \<noteq> None" by (auto simp: flat_tr_def)
    from flat_vread_defined [OF assms(1) this] obtain v where "flat_space.vread (page_table proc) fm ?a = Some v" ..
    then show ?thesis using src read_mem_eq [OF assms(1), of ?a] Some by (simp add: cpu_read_def)
  qed
qed

subsection \<open>A program\<close>

text \<open>Process 1 stores a byte, computes and loads; its page 0 is on frame 1.\<close>

definition inst :: "ins_opcode_t \<Rightarrow> u32 \<Rightarrow> u32 \<Rightarrow> u32 \<Rightarrow> inst_t" where
  "inst op x y z = \<lparr>opcode = op, arg_0 = x, arg_1 = y, arg_2 = z, arg_3 = 0\<rparr>"

definition small_program :: code_seg_t where
  "small_program = \<lparr>cs_text = [inst WRITE 42 3 7, inst CALC 0 0 0, inst READ 3 7 0], cs_size = 3\<rparr>"

definition cpu_pcb :: pcb_t where
  "cpu_pcb = (paged_pcb 1)\<lparr>code := small_program\<rparr>"

definition cpu_kernel :: kernel where
  "cpu_kernel = sample_kernel\<lparr>k_pcbs := [1 \<mapsto> cpu_pcb], k_devs := paged_devs,
     k_sched := blank_sched\<lparr>s_running := queue_of [], s_mlq := replicate 140 (queue_of [])\<rparr>\<rparr>"

lemma cpu_kernel_simps [simp]:
  "k_pcbs cpu_kernel = [1 \<mapsto> cpu_pcb]" "k_devs cpu_kernel = paged_devs" "code cpu_pcb = small_program"
  "pc cpu_pcb = 0" "mm cpu_pcb = Some (paged_mm 1)" "cs_size small_program = 3"
  by (simp_all add: cpu_kernel_def cpu_pcb_def small_program_def paged_pcb_def sample_pcb_def)

lemma cpu_region: "region_ok (paged_mm 1) 3 \<and> region_addr (paged_mm 1) 3 7 = 7"
proof -
  have i: "int_of_u32 3 = 3" "int_of_u32 7 = 7" "int_of_u64 (u64_of_int 7) = 7"
    using int_of_u64_of_int [of 7] by (simp_all add: int_of_u32_def is_cint_def)
  show ?thesis
    by (simp add: region_ok_def region_addr_def i get_vma_by_num_def int_of_u64_def [of 0] blank_mm_def)
qed

lemma cpu_program_ok: "ins \<in> set (cs_text small_program) \<Longrightarrow> access_ok (paged_mm 1) ins"
  using cpu_region one_page_tr [of 7 1] by (auto simp: small_program_def inst_def access_ok_def)

lemma cpu_machine_ok: "machine_ok cpu_kernel"
proof -
  have "pcb_wf cpu_pcb"
    by (simp add: pcb_wf_def small_program_def cpu_pcb_def paged_pcb_def sample_pcb_def blank_mm_def)
  moreover have "sched_ok (k_pcbs cpu_kernel) (k_sched cpu_kernel)"
    by (simp add: cpu_kernel_def sched_ok_def mlq_ok_def live_queue_def)
  ultimately show ?thesis by (simp add: machine_ok_def)
qed

lemma cpu_first_step: "\<exists>d'. run cpu_kernel 1 = Some (0, cpu_kernel\<lparr>k_pcbs := [1 \<mapsto> cpu_pcb\<lparr>pc := 1\<rparr>], k_devs := d'\<rparr>)"
proof -
  let ?k = "cpu_kernel\<lparr>k_pcbs := [1 \<mapsto> cpu_pcb\<lparr>pc := 1\<rparr>]\<rparr>"
  have "\<exists>ram'. exec_inst ?k 1 (inst WRITE 42 3 7) =
      Some (0, ?k\<lparr>k_devs := (k_devs ?k)\<lparr>mram := Some ram'\<rparr>\<rparr>) \<and> ram_step (pgd (paged_mm 1)) paged_ram ram'"
    by (rule exec_access [of _ 1 "cpu_pcb\<lparr>pc := 1\<rparr>" "paged_mm 1" paged_ram])
      (simp_all add: one_page_vm_inv cpu_program_ok small_program_def)
  then show ?thesis by (auto simp: run_def arr_get_def small_program_def)
qed

theorem run_advances_witness:
  "\<exists>r k' m b. run cpu_kernel 1 = Some (r, k') \<and> k_pcbs k' 1 = Some (cpu_pcb\<lparr>pc := 1, mm := m, bp := b\<rparr>)"
proof -
  from cpu_first_step obtain d' where
    r: "run cpu_kernel 1 = Some (0, cpu_kernel\<lparr>k_pcbs := [1 \<mapsto> cpu_pcb\<lparr>pc := 1\<rparr>], k_devs := d'\<rparr>)" ..
  from run_advances [OF r, of cpu_pcb] have
    "\<exists>m b. [(1 :: nat) \<mapsto> cpu_pcb\<lparr>pc := 1\<rparr>] = [1 \<mapsto> cpu_pcb\<lparr>pc := 1, mm := m, bp := b\<rparr>]"
    by (simp del: One_nat_def)
  then obtain m b where "cpu_pcb\<lparr>pc := 1\<rparr> = cpu_pcb\<lparr>pc := 1, mm := m, bp := b\<rparr>" by (meson map_upd_eqD1)
  then have "k_pcbs (cpu_kernel\<lparr>k_pcbs := [1 \<mapsto> cpu_pcb\<lparr>pc := 1\<rparr>], k_devs := d'\<rparr>) 1 =
      Some (cpu_pcb\<lparr>pc := 1, mm := m, bp := b\<rparr>)" by (metis fun_upd_same kernel.select_convs(1) kernel.simps(4) kernel.surjective kernel.update_convs(1,3))
  with r show ?thesis by blast
qed

lemma run_keeps_types_witness: "\<exists>r k'. run cpu_kernel 1 = Some (r, k') \<and> machine_ok k'"
proof -
  from cpu_first_step obtain d' where
    r: "run cpu_kernel 1 = Some (0, cpu_kernel\<lparr>k_pcbs := [1 \<mapsto> cpu_pcb\<lparr>pc := 1\<rparr>], k_devs := d'\<rparr>)" ..
  from run_keeps_types [OF r cpu_machine_ok] show ?thesis using r by blast
qed

theorem access_program_finishes_witness:
  "\<exists>k' u. runs 3 cpu_kernel 1 = Some k' \<and> k_pcbs k' 1 = Some (cpu_pcb\<lparr>pc := 3\<rparr>) \<and> run k' 1 = Some (1, k') \<and>
    pg_getval (paged_pcb 0) paged_devs 7 = Some (0, Some u, paged_pcb 0, paged_devs) \<and>
    pg_getval (paged_pcb 0) (k_devs k') 7 = Some (0, Some u, paged_pcb 0, k_devs k')"
proof -
  have len: "int (length (cs_text small_program)) = uint (cs_size small_program)" by (simp add: small_program_def)
  show ?thesis
    using access_program_finishes [of cpu_kernel 1 cpu_pcb "paged_mm 1" paged_ram "paged_pcb 0" "paged_mm 0" 7]
      cpu_program_ok len
    by (simp add: one_page_vm_inv one_page_tr one_page_mapped) (metis fun_upd_same)
qed

lemma cpu_read_never_loads_witness: "cpu_read fresh_proc fresh_flat 2 0 3 = None"
  using cpu_read_never_loads [OF fresh_flat_inv, of 2 0 3] by (simp add: flat_tr_def) (simp add: fresh_proc_def)

end
