(* ===== verification/Timer.thy ===== *)
theory Timer
  imports Prelude
begin

text \<open>
  The lock-step timer of \<open>src/timer.c\<close>: a timer thread and the devices (the CPUs and the loader) that
  call \<open>next_slot\<close>.

  A container of \<open>dev_list\<close> is named by a number, its \<open>timer_id_t\<close> is in \<open>dev_ids\<close>. The variable \<open>temp\<close>
  of the two loops of \<open>timer_routine\<close> is the part of the list that is still to be visited. What a
  thread does while it holds the lock of one device is one step; waiting on a condition variable is
  staying where one is until the condition holds, so signals (and spurious wake-ups) need no state.
  The counters \<open>fsh\<close> and \<open>event\<close> are bounded by the number of devices.
\<close>

record timer_id_t =
  t_done :: cint
  t_fsh :: cint

text \<open>Where the timer thread is; \<open>T_start\<close> is the test of the outer loop.\<close>

datatype timer_loc = T_start | T_check "nat list" cint cint | T_release "nat list" cint cint | T_exit

record timer =
  dev_list :: "nat list"
  dev_ids :: "nat \<Rightarrow> timer_id_t option"
  tm_time :: u64
  timer_started :: bool
  timer_stop :: bool
  t_loc :: timer_loc

definition no_timer :: timer where
  "no_timer = \<lparr>dev_list = [], dev_ids = (\<lambda>_. None), tm_time = 0, timer_started = False,
     timer_stop = False, t_loc = T_start\<rparr>"

subsection \<open>Operations\<close>

definition attach_event :: "timer \<Rightarrow> nat option \<times> timer" where
  "attach_event t =
    (if timer_started t then (None, t)
     else let container = length (dev_list t) in
       (Some container, t\<lparr>dev_list := container # dev_list t,
         dev_ids := (dev_ids t)(container \<mapsto> \<lparr>t_done = 0, t_fsh = 0\<rparr>)\<rparr>))"

definition start_timer :: "timer \<Rightarrow> timer" where
  "start_timer t = t\<lparr>timer_started := True, t_loc := T_start\<rparr>"

definition current_time :: "timer \<Rightarrow> u64" where
  "current_time t = tm_time t"

definition detach_event :: "timer \<Rightarrow> nat \<Rightarrow> timer option" where
  "detach_event t i = do {
     x \<leftarrow> dev_ids t i;
     Some (t\<lparr>dev_ids := (dev_ids t)(i \<mapsto> x\<lparr>t_fsh := 1\<rparr>)\<rparr>)
   }"

text \<open>\<open>next_slot\<close>: the first critical section, and the test that ends the wait.\<close>

definition next_slot_enter :: "timer \<Rightarrow> nat \<Rightarrow> timer option" where
  "next_slot_enter t i = do {
     x \<leftarrow> dev_ids t i;
     Some (t\<lparr>dev_ids := (dev_ids t)(i \<mapsto> x\<lparr>t_done := 1\<rparr>)\<rparr>)
   }"

definition next_slot_returns :: "timer \<Rightarrow> nat \<Rightarrow> bool option" where
  "next_slot_returns t i = do { x \<leftarrow> dev_ids t i; Some (t_done x = 0) }"

text \<open>One step of \<open>timer_routine\<close>; a step that has to wait leaves the state as it is.\<close>

definition timer_step :: "timer \<Rightarrow> timer option" where
  "timer_step t = (case t_loc t of
     T_start \<Rightarrow> Some (t\<lparr>t_loc := if timer_stop t then T_exit else T_check (dev_list t) 0 0\<rparr>)
   | T_check (temp # rest) fsh event \<Rightarrow> do {
       x \<leftarrow> dev_ids t temp;
       if t_done x = 0 \<and> t_fsh x = 0 then Some t
       else Some (t\<lparr>t_loc := T_check rest (if t_fsh x \<noteq> 0 then fsh + 1 else fsh) (event + 1)\<rparr>)
     }
   | T_check [] fsh event \<Rightarrow> Some (t\<lparr>tm_time := tm_time t + 1, t_loc := T_release (dev_list t) fsh event\<rparr>)
   | T_release (temp # rest) fsh event \<Rightarrow> do {
       x \<leftarrow> dev_ids t temp;
       Some (t\<lparr>dev_ids := (dev_ids t)(temp \<mapsto> x\<lparr>t_done := 0\<rparr>), t_loc := T_release rest fsh event\<rparr>)
     }
   | T_release [] fsh event \<Rightarrow> Some (t\<lparr>t_loc := if fsh = event then T_exit else T_start\<rparr>)
   | T_exit \<Rightarrow> Some t)"

text \<open>\<open>stop_timer\<close>: the request, and the release of the containers once the thread has been joined.\<close>

definition stop_request :: "timer \<Rightarrow> timer" where
  "stop_request t = t\<lparr>timer_stop := True\<rparr>"

definition stop_timer :: "timer \<Rightarrow> timer option" where
  "stop_timer t = (if t_loc t = T_exit
     then Some (t\<lparr>dev_list := [], dev_ids := (\<lambda>i. if i \<in> set (dev_list t) then None else dev_ids t i)\<rparr>)
     else None)"

subsection \<open>Timer and devices together\<close>

text \<open>
  A device works, waits in \<open>next_slot\<close>, or has called \<open>detach_event\<close>. \<open>p_calls\<close> counts the calls of
  \<open>next_slot\<close> a device has made: the number of the slot it works in.
\<close>

datatype activity = Working | Waiting | Detached

record protocol =
  p_timer :: timer
  p_act :: "nat \<Rightarrow> activity"
  p_calls :: "nat \<Rightarrow> nat"

inductive tick :: "protocol \<Rightarrow> protocol \<Rightarrow> bool" where
  timer: "timer_step (p_timer p) = Some t \<Longrightarrow> tick p (p\<lparr>p_timer := t\<rparr>)"
| enter: "p_act p i = Working \<Longrightarrow> next_slot_enter (p_timer p) i = Some t \<Longrightarrow>
    tick p (p\<lparr>p_timer := t, p_act := (p_act p)(i := Waiting), p_calls := (p_calls p)(i := Suc (p_calls p i))\<rparr>)"
| leave: "p_act p i = Waiting \<Longrightarrow> next_slot_returns (p_timer p) i = Some True \<Longrightarrow>
    tick p (p\<lparr>p_act := (p_act p)(i := Working)\<rparr>)"
| detach: "p_act p i = Working \<Longrightarrow> detach_event (p_timer p) i = Some t \<Longrightarrow>
    tick p (p\<lparr>p_timer := t, p_act := (p_act p)(i := Detached)\<rparr>)"
| stop: "\<forall>i \<in> set (dev_list (p_timer p)). p_act p i = Detached \<Longrightarrow>
    tick p (p\<lparr>p_timer := stop_request (p_timer p)\<rparr>)"

inductive_cases tickE: "tick p q"

text \<open>\<open>main\<close> attaches \<open>n\<close> devices and starts the timer.\<close>

fun attach_events :: "nat \<Rightarrow> timer \<Rightarrow> timer" where
  "attach_events 0 t = t"
| "attach_events (Suc n) t = attach_events n (snd (attach_event t))"

definition started :: "nat \<Rightarrow> protocol" where
  "started n = \<lparr>p_timer = start_timer (attach_events n no_timer), p_act = (\<lambda>_. Working), p_calls = (\<lambda>_. 0)\<rparr>"

inductive ticks :: "protocol \<Rightarrow> protocol \<Rightarrow> bool" where
  none: "ticks p p"
| more: "ticks p q \<Longrightarrow> tick q r \<Longrightarrow> ticks p r"

lemma attach_events_before:
  "\<not> timer_started t \<Longrightarrow> dev_list t = rev [0..<k] \<Longrightarrow> dom (dev_ids t) = {0..<k} \<Longrightarrow>
   \<forall>i < k. dev_ids t i = Some \<lparr>t_done = 0, t_fsh = 0\<rparr> \<Longrightarrow>
   \<exists>ids. attach_events n t = t\<lparr>dev_list := rev [0..<k + n], dev_ids := ids\<rparr> \<and>
     dom ids = {0..<k + n} \<and> (\<forall>i < k + n. ids i = Some \<lparr>t_done = 0, t_fsh = 0\<rparr>)"
proof (induction n arbitrary: t k)
  case 0
  then show ?case by (intro exI [of _ "dev_ids t"]) (simp)
next
  case (Suc n)
  let ?t = "t\<lparr>dev_list := k # dev_list t, dev_ids := (dev_ids t)(k \<mapsto> \<lparr>t_done = 0, t_fsh = 0\<rparr>)\<rparr>"
  have "snd (attach_event t) = ?t" using Suc.prems(1,2) by (simp add: attach_event_def Let_def)
  moreover have "dom (dev_ids ?t) = {0..<Suc k}" using Suc.prems(3) by auto
  ultimately show ?case using Suc.IH [of ?t "Suc k"] Suc.prems by (simp del: fun_upd_apply) (simp add: less_Suc_eq)
qed

lemma started_eq:
  "\<exists>ids. started n = \<lparr>p_timer = \<lparr>dev_list = rev [0..<n], dev_ids = ids, tm_time = 0, timer_started = True,
     timer_stop = False, t_loc = T_start\<rparr>, p_act = (\<lambda>_. Working), p_calls = (\<lambda>_. 0)\<rparr> \<and>
   dom ids = {0..<n} \<and> (\<forall>i < n. ids i = Some \<lparr>t_done = 0, t_fsh = 0\<rparr>)"
  using attach_events_before [of no_timer 0 n] by (auto simp: started_def start_timer_def no_timer_def)

subsection \<open>The invariant\<close>

text \<open>
  Devices the timer has seen in its first loop, and those it has not yet released in its second one:
  both have ended the slot.
\<close>

definition unreleased :: "timer \<Rightarrow> nat set" where
  "unreleased t = (case t_loc t of T_release temp _ _ \<Rightarrow> set temp | _ \<Rightarrow> {})"

definition seen :: "timer \<Rightarrow> nat set" where
  "seen t = (case t_loc t of T_check temp _ _ \<Rightarrow> set (dev_list t) - set temp | _ \<Rightarrow> {})"

definition slot_ok :: "timer_id_t \<Rightarrow> nat \<Rightarrow> bool \<Rightarrow> bool \<Rightarrow> activity \<Rightarrow> nat \<Rightarrow> bool" where
  "slot_ok x slot was_seen is_held a calls \<longleftrightarrow> (case a of
     Detached \<Rightarrow> t_fsh x = 1
   | Working \<Rightarrow> t_fsh x = 0 \<and> t_done x = 0 \<and> calls = slot \<and> \<not> was_seen \<and> \<not> is_held
   | Waiting \<Rightarrow> t_fsh x = 0 \<and>
       (if t_done x = 0 then calls = slot \<and> \<not> was_seen \<and> \<not> is_held
        else t_done x = 1 \<and> calls = (if is_held then slot else Suc slot)))"

definition dev_ok :: "timer \<Rightarrow> nat \<Rightarrow> nat \<Rightarrow> activity \<Rightarrow> nat \<Rightarrow> bool" where
  "dev_ok t slot i a calls \<longleftrightarrow>
    (case dev_ids t i of None \<Rightarrow> False | Some x \<Rightarrow> slot_ok x slot (i \<in> seen t) (i \<in> unreleased t) a calls)"

lemma slot_ok_simps [simp]:
  "slot_ok x n s h Detached c \<longleftrightarrow> t_fsh x = 1"
  "slot_ok x n s h Working c \<longleftrightarrow> t_fsh x = 0 \<and> t_done x = 0 \<and> c = n \<and> \<not> s \<and> \<not> h"
  "slot_ok x n s h Waiting c \<longleftrightarrow> t_fsh x = 0 \<and>
     (if t_done x = 0 then c = n \<and> \<not> s \<and> \<not> h else t_done x = 1 \<and> c = (if h then n else Suc n))"
  by (simp_all add: slot_ok_def)

lemma seen_simps [simp]:
  "seen (t\<lparr>dev_ids := ids\<rparr>) = seen t" "unreleased (t\<lparr>dev_ids := ids\<rparr>) = unreleased t"
  "seen (t\<lparr>timer_stop := b\<rparr>) = seen t" "unreleased (t\<lparr>timer_stop := b\<rparr>) = unreleased t"
  by (cases "t_loc t"; simp add: seen_def unreleased_def)+

text \<open>The counts of the two loops: all devices visited have ended when the counts are equal.\<close>

definition detached :: "protocol \<Rightarrow> nat set \<Rightarrow> bool" where
  "detached p S \<longleftrightarrow> (\<forall>i \<in> S. p_act p i = Detached)"

lemma detached_upd [simp]: "detached (p\<lparr>p_timer := t\<rparr>) S = detached p S"
  by (simp add: detached_def)

definition loc_ok :: "protocol \<Rightarrow> bool" where
  "loc_ok p \<longleftrightarrow> (case t_loc (p_timer p) of
     T_start \<Rightarrow> True
   | T_check temp fsh event \<Rightarrow> \<exists>pre. dev_list (p_timer p) = pre @ temp \<and> event = int (length pre) \<and>
       fsh \<le> event \<and> (fsh = event \<longrightarrow> detached p (set pre))
   | T_release temp fsh event \<Rightarrow> (\<exists>pre. dev_list (p_timer p) = pre @ temp) \<and>
       (fsh = event \<longrightarrow> detached p (set (dev_list (p_timer p))))
   | T_exit \<Rightarrow> detached p (set (dev_list (p_timer p))))"

definition protocol_ok :: "protocol \<Rightarrow> nat \<Rightarrow> bool" where
  "protocol_ok p slot \<longleftrightarrow> distinct (dev_list (p_timer p)) \<and>
    dom (dev_ids (p_timer p)) = set (dev_list (p_timer p)) \<and> tm_time (p_timer p) = of_nat slot \<and> loc_ok p \<and>
    (timer_stop (p_timer p) \<longrightarrow> detached p (set (dev_list (p_timer p)))) \<and>
    (\<forall>i \<in> set (dev_list (p_timer p)). dev_ok (p_timer p) slot i (p_act p i) (p_calls p i))"

lemma protocol_started: "protocol_ok (started n) 0"
proof -
  obtain ids where st: "started n = \<lparr>p_timer = \<lparr>dev_list = rev [0..<n], dev_ids = ids, tm_time = 0, timer_started = True,
     timer_stop = False, t_loc = T_start\<rparr>, p_act = (\<lambda>_. Working), p_calls = (\<lambda>_. 0)\<rparr>"
    "dom ids = {0..<n}" "\<forall>i < n. ids i = Some \<lparr>t_done = 0, t_fsh = 0\<rparr>" using started_eq [of n] by blast
  then show ?thesis
    by (simp add: protocol_ok_def loc_ok_def dev_ok_def seen_def unreleased_def)
qed

text \<open>The steps of the devices.\<close>

lemma dev_ok_cong:
  "dev_ids t' i = dev_ids t i \<Longrightarrow> seen t' = seen t \<Longrightarrow> unreleased t' = unreleased t \<Longrightarrow>
   dev_ok t' n i a c \<longleftrightarrow> dev_ok t n i a c"
  by (cases "dev_ids t i") (simp_all add: dev_ok_def)

lemma device_step:
  assumes ok: "protocol_ok p n" and x: "dev_ids (p_timer p) i \<noteq> None" and act: "p_act p i \<noteq> Detached"
    and q: "p_timer q = (p_timer p)\<lparr>dev_ids := (dev_ids (p_timer p))(i \<mapsto> x')\<rparr>"
      "p_act q = (p_act p)(i := a)" "p_calls q = (p_calls p)(i := c)"
    and new: "dev_ok (p_timer q) n i a c"
  shows "protocol_ok q n"
proof -
  let ?ds = "dev_list (p_timer p)"
  have i: "i \<in> set ?ds" and dom: "dom (dev_ids (p_timer p)) = set ?ds" using x ok by (auto simp: protocol_ok_def)
  have det: "detached q S" if "detached p S" for S using that act q(2) by (auto simp: detached_def)
  have "dom (dev_ids (p_timer q)) = set ?ds" using dom i q(1) by auto
  moreover have "loc_ok q"
    using ok det q(1) by (auto simp: protocol_ok_def loc_ok_def split: timer_loc.splits)
  moreover have "dev_ok (p_timer q) n j (p_act q j) (p_calls q j)" if "j \<in> set ?ds" for j
  proof (cases "j = i")
    case True
    then show ?thesis using new q by simp
  next
    case False
    have "seen (p_timer q) = seen (p_timer p)" "unreleased (p_timer q) = unreleased (p_timer p)"
      by (simp_all add: q(1))
    then show ?thesis using ok that False dev_ok_cong [of "p_timer q" j "p_timer p"] q by (simp add: protocol_ok_def)
  qed
  ultimately show ?thesis using ok det q(1) by (simp add: protocol_ok_def)
qed

lemma protocol_dev:
  assumes "protocol_ok p n" "dev_ids (p_timer p) i = Some x"
  shows "dev_ok (p_timer p) n i (p_act p i) (p_calls p i)"
proof -
  from assms have "i \<in> set (dev_list (p_timer p))" by (auto simp: protocol_ok_def)
  with assms(1) show ?thesis by (simp add: protocol_ok_def)
qed

lemma enter_ok:
  assumes "protocol_ok p n" "p_act p i = Working" "next_slot_enter (p_timer p) i = Some t"
  shows "protocol_ok (p\<lparr>p_timer := t, p_act := (p_act p)(i := Waiting), p_calls := (p_calls p)(i := Suc (p_calls p i))\<rparr>) n"
proof -
  from assms(3) obtain x where x: "dev_ids (p_timer p) i = Some x"
    and t: "t = (p_timer p)\<lparr>dev_ids := (dev_ids (p_timer p))(i \<mapsto> x\<lparr>t_done := 1\<rparr>)\<rparr>"
    by (auto simp: next_slot_enter_def bind_eq_Some_conv)
  show ?thesis
    by (rule device_step [OF assms(1), where i = i])
      (use assms(2) x t protocol_dev [OF assms(1) x] in \<open>auto simp: dev_ok_def\<close>)
qed

lemma leave_ok:
  assumes "protocol_ok p n" "p_act p i = Waiting" "next_slot_returns (p_timer p) i = Some True"
  shows "protocol_ok (p\<lparr>p_act := (p_act p)(i := Working)\<rparr>) n"
proof -
  from assms(3) obtain x where x: "dev_ids (p_timer p) i = Some x" "t_done x = 0"
    by (auto simp: next_slot_returns_def bind_eq_Some_conv)
  have same: "(dev_ids (p_timer p))(i \<mapsto> x) = dev_ids (p_timer p)" using x(1) by auto
  show ?thesis
    by (rule device_step [OF assms(1), where i = i and x' = x])
      (use assms(2) x same protocol_dev [OF assms(1) x(1)] in \<open>auto simp: dev_ok_def\<close>)
qed

lemma detach_ok:
  assumes "protocol_ok p n" "p_act p i = Working" "detach_event (p_timer p) i = Some t"
  shows "protocol_ok (p\<lparr>p_timer := t, p_act := (p_act p)(i := Detached)\<rparr>) n"
proof -
  from assms(3) obtain x where x: "dev_ids (p_timer p) i = Some x"
    and t: "t = (p_timer p)\<lparr>dev_ids := (dev_ids (p_timer p))(i \<mapsto> x\<lparr>t_fsh := 1\<rparr>)\<rparr>"
    by (auto simp: detach_event_def bind_eq_Some_conv)
  show ?thesis
    by (rule device_step [OF assms(1), where i = i])
      (use assms(2) x t protocol_dev [OF assms(1) x] in \<open>auto simp: dev_ok_def\<close>)
qed

text \<open>The steps of the timer.\<close>

lemma check_ok:
  assumes "protocol_ok p n" "t_loc (p_timer p) = T_check (i # rest) f e" "dev_ids (p_timer p) i = Some x"
    and "t_done x \<noteq> 0 \<or> t_fsh x \<noteq> 0"
  shows "protocol_ok (p\<lparr>p_timer := (p_timer p)\<lparr>t_loc := T_check rest (if t_fsh x \<noteq> 0 then f + 1 else f) (e + 1)\<rparr>\<rparr>) n"
proof -
  let ?ds = "dev_list (p_timer p)" and ?t = "(p_timer p)\<lparr>t_loc := T_check rest (if t_fsh x \<noteq> 0 then f + 1 else f) (e + 1)\<rparr>"
  from assms(1,2) obtain pre where pre: "?ds = pre @ i # rest" "e = int (length pre)" "f \<le> e"
    "f = e \<longrightarrow> detached p (set pre)"
    by (auto simp: protocol_ok_def loc_ok_def)
  have dev: "dev_ok (p_timer p) n j (p_act p j) (p_calls p j)" if "j \<in> set ?ds" for j
    using assms(1) that by (simp add: protocol_ok_def)
  have det: "p_act p i = Detached" if "t_fsh x \<noteq> 0"
    using dev [of i] pre(1) assms(3) that by (cases "p_act p i") (auto simp: dev_ok_def)
  have "\<exists>pre'. ?ds = pre' @ rest \<and> e + 1 = int (length pre') \<and>
      (if t_fsh x \<noteq> 0 then f + 1 else f) \<le> e + 1 \<and>
      ((if t_fsh x \<noteq> 0 then f + 1 else f) = e + 1 \<longrightarrow> detached p (set pre'))"
    using pre det by (intro exI [of _ "pre @ [i]"]) (auto simp: detached_def)
  moreover have "dev_ok ?t n j (p_act p j) (p_calls p j)" if "j \<in> set ?ds" for j
  proof -
    have "distinct ?ds" using assms(1) by (simp add: protocol_ok_def)
    then have "seen ?t = insert i (seen (p_timer p))" "unreleased ?t = {}" "unreleased (p_timer p) = {}"
      using pre(1) assms(2) by (auto simp: seen_def unreleased_def)
    then show ?thesis
      using dev [OF that] assms(3,4) by (cases "p_act p j") (auto simp: dev_ok_def split: if_splits option.splits)
  qed
  ultimately show ?thesis using assms(1) by (simp add: protocol_ok_def loc_ok_def detached_def)
qed

lemma time_ok:
  assumes "protocol_ok p n" "t_loc (p_timer p) = T_check [] f e"
  shows "protocol_ok (p\<lparr>p_timer := (p_timer p)\<lparr>tm_time := tm_time (p_timer p) + 1,
      t_loc := T_release (dev_list (p_timer p)) f e\<rparr>\<rparr>) (Suc n) \<and>
    (\<forall>i \<in> set (dev_list (p_timer p)). p_act p i \<noteq> Working)"
proof -
  let ?ds = "dev_list (p_timer p)"
  let ?t = "(p_timer p)\<lparr>tm_time := tm_time (p_timer p) + 1, t_loc := T_release ?ds f e\<rparr>"
  have s: "seen (p_timer p) = set ?ds" "unreleased (p_timer p) = {}" "seen ?t = {}" "unreleased ?t = set ?ds"
    using assms(2) by (simp_all add: seen_def unreleased_def)
  have dev: "dev_ok (p_timer p) n j (p_act p j) (p_calls p j)" if "j \<in> set ?ds" for j
    using assms(1) that by (simp add: protocol_ok_def)
  have "dev_ok ?t (Suc n) j (p_act p j) (p_calls p j) \<and> p_act p j \<noteq> Working" if "j \<in> set ?ds" for j
    using dev [OF that] that by (cases "p_act p j") (auto simp: dev_ok_def s split: if_splits option.splits)
  moreover have "tm_time ?t = of_nat (Suc n)" using assms(1) by (simp add: protocol_ok_def)
  moreover have "loc_ok (p\<lparr>p_timer := ?t\<rparr>)"
    using assms by (auto simp: protocol_ok_def loc_ok_def detached_def)
  ultimately show ?thesis using assms(1) by (simp add: protocol_ok_def)
qed

lemma release_ok:
  assumes "protocol_ok p n" "t_loc (p_timer p) = T_release (i # rest) f e" "dev_ids (p_timer p) i = Some x"
  shows "protocol_ok (p\<lparr>p_timer := (p_timer p)\<lparr>dev_ids := (dev_ids (p_timer p))(i \<mapsto> x\<lparr>t_done := 0\<rparr>),
    t_loc := T_release rest f e\<rparr>\<rparr>) n"
proof -
  let ?ds = "dev_list (p_timer p)"
  let ?t = "(p_timer p)\<lparr>dev_ids := (dev_ids (p_timer p))(i \<mapsto> x\<lparr>t_done := 0\<rparr>), t_loc := T_release rest f e\<rparr>"
  from assms(1,2) obtain pre where pre: "?ds = pre @ i # rest" by (auto simp: protocol_ok_def loc_ok_def)
  have d: "distinct ?ds" using assms(1) by (simp add: protocol_ok_def)
  have s: "seen (p_timer p) = {}" "unreleased (p_timer p) = insert i (set rest)" "seen ?t = {}" "unreleased ?t = set rest"
    using assms(2) by (simp_all add: seen_def unreleased_def)
  have "dev_ok ?t n j (p_act p j) (p_calls p j)" if "j \<in> set ?ds" for j
  proof -
    have "dev_ok (p_timer p) n j (p_act p j) (p_calls p j)" using assms(1) that by (simp add: protocol_ok_def)
    then show ?thesis
      using assms(3) d pre by (cases "p_act p j") (auto simp: dev_ok_def s split: if_splits option.splits)
  qed
  moreover have "loc_ok (p\<lparr>p_timer := ?t\<rparr>)"
    using assms(1,2) pre by (auto simp: protocol_ok_def loc_ok_def intro: exI [of _ "pre @ [i]"])
  moreover have "dom ((dev_ids (p_timer p))(i \<mapsto> x\<lparr>t_done := 0\<rparr>)) = set ?ds"
    using assms(1) pre by (auto simp: protocol_ok_def)
  ultimately show ?thesis using assms(1) by (simp add: protocol_ok_def)
qed

lemma relocate_ok:
  assumes "protocol_ok p n" "loc_ok (p\<lparr>p_timer := (p_timer p)\<lparr>t_loc := l\<rparr>\<rparr>)"
    and "seen ((p_timer p)\<lparr>t_loc := l\<rparr>) = seen (p_timer p)"
    and "unreleased ((p_timer p)\<lparr>t_loc := l\<rparr>) = unreleased (p_timer p)"
  shows "protocol_ok (p\<lparr>p_timer := (p_timer p)\<lparr>t_loc := l\<rparr>\<rparr>) n"
  using assms dev_ok_cong [of "(p_timer p)\<lparr>t_loc := l\<rparr>" _ "p_timer p"] by (simp add: protocol_ok_def)

lemma timer_step_ok:
  assumes "protocol_ok p n" "timer_step (p_timer p) = Some t"
  shows "protocol_ok (p\<lparr>p_timer := t\<rparr>) n \<and> tm_time t = tm_time (p_timer p) \<or>
    protocol_ok (p\<lparr>p_timer := t\<rparr>) (Suc n) \<and> (\<forall>i \<in> set (dev_list (p_timer p)). p_act p i \<noteq> Working)"
proof (cases "t_loc (p_timer p)")
  case T_start
  have "protocol_ok (p\<lparr>p_timer := (p_timer p)\<lparr>t_loc := if timer_stop (p_timer p) then T_exit
      else T_check (dev_list (p_timer p)) 0 0\<rparr>\<rparr>) n"
    by (rule relocate_ok [OF assms(1)])
      (use assms(1) T_start in \<open>auto simp: protocol_ok_def loc_ok_def seen_def unreleased_def detached_def\<close>)
  then show ?thesis using T_start assms(2) by (auto simp: timer_step_def)
next
  case (T_check temp f e)
  show ?thesis
  proof (cases temp)
    case Nil
    then show ?thesis using T_check assms time_ok [OF assms(1)] by (simp add: timer_step_def)
  next
    case (Cons i rest)
    then obtain x where x: "dev_ids (p_timer p) i = Some x"
      using T_check assms(2) by (auto simp: timer_step_def bind_eq_Some_conv)
    have "p\<lparr>p_timer := p_timer p\<rparr> = p" by simp
    then show ?thesis
      using check_ok [OF assms(1) _ x] T_check Cons x assms
      by (auto simp: timer_step_def split: if_splits)
  qed
next
  case (T_release temp f e)
  show ?thesis
  proof (cases temp)
    case Nil
    have "protocol_ok (p\<lparr>p_timer := (p_timer p)\<lparr>t_loc := if f = e then T_exit else T_start\<rparr>\<rparr>) n"
      by (rule relocate_ok [OF assms(1)])
        (use assms(1) T_release Nil in \<open>auto simp: protocol_ok_def loc_ok_def seen_def unreleased_def\<close>)
    then show ?thesis using T_release Nil assms(2) by (auto simp: timer_step_def split: if_splits)
  next
    case (Cons i rest)
    then show ?thesis
      using release_ok [OF assms(1)] T_release assms(2) by (auto simp: timer_step_def bind_eq_Some_conv)
  qed
next
  case T_exit
  have "p\<lparr>p_timer := p_timer p\<rparr> = p" by simp
  with T_exit assms show ?thesis by (auto simp: timer_step_def)
qed

lemma stop_ok:
  assumes "protocol_ok p n" "\<forall>i \<in> set (dev_list (p_timer p)). p_act p i = Detached"
  shows "protocol_ok (p\<lparr>p_timer := stop_request (p_timer p)\<rparr>) n"
proof -
  have "dev_ok (stop_request t) m i a c = dev_ok t m i a c" for t m i a c
    by (rule dev_ok_cong) (simp_all add: stop_request_def)
  moreover have "loc_ok (p\<lparr>p_timer := stop_request (p_timer p)\<rparr>) = loc_ok p"
    by (cases "t_loc (p_timer p)") (simp_all add: loc_ok_def stop_request_def)
  ultimately show ?thesis
    using assms by (simp add: protocol_ok_def) (simp add: stop_request_def detached_def)
qed

lemma tick_ok:
  assumes "tick p q" "protocol_ok p n"
  shows "protocol_ok q n \<and> tm_time (p_timer q) = tm_time (p_timer p) \<or>
    protocol_ok q (Suc n) \<and> (\<forall>i \<in> set (dev_list (p_timer p)). p_act p i \<noteq> Working)"
  using assms(1)
proof cases
  case (timer t)
  then show ?thesis using timer_step_ok [OF assms(2)] by auto
next
  case (enter i t)
  then show ?thesis
    using enter_ok [OF assms(2) enter(2,3)] by (auto simp: next_slot_enter_def bind_eq_Some_conv)
next
  case (leave i)
  then show ?thesis using leave_ok [OF assms(2) leave(2,3)] by simp
next
  case (detach i t)
  then show ?thesis
    using detach_ok [OF assms(2) detach(2,3)] by (auto simp: detach_event_def bind_eq_Some_conv)
next
  case stop
  then show ?thesis using stop_ok [OF assms(2)] by (simp add: stop_request_def)
qed

lemma ticks_ok: "ticks p q \<Longrightarrow> protocol_ok p n \<Longrightarrow> \<exists>m. protocol_ok q m"
  by (induction rule: ticks.induct) (blast dest: tick_ok)+

lemma tick_dev_list: "tick p q \<Longrightarrow> dev_list (p_timer q) = dev_list (p_timer p)"
  by (erule tickE)
    (auto simp: timer_step_def next_slot_enter_def detach_event_def stop_request_def bind_eq_Some_conv
      split: timer_loc.splits list.splits if_splits)

lemma ticks_dev_list: "ticks p q \<Longrightarrow> dev_list (p_timer q) = dev_list (p_timer p)"
  by (induction rule: ticks.induct) (simp_all add: tick_dev_list)

lemma started_devs: "set (dev_list (p_timer (started n))) = {0..<n}"
  using started_eq [of n] by auto

lemma ticks_started:
  assumes "ticks (started n) p"
  obtains slot where "protocol_ok p slot" "set (dev_list (p_timer p)) = {0..<n}"
  using ticks_ok [OF assms protocol_started] ticks_dev_list [OF assms] started_devs [of n] by auto

lemma protocol_ok_dev:
  assumes "protocol_ok p slot" "i \<in> set (dev_list (p_timer p))"
  shows "\<exists>x. dev_ids (p_timer p) i = Some x \<and>
    slot_ok x slot (i \<in> seen (p_timer p)) (i \<in> unreleased (p_timer p)) (p_act p i) (p_calls p i)"
  using assms by (cases "dev_ids (p_timer p) i") (auto simp: protocol_ok_def dev_ok_def)

lemma calls_bounds:
  assumes "protocol_ok p slot" "i \<in> set (dev_list (p_timer p))" "p_act p i \<noteq> Detached"
  shows "p_calls p i = slot \<or> p_calls p i = Suc slot"
    "p_act p i = Working \<Longrightarrow> p_calls p i = slot"
proof -
  obtain x where "slot_ok x slot (i \<in> seen (p_timer p)) (i \<in> unreleased (p_timer p)) (p_act p i) (p_calls p i)"
    using protocol_ok_dev [OF assms(1,2)] by blast
  then show "p_calls p i = slot \<or> p_calls p i = Suc slot" "p_act p i = Working \<Longrightarrow> p_calls p i = slot"
    using assms(3) by (cases "p_act p i"; auto split: if_splits)+
qed

subsection \<open>What the timer promises\<close>

text \<open>
  C12. Lock-step: in every reachable state a device that is working is in the slot the clock shows, the
  slots of two devices that have not ended differ by at most one, and the next step changes the clock
  only when no device is working.
\<close>

theorem timer_lockstep:
  assumes "ticks (started n) p" "i < n" "j < n" "p_act p i \<noteq> Detached" "p_act p j \<noteq> Detached"
  shows "(p_act p i = Working \<longrightarrow> current_time (p_timer p) = of_nat (p_calls p i)) \<and>
    p_calls p i \<le> Suc (p_calls p j) \<and>
    (p_act p i = Working \<and> tick p q \<longrightarrow> current_time (p_timer q) = current_time (p_timer p))"
proof -
  obtain slot where ok: "protocol_ok p slot" and ds: "set (dev_list (p_timer p)) = {0..<n}"
    using ticks_started [OF assms(1)] by blast
  have "tm_time (p_timer p) = of_nat slot" using ok by (simp add: protocol_ok_def)
  moreover have "p_calls p i = slot \<or> p_calls p i = Suc slot" "p_calls p j = slot \<or> p_calls p j = Suc slot"
    using calls_bounds [OF ok] ds assms(2-5) by auto
  moreover have "p_act p i = Working \<Longrightarrow> p_calls p i = slot" using calls_bounds [OF ok] ds assms(2,4) by auto
  moreover have "p_act p i = Working \<Longrightarrow> tick p q \<Longrightarrow> tm_time (p_timer q) = tm_time (p_timer p)"
    using tick_ok [OF _ ok, of q] ds assms(2) by auto
  ultimately show ?thesis by (auto simp: current_time_def)
qed

lemma timer_moves:
  assumes "protocol_ok p slot" "t_loc (p_timer p) \<noteq> T_exit"
    and "\<And>i x. i \<in> set (dev_list (p_timer p)) \<Longrightarrow> dev_ids (p_timer p) i = Some x \<Longrightarrow> t_done x \<noteq> 0 \<or> t_fsh x \<noteq> 0"
  shows "\<exists>t. timer_step (p_timer p) = Some t \<and> t_loc t \<noteq> t_loc (p_timer p)"
proof (cases "t_loc (p_timer p)")
  case T_start
  then show ?thesis by (simp add: timer_step_def)
next
  case (T_check temp f e)
  show ?thesis
  proof (cases temp)
    case Nil
    then show ?thesis using T_check by (simp add: timer_step_def)
  next
    case (Cons i rest)
    then have "i \<in> set (dev_list (p_timer p))" using assms(1) T_check by (auto simp: protocol_ok_def loc_ok_def)
    then obtain x where x: "dev_ids (p_timer p) i = Some x" "t_done x \<noteq> 0 \<or> t_fsh x \<noteq> 0"
      using protocol_ok_dev [OF assms(1), of i] assms(3) [of i] by blast
    then show ?thesis using T_check Cons by (auto simp: timer_step_def)
  qed
next
  case (T_release temp f e)
  show ?thesis
  proof (cases temp)
    case Nil
    then show ?thesis using T_release by (simp add: timer_step_def)
  next
    case (Cons i rest)
    then have "i \<in> set (dev_list (p_timer p))" using assms(1) T_release by (auto simp: protocol_ok_def loc_ok_def)
    then obtain x where "dev_ids (p_timer p) i = Some x" using protocol_ok_dev [OF assms(1), of i] by blast
    then show ?thesis using T_release Cons by (auto simp: timer_step_def)
  qed
qed (use assms(2) in simp)

text \<open>
  C14. The protocol neither deadlocks nor abandons a device: the timer thread ends only when every device
  has called \<open>detach_event\<close>, and in every other reachable state some step changes the state.
\<close>

theorem timer_no_deadlock:
  assumes "ticks (started n) p"
  shows "if t_loc (p_timer p) = T_exit then \<forall>i < n. p_act p i = Detached else \<exists>q. tick p q \<and> q \<noteq> p"
proof (cases "t_loc (p_timer p) = T_exit")
  case True
  obtain slot where ok: "protocol_ok p slot" and ds: "set (dev_list (p_timer p)) = {0..<n}"
    using ticks_started [OF assms] by blast
  from ok have "loc_ok p" by (simp add: protocol_ok_def)
  with True ds show ?thesis by (simp add: loc_ok_def detached_def)
next
  case False
  obtain slot where ok: "protocol_ok p slot" and ds: "set (dev_list (p_timer p)) = {0..<n}"
    using ticks_started [OF assms] by blast
  have "\<exists>q. tick p q \<and> q \<noteq> p"
  proof (cases "\<exists>i < n. p_act p i = Working")
    case True
    then obtain i where i: "i < n" "p_act p i = Working" by blast
    then obtain x where x: "dev_ids (p_timer p) i = Some x" using protocol_ok_dev [OF ok, of i] ds by auto
    let ?t = "(p_timer p)\<lparr>dev_ids := (dev_ids (p_timer p))(i \<mapsto> x\<lparr>t_fsh := 1\<rparr>)\<rparr>"
    let ?q = "p\<lparr>p_timer := ?t, p_act := (p_act p)(i := Detached)\<rparr>"
    have "tick p ?q" by (rule tick.detach) (use i x in \<open>simp_all add: detach_event_def\<close>)
    moreover have "p_act ?q i \<noteq> p_act p i" using i by simp
    ultimately show ?thesis by metis
  next
    case no_work: False
    show ?thesis
    proof (cases "\<exists>i < n. p_act p i = Waiting \<and> next_slot_returns (p_timer p) i = Some True")
      case True
      then obtain i where i: "p_act p i = Waiting" "next_slot_returns (p_timer p) i = Some True" by blast
      then have "tick p (p\<lparr>p_act := (p_act p)(i := Working)\<rparr>)" by (rule tick.leave)
      moreover have "p_act (p\<lparr>p_act := (p_act p)(i := Working)\<rparr>) i \<noteq> p_act p i" using i by simp
      ultimately show ?thesis by metis
    next
      case no_return: False
      have ended: "t_done x \<noteq> 0 \<or> t_fsh x \<noteq> 0" if "i \<in> set (dev_list (p_timer p))" "dev_ids (p_timer p) i = Some x" for i x
      proof -
        have s: "slot_ok x slot (i \<in> seen (p_timer p)) (i \<in> unreleased (p_timer p)) (p_act p i) (p_calls p i)"
          using protocol_ok_dev [OF ok that(1)] that(2) by auto
        have "i < n" using that(1) ds by simp
        then have "p_act p i \<noteq> Working" "p_act p i = Waiting \<longrightarrow> t_done x \<noteq> 0"
          using no_work no_return that(2) by (auto simp: next_slot_returns_def)
        then show ?thesis using s by (cases "p_act p i") auto
      qed
      obtain t where t: "timer_step (p_timer p) = Some t" "t_loc t \<noteq> t_loc (p_timer p)"
        using timer_moves [OF ok False] ended by blast
      then have "p\<lparr>p_timer := t\<rparr> \<noteq> p" by (metis protocol.select_convs(1) protocol.surjective protocol.update_convs(1))
      with tick.timer [OF t(1)] show ?thesis by blast
    qed
  qed
  with False show ?thesis by simp
qed

subsection \<open>One device\<close>

lemma one_device_slot: "\<exists>p. ticks (started 1) p \<and> p_act p 0 = Waiting \<and> p_calls p 0 = 1"
proof -
  obtain ids where st: "p_timer (started 1) = \<lparr>dev_list = [0], dev_ids = ids, tm_time = 0, timer_started = True,
     timer_stop = False, t_loc = T_start\<rparr>" "p_act (started 1) = (\<lambda>_. Working)" "p_calls (started 1) = (\<lambda>_. 0)"
    "ids 0 = Some \<lparr>t_done = 0, t_fsh = 0\<rparr>" using started_eq [of 1] by auto
  have "\<exists>t. tick (started 1) ((started 1)\<lparr>p_timer := t, p_act := (p_act (started 1))(0 := Waiting),
      p_calls := (p_calls (started 1))(0 := Suc (p_calls (started 1) 0))\<rparr>)"
    using tick.enter [of "started 1" 0] st by (auto simp: next_slot_enter_def)
  then show ?thesis using ticks.more [OF ticks.none] st by fastforce
qed

theorem timer_lockstep_witness:
  "\<exists>p. ticks (started 1) p \<and> p_calls p 0 = 1 \<and> p_calls p 0 \<le> Suc (p_calls p 0) \<and> p_act p 0 \<noteq> Detached"
proof -
  from one_device_slot obtain p where p: "ticks (started 1) p" "p_act p 0 = Waiting" "p_calls p 0 = 1" by blast
  then show ?thesis using timer_lockstep [OF p(1), of 0 0] by auto
qed

theorem timer_no_deadlock_witness: "\<exists>q. tick (started 1) q \<and> q \<noteq> started 1"
proof -
  have "t_loc (p_timer (started 1)) = T_start" using started_eq [of 1] by auto
  then show ?thesis using timer_no_deadlock [OF ticks.none, of 1] by simp
qed

end
