(* ===== verification/Loader.thy ===== *)
theory Loader
  imports Common Mem "HOL-Library.Char_ord"
begin

text \<open>
  The loader of \<open>src/loader.c\<close>: a process description is read from a text file into a new process
  control block.

  The file system is a parameter (the contents of the file at a path, if there is one). A stream is
  the text that is still to be read, and the \<open>scanf\<close> family is modelled as far as the code uses it:
  white space is skipped before a number or a word, a conversion that does not match ends the call,
  and the objects of the conversions that are left keep what they held. A number that does not fit its
  object, a word too long for \<open>opcode\<close> and the use of an unassigned buffer are undefined. Blocks from
  \<open>malloc\<close> have arbitrary contents, which are arguments of \<open>load\<close>.
\<close>

datatype load_error = Undefined | Exit_failure

definition and_then :: "'e + 'a \<Rightarrow> ('a \<Rightarrow> 'e + 'b) \<Rightarrow> 'e + 'b" where
  "and_then r f = (case r of Inl e \<Rightarrow> Inl e | Inr x \<Rightarrow> f x)"

lemma and_then_simps [simp]: "and_then (Inl e) f = Inl e" "and_then (Inr x) f = f x"
  by (simp_all add: and_then_def)

subsection \<open>Input conversions\<close>

definition is_space :: "char \<Rightarrow> bool" where
  "is_space c \<longleftrightarrow> c = CHR '' '' \<or> (9 \<le> (of_char c :: nat) \<and> (of_char c :: nat) \<le> 13)"

definition is_digit :: "char \<Rightarrow> bool" where
  "is_digit c \<longleftrightarrow> 48 \<le> (of_char c :: nat) \<and> (of_char c :: nat) \<le> 57"

definition digit_val :: "char \<Rightarrow> nat" where
  "digit_val c = of_char c - 48"

definition skip_space :: "string \<Rightarrow> string" where
  "skip_space = dropWhile is_space"

definition number :: "string \<Rightarrow> nat" where
  "number = foldl (\<lambda>n c. 10 * n + digit_val c) 0"

text \<open>\<open>%u\<close> and \<open>%d\<close>: the number, if the input matches, and the input that is left.\<close>

definition scan_number :: "string \<Rightarrow> int option \<times> string" where
  "scan_number s0 =
    (let s = skip_space s0;
         neg = (s \<noteq> [] \<and> hd s = CHR ''-'');
         t = (if s \<noteq> [] \<and> (hd s = CHR ''-'' \<or> hd s = CHR ''+'') then tl s else s);
         ds = takeWhile is_digit t
     in (if ds = [] then None else Some (if neg then - int (number ds) else int (number ds)),
         dropWhile is_digit t))"

text \<open>\<open>n\<close> conversions in one call; \<open>fits\<close> says which numbers the objects can hold.\<close>

fun scan_ints :: "(int \<Rightarrow> bool) \<Rightarrow> nat \<Rightarrow> string \<Rightarrow> load_error + (int list \<times> string)" where
  "scan_ints fits 0 s = Inr ([], s)"
| "scan_ints fits (Suc n) s = (case scan_number s of
     (None, rest) \<Rightarrow> Inr ([], rest)
   | (Some v, rest) \<Rightarrow> if \<not> fits v then Inl Undefined
       else and_then (scan_ints fits n rest) (\<lambda>(vs, rest'). Inr (v # vs, rest')))"

definition scan_numbers :: "(int \<Rightarrow> bool) \<Rightarrow> nat \<Rightarrow> string \<Rightarrow> load_error + (u32 list \<times> string)" where
  "scan_numbers fits n s = and_then (scan_ints fits n s) (\<lambda>(vs, rest). Inr (map word_of_int vs, rest))"

lemma scan_numbers_Suc:
  "scan_numbers fits (Suc n) s = (case scan_number s of
     (None, rest) \<Rightarrow> Inr ([], rest)
   | (Some v, rest) \<Rightarrow> if \<not> fits v then Inl Undefined
       else and_then (scan_numbers fits n rest) (\<lambda>(vs, rest'). Inr (word_of_int v # vs, rest')))"
  by (auto simp: scan_numbers_def and_then_def split: prod.splits option.splits sum.splits)

text \<open>\<open>%u\<close> reads a number with a minus sign as well, and negates it in the unsigned type, as \<open>strtoul\<close> does.\<close>

definition fits_unsigned :: "int \<Rightarrow> bool" where
  "fits_unsigned v \<longleftrightarrow> - (2 ^ 32) < v \<and> v < 2 ^ 32"

definition fits_signed :: "int \<Rightarrow> bool" where
  "fits_signed v \<longleftrightarrow> - (2 ^ 31) \<le> v \<and> v < 2 ^ 31"

text \<open>A format of \<open>n\<close> times \<open>%u\<close> and a final white space directive.\<close>

definition scan_line :: "nat \<Rightarrow> string \<Rightarrow> load_error + (u32 list \<times> string)" where
  "scan_line n s = and_then (scan_numbers fits_unsigned n s)
    (\<lambda>(vs, rest). Inr (vs, if length vs = n then skip_space rest else rest))"

text \<open>\<open>fgets\<close> with a buffer of \<open>n\<close> bytes: a line with its newline, cut at \<open>n - 1\<close> characters.\<close>

fun fgets :: "nat \<Rightarrow> string \<Rightarrow> string \<times> string" where
  "fgets 0 s = ([], s)"
| "fgets (Suc n) s = (if n = 0 then ([], s) else case s of
     [] \<Rightarrow> ([], [])
   | c # cs \<Rightarrow> if c = CHR 0x0A then ([c], cs) else (let (l, rest) = fgets n cs in (c # l, rest)))"

subsection \<open>Instructions\<close>

definition get_opcode :: "string \<Rightarrow> load_error + ins_opcode_t" where
  "get_opcode opt =
    (if opt = ''calc'' then Inr CALC
     else if opt = ''alloc'' then Inr ALLOC
     else if opt = ''free'' then Inr FREE
     else if opt = ''read'' then Inr READ
     else if opt = ''write'' then Inr WRITE
     else if opt = ''syscall'' then Inr SYSCALL
     else Inl Exit_failure)"

text \<open>The stream and the local arrays \<open>opcode\<close> and \<open>buf\<close>; an array not yet assigned is \<open>None\<close>.\<close>

record scan =
  s_in :: string
  s_opcode :: "string option"
  s_buf :: "string option"

definition scan_opcode :: "scan \<Rightarrow> load_error + scan" where
  "scan_opcode s =
    (let t = skip_space (s_in s); w = takeWhile (\<lambda>c. \<not> is_space c) t in
     if w = [] then Inr (s\<lparr>s_in := t\<rparr>)
     else if length w > 9 then Inl Undefined
     else Inr (s\<lparr>s_in := dropWhile (\<lambda>c. \<not> is_space c) t, s_opcode := Some w\<rparr>))"

definition set_args :: "inst_t \<Rightarrow> u32 list \<Rightarrow> inst_t" where
  "set_args ins vs = (case vs of
     [] \<Rightarrow> ins
   | [a] \<Rightarrow> ins\<lparr>arg_0 := a\<rparr>
   | [a, b] \<Rightarrow> ins\<lparr>arg_0 := a, arg_1 := b\<rparr>
   | [a, b, c] \<Rightarrow> ins\<lparr>arg_0 := a, arg_1 := b, arg_2 := c\<rparr>
   | a # b # c # d # _ \<Rightarrow> ins\<lparr>arg_0 := a, arg_1 := b, arg_2 := c, arg_3 := d\<rparr>)"

text \<open>One round of the loop of \<open>load\<close>, on the block of the instruction.\<close>

definition load_inst :: "scan \<Rightarrow> inst_t \<Rightarrow> load_error + (inst_t \<times> scan)" where
  "load_inst s0 block = and_then (scan_opcode s0) (\<lambda>s.
    case s_opcode s of
      None \<Rightarrow> Inl Undefined
    | Some opt \<Rightarrow> and_then (get_opcode opt) (\<lambda>op.
        let ins = block\<lparr>opcode := op\<rparr>;
            nums = (\<lambda>n. and_then (scan_line n (s_in s))
              (\<lambda>(vs, rest). Inr (set_args ins vs, s\<lparr>s_in := rest\<rparr>)))
        in case op of
            CALC \<Rightarrow> Inr (ins, s)
          | ALLOC \<Rightarrow> nums 2
          | FREE \<Rightarrow> nums 1
          | READ \<Rightarrow> nums 3
          | WRITE \<Rightarrow> nums 3
          | SYSCALL \<Rightarrow>
              let (line, rest) = fgets 200 (s_in s);
                  s' = (if line = [] then s else s\<lparr>s_in := rest, s_buf := Some line\<rparr>)
              in case s_buf s' of
                   None \<Rightarrow> Inl Undefined
                 | Some buf \<Rightarrow> and_then (scan_numbers fits_signed 4 buf) (\<lambda>(vs, _). Inr (set_args ins vs, s'))))"

fun load_loop :: "scan \<Rightarrow> inst_t list \<Rightarrow> load_error + inst_t list" where
  "load_loop s [] = Inr []"
| "load_loop s (block # blocks) = and_then (load_inst s block)
    (\<lambda>(ins, s'). and_then (load_loop s' blocks) (\<lambda>text. Inr (ins # text)))"

subsection \<open>Processes\<close>

text \<open>
  \<open>block\<close> is what the new control block held, \<open>pt\<close> the page table, \<open>code0\<close> the \<open>code_seg_t\<close> and
  \<open>text0 i\<close> the \<open>i\<close>-th element of \<open>text\<close>. \<open>avail_pid\<close> is the static variable. \<open>snprintf\<close> writes at most
  \<open>2 * sizeof(path)\<close> characters of the path, and \<open>path\<close> is a pointer of 8 bytes.
\<close>

definition load ::
  "(string \<Rightarrow> string option) \<Rightarrow> pcb_t \<Rightarrow> page_table_t \<Rightarrow> code_seg_t \<Rightarrow> (nat \<Rightarrow> inst_t) \<Rightarrow> u32 \<Rightarrow> string \<Rightarrow>
   load_error + (pcb_t \<times> u32)" where
  "load files block pt code0 text0 avail_pid pth =
    (case files pth of
       None \<Rightarrow> Inl Exit_failure
     | Some file \<Rightarrow> and_then (scan_numbers fits_unsigned 2 file) (\<lambda>(vs, rest).
         let prio0 = (case vs of p # _ \<Rightarrow> p | [] \<Rightarrow> priority block);
             sz = (case vs of _ # n # _ \<Rightarrow> n | _ \<Rightarrow> cs_size code0)
         in and_then (load_loop \<lparr>s_in = rest, s_opcode = None, s_buf = None\<rparr> (map text0 [0..<unat sz]))
           (\<lambda>text. Inr (block\<lparr>pid := avail_pid, page_table := pt, bp := word_of_int PAGE_SIZE, pc := 0,
             path := take 16 pth, priority := prio0, code := \<lparr>cs_text = text, cs_size = sz\<rparr>\<rparr>,
             avail_pid + 1))))"

subsection \<open>Reading a number back\<close>

fun show_nat :: "nat \<Rightarrow> string" where
  "show_nat n = (if n < 10 then [char_of (48 + n)] else show_nat (n div 10) @ [char_of (48 + n mod 10)])"

declare show_nat.simps [simp del]

lemma digit_char: "d < 10 \<Longrightarrow> is_digit (char_of (48 + d)) \<and> digit_val (char_of (48 + d)) = d"
  by (simp add: is_digit_def digit_val_def)

lemma show_nat_digits: "set (show_nat n) \<subseteq> {c. is_digit c}"
proof (induction n rule: show_nat.induct)
  case (1 n)
  then show ?case
    using digit_char [of n] digit_char [of "n mod 10"] by (subst show_nat.simps) (auto simp del: char_of_quasi_inj)
qed

lemma number_show_nat: "number (show_nat n) = n"
proof (induction n rule: show_nat.induct)
  case (1 n)
  then show ?case
    using digit_char [of n] digit_char [of "n mod 10"] by (subst show_nat.simps) (simp add: number_def)
qed

lemma show_nat_not_Nil [simp]: "show_nat n \<noteq> []"
  by (subst show_nat.simps) simp

lemma length_show_nat: "n < 10 ^ Suc k \<Longrightarrow> length (show_nat n) \<le> Suc k"
proof (induction k arbitrary: n)
  case 0
  then show ?case by (subst show_nat.simps) simp
next
  case (Suc k)
  then have "n div 10 < 10 ^ Suc k" by (simp add: less_mult_imp_div_less)
  with Suc.IH show ?case by (subst show_nat.simps) simp
qed

lemma digit_not_space: "is_digit c \<Longrightarrow> \<not> is_space c \<and> c \<noteq> CHR ''-'' \<and> c \<noteq> CHR ''+''"
  by (auto simp: is_digit_def is_space_def)

lemma skip_space_append: "set ws \<subseteq> {c. is_space c} \<Longrightarrow> skip_space (ws @ s) = skip_space s"
  by (induction ws) (auto simp: skip_space_def)

lemma scan_number_show:
  assumes "set ws \<subseteq> {c. is_space c}" "\<not> is_digit c"
  shows "scan_number (ws @ show_nat n @ c # rest) = (Some (int n), c # rest)"
proof -
  obtain d ds where d: "show_nat n = d # ds" using show_nat_not_Nil [of n] by (cases "show_nat n") auto
  with show_nat_digits [of n] have dig: "is_digit d" "set ds \<subseteq> {c. is_digit c}" by auto
  have "skip_space (ws @ show_nat n @ c # rest) = show_nat n @ c # rest"
    using skip_space_append [OF assms(1)] digit_not_space [OF dig(1)] d by (simp add: skip_space_def)
  moreover have "takeWhile is_digit (show_nat n @ c # rest) = show_nat n" "dropWhile is_digit (show_nat n @ c # rest) = c # rest"
    using show_nat_digits [of n] assms(2) by (auto simp: takeWhile_append dropWhile_append)
  ultimately show ?thesis
    using digit_not_space [OF dig(1)] number_show_nat [of n] d by (simp add: scan_number_def Let_def)
qed

text \<open>Numbers separated by spaces.\<close>

definition show_nats :: "nat list \<Rightarrow> string" where
  "show_nats ns = concat (map (\<lambda>n. CHR '' '' # show_nat n) ns)"

lemma show_nats_simps [simp]:
  "show_nats [] = []" "show_nats (n # ns) = CHR '' '' # show_nat n @ show_nats ns"
  by (simp_all add: show_nats_def)

definition show_args :: "u32 list \<Rightarrow> string" where
  "show_args vs = show_nats (map unat vs)"

lemma show_args_simps [simp]:
  "show_args [] = []" "show_args (v # vs) = CHR '' '' # show_nat (unat v) @ show_args vs"
  by (simp_all add: show_args_def)

lemma scan_ints_show:
  assumes "\<forall>n \<in> set ns. fits (int n)" "\<not> is_digit c"
  shows "scan_ints fits (length ns) (show_nats ns @ c # rest) = Inr (map int ns, c # rest)"
  using assms(1)
proof (induction ns)
  case (Cons n ns)
  obtain c' rest' where r: "show_nats ns @ c # rest = c' # rest'" "\<not> is_digit c'"
  proof (cases ns)
    case Nil
    then show thesis using that [of c rest] assms(2) by simp
  next
    case (Cons m ms)
    then show thesis using that [of "CHR '' ''" "show_nat m @ show_nats ms @ c # rest"] by (simp add: is_digit_def)
  qed
  have "scan_number ([CHR '' ''] @ show_nat n @ c' # rest') = (Some (int n), c' # rest')"
    by (rule scan_number_show [OF _ r(2)]) (simp add: is_space_def)
  then show ?case using Cons r(1) by simp
qed simp

lemma scan_numbers_show:
  assumes "\<forall>v \<in> set vs. fits (uint v)" "\<not> is_digit c"
  shows "scan_numbers fits (length vs) (show_args vs @ c # rest) = Inr (vs, c # rest)"
  using scan_ints_show [of "map unat vs" fits c rest] assms
  by (simp add: scan_numbers_def show_args_def comp_def)

lemma fits_uint [simp]: "fits_unsigned (uint (v :: u32))"
  using unsigned_less [of v] less_le_trans [OF _ uint_ge_0, of "- 4294967296" v] by (simp add: fits_unsigned_def)

lemma length_show_args: "length (show_args vs) \<le> 11 * length vs"
proof (induction vs)
  case (Cons v vs)
  have "unat v < 10 ^ Suc 9" using unsigned_less [of v, where ?'a = nat] by simp
  then have "length (show_nat (unat v)) \<le> 10" using length_show_nat [of "unat v" 9] by simp
  with Cons show ?case by simp
qed simp

lemma newline_not_in_args: "CHR 0x0A \<notin> set (show_args vs)"
proof (induction vs)
  case (Cons v vs)
  then show ?case using show_nat_digits [of "unat v"] by (auto simp: is_digit_def)
qed simp

lemma fgets_line:
  "CHR 0x0A \<notin> set l \<Longrightarrow> length l + 1 < n \<Longrightarrow> fgets n (l @ CHR 0x0A # rest) = (l @ [CHR 0x0A], rest)"
proof (induction l arbitrary: n)
  case Nil
  then show ?case by (cases n) auto
next
  case (Cons c l)
  then show ?case by (cases n) (auto simp: Let_def split_def)
qed

subsection \<open>The file format, and reading it back\<close>

definition opcode_name :: "ins_opcode_t \<Rightarrow> string" where
  "opcode_name op = (case op of CALC \<Rightarrow> ''calc'' | ALLOC \<Rightarrow> ''alloc'' | FREE \<Rightarrow> ''free'' | READ \<Rightarrow> ''read''
     | WRITE \<Rightarrow> ''write'' | SYSCALL \<Rightarrow> ''syscall'')"

definition used_args :: "inst_t \<Rightarrow> u32 list" where
  "used_args ins = (case opcode ins of
     CALC \<Rightarrow> []
   | ALLOC \<Rightarrow> [arg_0 ins, arg_1 ins]
   | FREE \<Rightarrow> [arg_0 ins]
   | READ \<Rightarrow> [arg_0 ins, arg_1 ins, arg_2 ins]
   | WRITE \<Rightarrow> [arg_0 ins, arg_1 ins, arg_2 ins]
   | SYSCALL \<Rightarrow> [arg_0 ins, arg_1 ins, arg_2 ins, arg_3 ins])"

definition show_inst :: "inst_t \<Rightarrow> string" where
  "show_inst ins = opcode_name (opcode ins) @ show_args (used_args ins) @ [CHR 0x0A]"

definition show_program :: "u32 \<Rightarrow> inst_t list \<Rightarrow> string" where
  "show_program p prog = show_nat (unat p) @ CHR '' '' # show_nat (length prog) @ CHR 0x0A # concat (map show_inst prog)"

text \<open>The arguments of a system call are read with \<open>%d\<close>.\<close>

definition printable :: "inst_t \<Rightarrow> bool" where
  "printable ins \<longleftrightarrow> (opcode ins = SYSCALL \<longrightarrow> (\<forall>v \<in> set (used_args ins). uint v < 2 ^ 31))"

definition blank_space :: "string \<Rightarrow> bool" where
  "blank_space ws \<longleftrightarrow> set ws \<subseteq> {c. is_space c}"

lemma blank_space_simps [simp]: "blank_space []" "blank_space [CHR 0x0A]"
  by (simp_all add: blank_space_def is_space_def)

lemma get_opcode_name [simp]: "get_opcode (opcode_name op) = Inr op"
  by (cases op) (simp_all add: opcode_name_def get_opcode_def)

lemma opcode_name_chars: "set (opcode_name op) \<subseteq> {c. \<not> is_space c} \<and> opcode_name op \<noteq> [] \<and> length (opcode_name op) \<le> 7"
  by (cases op) (simp_all add: opcode_name_def is_space_def)

lemma scan_opcode_name:
  assumes "blank_space ws" "is_space c"
  shows "scan_opcode (s\<lparr>s_in := ws @ opcode_name op @ c # rest\<rparr>) =
    Inr (s\<lparr>s_in := c # rest, s_opcode := Some (opcode_name op)\<rparr>)"
proof -
  let ?w = "opcode_name op"
  have w: "set ?w \<subseteq> {c. \<not> is_space c}" "?w \<noteq> []" "length ?w \<le> 7" using opcode_name_chars [of op] by auto
  then have "skip_space (ws @ ?w @ c # rest) = ?w @ c # rest"
    using skip_space_append [of ws] assms(1) by (cases ?w) (auto simp: blank_space_def skip_space_def)
  moreover have "takeWhile (\<lambda>c. \<not> is_space c) (?w @ c # rest) = ?w"
    "dropWhile (\<lambda>c. \<not> is_space c) (?w @ c # rest) = c # rest"
    using w(1) assms(2) by (auto simp: takeWhile_append dropWhile_append)
  ultimately show ?thesis using w by (simp add: scan_opcode_def Let_def)
qed

lemma scan_line_show:
  "scan_line (length vs) (show_args vs @ CHR 0x0A # rest) = Inr (vs, skip_space rest)"
  using scan_numbers_show [of vs fits_unsigned "CHR 0x0A" rest]
  by (simp add: scan_line_def is_digit_def skip_space_def is_space_def)

lemma skip_program:
  assumes "blank_space ws"
  shows "\<exists>ws'. blank_space ws' \<and> skip_space (ws @ concat (map show_inst prog)) = ws' @ concat (map show_inst prog)"
proof (cases prog)
  case Nil
  have "skip_space (ws @ []) = skip_space []" using skip_space_append [of ws "[]"] assms by (simp add: blank_space_def)
  then show ?thesis using Nil by (intro exI [of _ "[]"]) (simp add: skip_space_def)
next
  case (Cons i tl0)
  obtain c cs where "opcode_name (opcode i) = c # cs" "\<not> is_space c"
    using opcode_name_chars [of "opcode i"] by (cases "opcode_name (opcode i)") auto
  then show ?thesis
    using skip_space_append [of ws] assms Cons
    by (intro exI [of _ "[]"]) (simp add: blank_space_def show_inst_def skip_space_def)
qed

text \<open>An instruction and its block agree on what the instruction uses.\<close>

definition same_inst :: "inst_t \<Rightarrow> inst_t \<Rightarrow> bool" where
  "same_inst a b \<longleftrightarrow> opcode a = opcode b \<and> used_args a = used_args b"

lemma set_args_same: "same_inst (set_args (block\<lparr>opcode := opcode ins\<rparr>) (used_args ins)) ins"
  by (cases "opcode ins") (simp_all add: same_inst_def set_args_def used_args_def)

lemma load_inst_show:
  assumes "blank_space ws" "printable ins"
  shows "\<exists>ins' s' ws'. load_inst (s\<lparr>s_in := ws @ show_inst ins @ concat (map show_inst prog)\<rparr>) block = Inr (ins', s') \<and>
    same_inst ins' ins \<and> blank_space ws' \<and> s_in s' = ws' @ concat (map show_inst prog)"
proof -
  let ?rest = "concat (map show_inst prog)" and ?vs = "used_args ins" and ?op = "opcode ins"
  let ?tail = "show_args ?vs @ CHR 0x0A # ?rest"
  let ?s = "s\<lparr>s_in := ?tail, s_opcode := Some (opcode_name ?op)\<rparr>"
  have sp: "\<exists>c t. ?tail = c # t \<and> is_space c"
    by (cases ?vs) (simp_all add: is_space_def)
  then have op: "scan_opcode (s\<lparr>s_in := ws @ show_inst ins @ ?rest\<rparr>) = Inr ?s"
    using scan_opcode_name [OF assms(1)] by (auto simp: show_inst_def)
  obtain ws' where ws': "blank_space ws'" "skip_space ?rest = ws' @ ?rest"
    using skip_program [of "[]" prog] by auto
  show ?thesis
  proof (cases "?op = SYSCALL \<or> ?op = CALC")
    case False
    then have "load_inst (s\<lparr>s_in := ws @ show_inst ins @ ?rest\<rparr>) block =
        and_then (scan_line (length ?vs) ?tail) (\<lambda>(vs, rest). Inr (set_args (block\<lparr>opcode := ?op\<rparr>) vs, ?s\<lparr>s_in := rest\<rparr>))"
      by (cases ?op) (simp_all add: load_inst_def op used_args_def Let_def numeral_2_eq_2 numeral_3_eq_3)
    with ws' set_args_same [where block = block and ins = ins] show ?thesis by (simp add: scan_line_show)
  next
    case True
    then show ?thesis
    proof
      assume o: "?op = CALC"
      have "used_args (block\<lparr>opcode := CALC\<rparr>) = []" by (simp add: used_args_def)
      then have "same_inst (block\<lparr>opcode := CALC\<rparr>) ins" using o by (simp add: same_inst_def used_args_def)
      moreover have "load_inst (s\<lparr>s_in := ws @ show_inst ins @ ?rest\<rparr>) block = Inr (block\<lparr>opcode := CALC\<rparr>, ?s)"
        using op o by (simp add: load_inst_def Let_def)
      moreover have "s_in ?s = [CHR 0x0A] @ ?rest" using o by (simp add: used_args_def)
      ultimately show ?thesis by (intro exI [of _ "[CHR 0x0A]"] exI conjI) (assumption | simp)+
    next
      assume o: "?op = SYSCALL"
      let ?line = "show_args ?vs @ [CHR 0x0A]"
      have len: "length ?vs = 4" using o by (simp add: used_args_def)
      have f: "fgets 200 ?tail = (?line, ?rest)"
        using fgets_line [OF newline_not_in_args [of ?vs], of 200 ?rest] length_show_args [of ?vs] len by simp
      have ge: "- 2147483648 \<le> uint v" for v :: u32
        by (rule order_trans [OF _ uint_ge_0]) simp
      have "scan_numbers fits_signed 4 ?line = Inr (?vs, [CHR 0x0A])"
        using scan_numbers_show [of ?vs fits_signed "CHR 0x0A" "[]"] assms(2) o len
        by (simp add: printable_def fits_signed_def is_digit_def ge)
      then have "load_inst (s\<lparr>s_in := ws @ show_inst ins @ ?rest\<rparr>) block =
          Inr (set_args (block\<lparr>opcode := ?op\<rparr>) ?vs, ?s\<lparr>s_in := ?rest, s_buf := Some ?line\<rparr>)"
        using op o f by (simp add: load_inst_def Let_def)
      with set_args_same [where block = block and ins = ins] show ?thesis
        by (intro exI [of _ "[]"] exI conjI) (assumption | simp)+
    qed
  qed
qed

lemma load_loop_show:
  assumes "\<forall>ins \<in> set prog. printable ins" "blank_space ws" "length blocks = length prog"
  shows "\<exists>prog'. load_loop (s\<lparr>s_in := ws @ concat (map show_inst prog)\<rparr>) blocks = Inr prog' \<and>
    list_all2 same_inst prog' prog"
  using assms
proof (induction prog arbitrary: ws s blocks)
  case (Cons ins prog)
  then obtain block blocks' where b: "blocks = block # blocks'" "length blocks' = length prog" by (cases blocks) auto
  from load_inst_show [where ws = ws and ins = ins and s = s and prog = prog and block = block] Cons.prems obtain ins' s' ws' where
    i: "load_inst (s\<lparr>s_in := ws @ show_inst ins @ concat (map show_inst prog)\<rparr>) block = Inr (ins', s')"
    "same_inst ins' ins" "blank_space ws'" "s_in s' = ws' @ concat (map show_inst prog)" by auto
  have s': "s'\<lparr>s_in := ws' @ concat (map show_inst prog)\<rparr> = s'" using i(4) by simp
  from Cons.IH [OF _ i(3) b(2), of s'] Cons.prems(1) obtain prog' where
    "load_loop s' blocks' = Inr prog'" "list_all2 same_inst prog' prog" by (auto simp: s')
  with i b show ?case by simp
qed simp

text \<open>What a loaded control block holds, whatever the file says.\<close>

lemma load_loop_length: "load_loop s blocks = Inr prog \<Longrightarrow> length prog = length blocks"
proof (induction blocks arbitrary: s prog)
  case (Cons block blocks)
  then show ?case by (auto simp: and_then_def split: sum.splits)
qed simp

lemma load_fields:
  assumes "load files block pt code0 text0 avail pth = Inr (x, n)"
  shows "regs x = regs block" "mm x = mm block" "pc x = 0" "int (length (cs_text (code x))) = uint (cs_size (code x))"
  using assms
  by (auto simp: load_def and_then_def Let_def split: option.splits sum.splits prod.splits
      dest!: load_loop_length)

text \<open>Loading a program in the format of the process files.\<close>

lemma load_show:
  assumes "files pth = Some (show_program p prog)" "\<forall>ins \<in> set prog. printable ins" "length prog < 2 ^ 32"
  shows "\<exists>x. load files block pt code0 text0 avail pth = Inr (x, avail + 1) \<and> pid x = avail \<and> priority x = p \<and>
    pc x = 0 \<and> bp x = 1024 \<and> path x = take 16 pth \<and> unat (cs_size (code x)) = length prog \<and>
    list_all2 same_inst (cs_text (code x)) prog"
proof -
  let ?n = "word_of_nat (length prog) :: u32"
  have n: "unat ?n = length prog" using assms(3) by (simp add: unat_of_nat take_bit_nat_eq_self)
  have printed: "show_program p prog = show_nat (unat p) @ show_args [?n] @ CHR 0x0A # concat (map show_inst prog)"
    by (simp add: show_program_def n)
  have "scan_number ([] @ show_nat (unat p) @ CHR '' '' # show_nat (length prog) @ CHR 0x0A # concat (map show_inst prog)) =
      (Some (int (unat p)), CHR '' '' # show_nat (length prog) @ CHR 0x0A # concat (map show_inst prog))"
    by (rule scan_number_show) (simp_all add: is_digit_def)
  moreover have "scan_numbers fits_unsigned (length [?n]) (show_args [?n] @ CHR 0x0A # concat (map show_inst prog)) =
      Inr ([?n], CHR 0x0A # concat (map show_inst prog))"
    by (rule scan_numbers_show) (simp_all add: is_digit_def)
  ultimately have h: "scan_numbers fits_unsigned 2 (show_program p prog) = Inr ([p, ?n], CHR 0x0A # concat (map show_inst prog))"
    by (simp add: show_program_def n numeral_2_eq_2 scan_numbers_Suc)
  have "\<exists>prog'. load_loop (\<lparr>s_in = [], s_opcode = None, s_buf = None\<rparr>\<lparr>s_in := [CHR 0x0A] @ concat (map show_inst prog)\<rparr>)
      (map text0 [0..<unat ?n]) = Inr prog' \<and> list_all2 same_inst prog' prog"
    by (rule load_loop_show [OF assms(2)]) (simp_all add: n)
  then obtain prog' where l: "load_loop \<lparr>s_in = CHR 0x0A # concat (map show_inst prog), s_opcode = None, s_buf = None\<rparr>
      (map text0 [0..<unat ?n]) = Inr prog'" "list_all2 same_inst prog' prog" by auto
  then show ?thesis using assms(1) h n by (simp add: load_def mem_consts)
qed

text \<open>
  C20. Round trip of the loader: a program written in the format of the process files is loaded with its
  priority and exactly its instructions and arguments, whatever the fresh blocks held; the program
  counter is 0, the break pointer one page, and of the path 16 characters are kept.
\<close>

theorem load_program_roundtrip:
  assumes "files pth = Some (show_program p prog)" "\<forall>ins \<in> set prog. printable ins" "length prog < 2 ^ 32"
  shows "\<exists>x. load files block pt code0 text0 avail pth = Inr (x, avail + 1) \<and> pid x = avail \<and> priority x = p \<and>
    pc x = 0 \<and> bp x = 1024 \<and> path x = take 16 pth \<and> unat (cs_size (code x)) = length prog \<and>
    map opcode (cs_text (code x)) = map opcode prog \<and> map used_args (cs_text (code x)) = map used_args prog"
proof -
  have same: "map opcode as = map opcode bs \<and> map used_args as = map used_args bs" if "list_all2 same_inst as bs" for "as" bs
    using that by (induction rule: list_all2_induct) (simp_all add: same_inst_def)
  from load_show [where files = files, OF assms] obtain x where x: "load files block pt code0 text0 avail pth = Inr (x, avail + 1)" "pid x = avail"
    "priority x = p" "pc x = 0" "bp x = 1024" "path x = take 16 pth" "unat (cs_size (code x)) = length prog"
    "list_all2 same_inst (cs_text (code x)) prog" by blast
  from same [OF x(8)] x show ?thesis by blast
qed

definition sample_program :: "inst_t list" where
  "sample_program = [
     \<lparr>opcode = ALLOC, arg_0 = 300, arg_1 = 0, arg_2 = 0, arg_3 = 0\<rparr>,
     \<lparr>opcode = SYSCALL, arg_0 = 101, arg_1 = 1, arg_2 = 2, arg_3 = 3\<rparr>,
     \<lparr>opcode = CALC, arg_0 = 0, arg_1 = 0, arg_2 = 0, arg_3 = 0\<rparr>]"

theorem load_program_roundtrip_witness:
  "\<forall>block pt code0 text0. \<exists>x. load [''p0'' \<mapsto> show_program 20 sample_program] block pt code0 text0 1 ''p0'' = Inr (x, 2) \<and>
    priority x = 20 \<and> map opcode (cs_text (code x)) = [ALLOC, SYSCALL, CALC] \<and>
    map used_args (cs_text (code x)) = [[300, 0], [101, 1, 2, 3], []]"
proof (intro allI)
  fix block :: pcb_t and pt code0 text0
  have p: "\<forall>ins \<in> set sample_program. printable ins" "length sample_program < 2 ^ 32"
    by (simp_all add: sample_program_def printable_def used_args_def)
  have "map opcode sample_program = [ALLOC, SYSCALL, CALC]"
    "map used_args sample_program = [[300, 0], [101, 1, 2, 3], []]"
    by (simp_all add: sample_program_def used_args_def)
  then show "\<exists>x. load [''p0'' \<mapsto> show_program 20 sample_program] block pt code0 text0 1 ''p0'' = Inr (x, 2) \<and>
      priority x = 20 \<and> map opcode (cs_text (code x)) = [ALLOC, SYSCALL, CALC] \<and>
      map used_args (cs_text (code x)) = [[300, 0], [101, 1, 2, 3], []]"
    using load_program_roundtrip [of "[''p0'' \<mapsto> show_program 20 sample_program]" "''p0''" 20 sample_program block pt code0 text0 1] p
    by auto
qed

end
