(* ===== verification/Os.thy ===== *)
theory Os
  imports Cpu Timer Loader
begin

text \<open>
  The simulator of \<open>src/os.c\<close>: CPU threads, the loader thread and the timer thread of \<open>Timer\<close>, working
  on the kernel state of \<open>Killall\<close>.

  A thread's state is where it is in its routine and its local variables; \<open>cpu_step\<close> and \<open>ld_step\<close> are
  its atomic steps, one per access to shared state (the scheduler's functions hold \<open>queue_lock\<close>; a call
  of \<open>run\<close> is one step, so two CPUs inside the memory library at once are not covered), and \<open>os_step\<close>
  interleaves them. A step whose code would be undefined does not exist (\<open>None\<close>). Waiting in
  \<open>next_slot\<close> is a step that changes nothing. A CPU's \<open>proc\<close> is set to null when it is given away (the
  C variable is overwritten before it is read again).
\<close>

subsection \<open>State\<close>

record os_config =
  time_slot :: cint
  num_cpus :: cint
  num_processes :: cint
  memramsz :: cint
  memswpsz :: "cint list"
  ld_path :: "string list"
  ld_start_time :: "u64 list"
  ld_prio :: "u64 list"

datatype cpu_loc = C_top | C_get | C_check | C_run | C_slot | C_wait | C_detach | C_stopped

record cpu =
  c_loc :: cpu_loc
  c_proc :: pcb_ptr
  c_left :: cint

datatype ld_loc = L_load | L_wait | L_sleep | L_add | L_next | L_next_sleep | L_detach | L_stopped

record loader =
  l_loc :: ld_loc
  l_i :: cint
  l_proc :: pcb_ptr

record os =
  o_kernel :: kernel
  o_time :: protocol
  o_cpus :: "cpu list"
  o_ld :: loader
  o_pid :: u32
  o_done :: bool
  o_exit :: bool

text \<open>The fresh blocks that a step of the loader gets from \<open>malloc\<close>.\<close>

record ld_blocks =
  lb_ptr :: pcb_ptr
  lb_pcb :: pcb_t
  lb_pt :: page_table_t
  lb_code :: code_seg_t
  lb_text :: "nat \<Rightarrow> inst_t"
  lb_mm :: mm_struct
  lb_pgd :: "u32 list"
  lb_freerg :: rg_ptr

text \<open>
  \<open>malloc\<close> gives blocks of the size asked for, with arbitrary contents; the pointer \<open>mm\<close> of a new
  control block is unassigned.
\<close>

definition blocks_ok :: "ld_blocks \<Rightarrow> bool" where
  "blocks_ok b \<longleftrightarrow> lb_ptr b \<noteq> 0 \<and> length (regs (lb_pcb b)) = 10 \<and> mm (lb_pcb b) = None \<and>
     length (symrgtbl (lb_mm b)) = 30 \<and> length (lb_pgd b) = 16384"

subsection \<open>Devices of the timer\<close>

definition dev_enter :: "nat \<Rightarrow> protocol \<Rightarrow> protocol option" where
  "dev_enter i p = do {
     t \<leftarrow> next_slot_enter (p_timer p) i;
     Some (p\<lparr>p_timer := t, p_act := (p_act p)(i := Waiting), p_calls := (p_calls p)(i := Suc (p_calls p i))\<rparr>)
   }"

definition dev_leave :: "nat \<Rightarrow> protocol \<Rightarrow> protocol" where
  "dev_leave i p = p\<lparr>p_act := (p_act p)(i := Working)\<rparr>"

definition dev_detach :: "nat \<Rightarrow> protocol \<Rightarrow> protocol option" where
  "dev_detach i p = do {
     t \<leftarrow> detach_event (p_timer p) i;
     Some (p\<lparr>p_timer := t, p_act := (p_act p)(i := Detached)\<rparr>)
   }"

subsection \<open>\<open>cpu_routine\<close>\<close>

definition set_cpu :: "os \<Rightarrow> nat \<Rightarrow> cpu \<Rightarrow> os" where
  "set_cpu s i c = s\<lparr>o_cpus := (o_cpus s)[i := c]\<rparr>"

definition cpu_step :: "os_config \<Rightarrow> nat \<Rightarrow> os \<Rightarrow> os option" where
  "cpu_step cfg i s =
    (let c = o_cpus s ! i; k = o_kernel s; proc = c_proc c in
     case c_loc c of
       C_top \<Rightarrow>
         if proc = 0 then do {
           (p, sc) \<leftarrow> get_proc (k_pcbs k) (k_sched k);
           Some (set_cpu (s\<lparr>o_kernel := k\<lparr>k_sched := sc\<rparr>\<rparr>) i
             (c\<lparr>c_proc := p, c_loc := if p = 0 then C_slot else C_check\<rparr>))
         }
         else do {
           x \<leftarrow> k_pcbs k proc;
           if pc x = cs_size (code x) then
             Some (set_cpu (s\<lparr>o_kernel := k\<lparr>k_pcbs := (k_pcbs k)(proc := None)\<rparr>\<rparr>) i
               (c\<lparr>c_proc := 0, c_left := 0, c_loc := C_get\<rparr>))
           else if c_left c = 0 then do {
             (st, sc) \<leftarrow> put_proc (k_pcbs k) (k_sched k) proc;
             Some (set_cpu (s\<lparr>o_kernel := k\<lparr>k_pcbs := st, k_sched := sc\<rparr>\<rparr>) i (c\<lparr>c_proc := 0, c_loc := C_get\<rparr>))
           }
           else Some (set_cpu s i (c\<lparr>c_loc := C_check\<rparr>))
         }
     | C_get \<Rightarrow> do {
         (p, sc) \<leftarrow> get_proc (k_pcbs k) (k_sched k);
         Some (set_cpu (s\<lparr>o_kernel := k\<lparr>k_sched := sc\<rparr>\<rparr>) i (c\<lparr>c_proc := p, c_loc := C_check\<rparr>))
       }
     | C_check \<Rightarrow>
         if proc = 0 \<and> o_done s then Some (set_cpu s i (c\<lparr>c_loc := C_detach\<rparr>))
         else if proc = 0 then Some (set_cpu s i (c\<lparr>c_loc := C_slot\<rparr>))
         else if c_left c = 0 then Some (set_cpu s i (c\<lparr>c_left := time_slot cfg, c_loc := C_run\<rparr>))
         else Some (set_cpu s i (c\<lparr>c_loc := C_run\<rparr>))
     | C_run \<Rightarrow> do {
         (_, k') \<leftarrow> run k proc;
         n \<leftarrow> c_ret (c_left c - 1);
         Some (set_cpu (s\<lparr>o_kernel := k'\<rparr>) i (c\<lparr>c_left := n, c_loc := C_slot\<rparr>))
       }
     | C_slot \<Rightarrow> do {
         p \<leftarrow> dev_enter i (o_time s);
         Some (set_cpu (s\<lparr>o_time := p\<rparr>) i (c\<lparr>c_loc := C_wait\<rparr>))
       }
     | C_wait \<Rightarrow> do {
         r \<leftarrow> next_slot_returns (p_timer (o_time s)) i;
         Some (if r then set_cpu (s\<lparr>o_time := dev_leave i (o_time s)\<rparr>) i (c\<lparr>c_loc := C_top\<rparr>) else s)
       }
     | C_detach \<Rightarrow> do {
         p \<leftarrow> dev_detach i (o_time s);
         Some (set_cpu (s\<lparr>o_time := p\<rparr>) i (c\<lparr>c_loc := C_stopped\<rparr>))
       }
     | C_stopped \<Rightarrow> Some s)"

subsection \<open>\<open>ld_routine\<close>\<close>

text \<open>The loader is the device attached last; \<open>n\<close> is its number.\<close>

definition ld_step ::
  "os_config \<Rightarrow> (string \<Rightarrow> string option) \<Rightarrow> ld_blocks \<Rightarrow> nat \<Rightarrow> os \<Rightarrow> os option" where
  "ld_step cfg files b n s =
    (let l = o_ld s; k = o_kernel s; i = l_i l in
     case l_loc l of
       L_load \<Rightarrow>
         if i < num_processes cfg then do {
           pth \<leftarrow> arr_get (ld_path cfg) i;
           (case load files (lb_pcb b) (lb_pt b) (lb_code b) (lb_text b) (o_pid s) pth of
              Inl Undefined \<Rightarrow> None
            | Inl Exit_failure \<Rightarrow> Some (s\<lparr>o_exit := True\<rparr>)
            | Inr (x, pid') \<Rightarrow> do {
                pr \<leftarrow> arr_get (ld_prio cfg) i;
                Some (s\<lparr>o_kernel := k\<lparr>k_pcbs := (k_pcbs k)(lb_ptr b \<mapsto> x\<lparr>prio := ucast pr\<rparr>)\<rparr>, o_pid := pid',
                  o_ld := l\<lparr>l_proc := lb_ptr b, l_loc := L_wait\<rparr>\<rparr>)
              })
         }
         else Some (s\<lparr>o_done := True, o_ld := l\<lparr>l_loc := L_detach\<rparr>\<rparr>)
     | L_wait \<Rightarrow> do {
         st \<leftarrow> arr_get (ld_start_time cfg) i;
         if current_time (p_timer (o_time s)) < st then do {
           p \<leftarrow> dev_enter n (o_time s);
           Some (s\<lparr>o_time := p, o_ld := l\<lparr>l_loc := L_sleep\<rparr>\<rparr>)
         }
         else Some (s\<lparr>o_ld := l\<lparr>l_loc := L_add\<rparr>\<rparr>)
       }
     | L_sleep \<Rightarrow> do {
         r \<leftarrow> next_slot_returns (p_timer (o_time s)) n;
         Some (if r then s\<lparr>o_time := dev_leave n (o_time s), o_ld := l\<lparr>l_loc := L_wait\<rparr>\<rparr> else s)
       }
     | L_add \<Rightarrow> do {
         x \<leftarrow> k_pcbs k (l_proc l);
         (_, m) \<leftarrow> init_mm (lb_mm b) (lb_pgd b) (lb_freerg b);
         (st, sc) \<leftarrow> add_proc ((k_pcbs k)(l_proc l \<mapsto> x\<lparr>mm := Some m\<rparr>)) (k_sched k) (l_proc l);
         i' \<leftarrow> c_ret (i + 1);
         Some (s\<lparr>o_kernel := k\<lparr>k_pcbs := st, k_sched := sc\<rparr>, o_ld := \<lparr>l_loc = L_next, l_i = i', l_proc = 0\<rparr>\<rparr>)
       }
     | L_next \<Rightarrow> do {
         p \<leftarrow> dev_enter n (o_time s);
         Some (s\<lparr>o_time := p, o_ld := l\<lparr>l_loc := L_next_sleep\<rparr>\<rparr>)
       }
     | L_next_sleep \<Rightarrow> do {
         r \<leftarrow> next_slot_returns (p_timer (o_time s)) n;
         Some (if r then s\<lparr>o_time := dev_leave n (o_time s), o_ld := l\<lparr>l_loc := L_load\<rparr>\<rparr> else s)
       }
     | L_detach \<Rightarrow> do {
         p \<leftarrow> dev_detach n (o_time s);
         Some (s\<lparr>o_time := p, o_ld := l\<lparr>l_loc := L_stopped\<rparr>\<rparr>)
       }
     | L_stopped \<Rightarrow> Some s)"

subsection \<open>\<open>main\<close> and the interleaving\<close>

text \<open>
  What \<open>main\<close> sets up: the devices of the timer, the RAM and the swap devices (of which processes use
  the first), the scheduler. \<open>ram0\<close> and \<open>swp0\<close> are its uninitialised device structures, \<open>sched0\<close> the
  static queues.
\<close>

fun init_swaps :: "cint list \<Rightarrow> memphy list \<Rightarrow> memphy list option" where
  "init_swaps (sz # szs) (mp # mps) = do {
     (_, m) \<leftarrow> init_memphy mp sz 1;
     ms \<leftarrow> init_swaps szs mps;
     Some (m # ms)
   }"
| "init_swaps _ _ = Some []"

definition os_start :: "os_config \<Rightarrow> memphy \<Rightarrow> memphy list \<Rightarrow> sched \<Rightarrow> os option" where
  "os_start cfg ram0 swp0 sched0 = do {
     (_, ram) \<leftarrow> init_memphy ram0 (memramsz cfg) 1;
     swaps \<leftarrow> init_swaps (memswpsz cfg) swp0;
     swp \<leftarrow> arr_get swaps 0;
     sc \<leftarrow> init_scheduler sched0;
     let n = nat (num_cpus cfg);
     Some \<lparr>o_kernel = \<lparr>k_pcbs = (\<lambda>_. None), k_sched = sc, k_devs = \<lparr>mram = Some ram, active_mswp = Some swp\<rparr>\<rparr>,
       o_time = started (Suc n), o_cpus = replicate n \<lparr>c_loc = C_top, c_proc = 0, c_left = 0\<rparr>,
       o_ld = \<lparr>l_loc = L_load, l_i = 0, l_proc = 0\<rparr>, o_pid = 1, o_done = False, o_exit = False\<rparr>
   }"

text \<open>\<open>heap\<close> says which of the fresh blocks \<open>malloc\<close> may return; \<open>any_heap\<close>: all of them.\<close>

definition any_heap :: "ld_blocks \<Rightarrow> bool" where
  "any_heap b \<longleftrightarrow> True"

lemma any_heap [simp]: "any_heap b"
  by (simp add: any_heap_def)

inductive os_step :: "os_config \<Rightarrow> (string \<Rightarrow> string option) \<Rightarrow> (ld_blocks \<Rightarrow> bool) \<Rightarrow> os \<Rightarrow> os \<Rightarrow> bool"
  for cfg :: os_config and files :: "string \<Rightarrow> string option" and heap :: "ld_blocks \<Rightarrow> bool" where
  timer: "\<not> o_exit s \<Longrightarrow> timer_step (p_timer (o_time s)) = Some t \<Longrightarrow>
    os_step cfg files heap s (s\<lparr>o_time := (o_time s)\<lparr>p_timer := t\<rparr>\<rparr>)"
| cpu: "\<not> o_exit s \<Longrightarrow> i < length (o_cpus s) \<Longrightarrow> cpu_step cfg i s = Some s' \<Longrightarrow> os_step cfg files heap s s'"
| loader: "\<not> o_exit s \<Longrightarrow> k_pcbs (o_kernel s) (lb_ptr b) = None \<Longrightarrow> blocks_ok b \<Longrightarrow> heap b \<Longrightarrow>
    ld_step cfg files b (length (o_cpus s)) s = Some s' \<Longrightarrow> os_step cfg files heap s s'"
| stop: "\<not> o_exit s \<Longrightarrow> \<forall>c \<in> set (o_cpus s). c_loc c = C_stopped \<Longrightarrow> l_loc (o_ld s) = L_stopped \<Longrightarrow>
    os_step cfg files heap s (s\<lparr>o_time := (o_time s)\<lparr>p_timer := stop_request (p_timer (o_time s))\<rparr>\<rparr>)"

inductive os_steps :: "os_config \<Rightarrow> (string \<Rightarrow> string option) \<Rightarrow> (ld_blocks \<Rightarrow> bool) \<Rightarrow> os \<Rightarrow> os \<Rightarrow> bool"
  for cfg :: os_config and files :: "string \<Rightarrow> string option" and heap :: "ld_blocks \<Rightarrow> bool" where
  none: "os_steps cfg files heap s s"
| more: "os_steps cfg files heap s s1 \<Longrightarrow> os_step cfg files heap s1 s2 \<Longrightarrow> os_steps cfg files heap s s2"

end
