(* ===== verification/Os_Safety.thy ===== *)
theory Os_Safety
  imports Os
begin

text \<open>
  What holds in every state the simulator of \<open>Os\<close> can reach: a process is in one place only, the
  threads follow the timer protocol, time slices are bounded; and what an idle CPU does.
\<close>

subsection \<open>Processes held by threads\<close>

text \<open>
  \<open>pool_inv h (st, sc)\<close>: the scheduler is well formed, the processes in \<open>h\<close> (held by threads) are
  live, and no process is held twice, queued twice, or held and queued.
\<close>

definition pool_inv :: "pcb_ptr multiset \<Rightarrow> sched_state \<Rightarrow> bool" where
  "pool_inv h x \<longleftrightarrow> ss_ok x \<and> sched_pool.exclusive h x \<and> (\<forall>p \<in># h. fst x p \<noteq> None)"

definition one :: "pcb_ptr \<Rightarrow> pcb_ptr multiset" where
  "one p = (if p = 0 then {#} else {#p#})"

lemma one_simps [simp]: "one 0 = {#}" "p \<noteq> 0 \<Longrightarrow> one p = {#p#}"
  by (simp_all add: one_def)

lemma exclusive_mono:
  assumes "sched_pool.exclusive h x" "ready_procs (snd y) \<subseteq># ready_procs (snd x)"
  shows "sched_pool.exclusive h y"
proof -
  have "count (h + ready_procs (snd y)) p \<le> count (h + ready_procs (snd x)) p" for p
    using mset_subset_eq_count [OF assms(2)] by simp
  with assms(1) show ?thesis unfolding sched_pool.exclusive_def using order_trans by blast
qed

lemma pool_get:
  assumes "pool_inv h (st, sc)" "get_proc st sc = Some (p, sc')"
  shows "pool_inv (h + one p) (st, sc')"
proof (cases "p = 0")
  case True
  have ok: "sched_ok st sc" "st 0 = None" using assms(1) by (simp_all add: pool_inv_def ss_ok_def)
  from ok(1) have "sc' = sc"
    by (cases rule: get_proc_cases) (use assms(2) True ok(2) in auto)
  then show ?thesis using assms(1) True by simp
next
  case False
  then have f: "ss_fetch (st, sc) = Some (p, st, sc')" using assms(2) by (simp add: ss_fetch_def)
  have inv: "ss_ok (st, sc)" "sched_pool.exclusive h (st, sc)" "\<forall>q \<in># h. st q \<noteq> None"
    using assms(1) by (simp_all add: pool_inv_def)
  have "st p \<noteq> None"
    using sched_pool.fetch_Some [OF inv(1) f] ready_live [of st sc p] inv(1) by (simp add: ss_ok_def)
  then show ?thesis
    using sched_pool.exclusive_fetch [OF inv(1) f inv(2)] sched_pool.fetch_Some [OF inv(1) f] inv(3) False
    by (auto simp: pool_inv_def)
qed

lemma put_proc_defined:
  assumes "put_proc st sc p = Some (st', sc')" "sched_ok st sc"
  shows "ss_fits p (st, sc) \<and> (\<exists>x. st p = Some x \<and> st' = st(p \<mapsto> link_queues x))"
proof -
  from assms(1) obtain x rl where x: "st p = Some x" "st' = st(p \<mapsto> link_queues x)"
    "put_mlq_proc st' (sc\<lparr>s_running := rl\<rparr>) p = Some sc'"
    by (auto simp: put_proc_def bind_eq_Some_conv Let_def)
  then have "uint (prio x) < int (length (s_mlq sc))"
    by (auto simp: put_mlq_proc_def bind_eq_Some_conv arr_simps link_queues_def)
  with x(1,2) assms(2) show ?thesis by (simp add: ss_fits_def sched_ok_def mlq_ok_def)
qed

lemma pool_put:
  assumes "pool_inv (add_mset p h) (st, sc)" "put_proc st sc p = Some (st', sc')"
  shows "pool_inv h (st', sc')"
proof -
  have inv: "ss_ok (st, sc)" "sched_pool.exclusive (add_mset p h) (st, sc)" "\<forall>q \<in># h. st q \<noteq> None"
    using assms(1) by (simp_all add: pool_inv_def)
  then have d: "ss_fits p (st, sc)" "dom st \<subseteq> dom st'"
    using put_proc_defined [OF assms(2)] by (auto simp: ss_ok_def)
  have "ss_put p (st, sc) = (st', sc')" using assms(2) by (simp add: ss_put_def)
  with sched_pool.put [OF inv(1) d(1)] sched_pool.exclusive_put [OF inv(1) d(1) inv(2)] inv(3) d(2)
  show ?thesis by (auto simp: pool_inv_def)
qed

lemma pool_free:
  assumes "pool_inv (add_mset p h) (st, sc)"
  shows "pool_inv h (st(p := None), sc)"
proof -
  have inv: "ss_ok (st, sc)" "sched_pool.exclusive (add_mset p h) (st, sc)" "\<forall>q \<in># h. st q \<noteq> None"
    using assms by (simp_all add: pool_inv_def)
  have no: "p \<notin># ready_procs sc" "p \<notin># h" using sched_pool.exclusive_not_ready [OF inv(2)] by simp_all
  have "live_queue (st(p := None)) q" if "q \<in> set (s_mlq sc)" for q
  proof -
    have "p \<notin> set (q_elems q)" using no(1) that by (auto simp: ready_procs_def)
    moreover have "live_queue st q" using inv(1) that by (simp add: ss_ok_def sched_ok_def mlq_ok_def)
    ultimately show ?thesis by (auto simp: live_queue_def)
  qed
  then have "ss_ok (st(p := None), sc)" using inv(1) by (simp add: ss_ok_def sched_ok_def mlq_ok_def)
  moreover have "sched_pool.exclusive h (st(p := None), sc)"
    using sched_pool.exclusive_drop [OF inv(2)] by (simp add: sched_pool.exclusive_def)
  ultimately show ?thesis using inv(3) no(2) by (auto simp: pool_inv_def)
qed

lemma pool_dom:
  assumes "pool_inv h (st, sc)" "dom st \<subseteq> dom st'" "st' 0 = None"
  shows "pool_inv h (st', sc)"
proof -
  have "sched_ok st' sc" using assms(1) sched_ok_dom [OF _ assms(2)] by (simp add: pool_inv_def ss_ok_def)
  moreover have "st' p \<noteq> None" if "p \<in># h" for p
  proof -
    have "p \<in> dom st" using assms(1) that by (auto simp: pool_inv_def)
    then show ?thesis using assms(2) by auto
  qed
  ultimately show ?thesis using assms(1,3) by (simp add: pool_inv_def ss_ok_def sched_pool.exclusive_def)
qed

lemma pool_run:
  assumes "pool_inv h (k_pcbs k, k_sched k)" "run k p = Some (r, k')"
  shows "pool_inv h (k_pcbs k', k_sched k') \<and> k_pcbs k p \<noteq> None"
proof -
  from assms(2) obtain x where x: "k_pcbs k p = Some x" by (auto simp: run_def bind_eq_Some_conv)
  have ok: "sched_ok (k_pcbs k) (k_sched k)" "k_pcbs k 0 = None" using assms(1) by (simp_all add: pool_inv_def ss_ok_def)
  have "k_pcbs k = (k_pcbs k)(p \<mapsto> x)" using x by auto
  then have "\<exists>y. k_pcbs k' = (k_pcbs k)(p \<mapsto> y)"
    using run_cases [OF assms(2) x] by metis
  then obtain y where y: "k_pcbs k' = (k_pcbs k)(p \<mapsto> y)" ..
  have "p \<noteq> 0" by (rule notI) (use x ok(2) in simp)
  with y ok(2) have "k_pcbs k' 0 = None" "dom (k_pcbs k) \<subseteq> dom (k_pcbs k')" by auto
  then have "pool_inv h (k_pcbs k', k_sched k)" using pool_dom [OF assms(1)] by blast
  moreover note run_ready [OF assms(2) ok(1)]
  ultimately show ?thesis
    using x exclusive_mono [of h "(k_pcbs k', k_sched k)" "(k_pcbs k', k_sched k')"]
    by (simp add: pool_inv_def ss_ok_def)
qed

lemma pool_new:
  assumes "pool_inv h (st, sc)" "st p = None" "p \<noteq> 0"
  shows "pool_inv (add_mset p h) (st(p \<mapsto> x), sc)"
proof -
  have "pool_inv h (st(p \<mapsto> x), sc)" using pool_dom [OF assms(1), of "st(p \<mapsto> x)"] assms
    by (auto simp: pool_inv_def ss_ok_def)
  moreover have no: "p \<notin># h" "p \<notin># ready_procs sc"
    using assms(1,2) ready_live [of st sc p] by (auto simp: pool_inv_def ss_ok_def)
  have "sched_pool.exclusive (add_mset p h) (st(p \<mapsto> x), sc)"
    unfolding sched_pool.exclusive_def
  proof
    fix q
    have "count (h + ready_procs sc) q \<le> 1"
      using assms(1) by (simp add: pool_inv_def sched_pool.exclusive_def)
    then show "count (add_mset p h + ready_procs (snd (st(p \<mapsto> x), sc))) q \<le> 1"
      using no by (cases "q = p") (simp_all add: not_in_iff)
  qed
  ultimately show ?thesis by (auto simp: pool_inv_def)
qed

subsection \<open>The threads\<close>

definition held :: "os \<Rightarrow> pcb_ptr multiset" where
  "held s = \<Sum>\<^sub># (image_mset (\<lambda>c. one (c_proc c)) (mset (o_cpus s))) + one (l_proc (o_ld s))"

lemma held_split:
  assumes "i < length (o_cpus s)"
  obtains h where "held s = h + one (c_proc (o_cpus s ! i))"
    "\<And>k t c. held (set_cpu (s\<lparr>o_kernel := k, o_time := t\<rparr>) i c) = h + one (c_proc c)"
proof -
  let ?rest = "\<Sum>\<^sub># (image_mset (\<lambda>c. one (c_proc c)) (mset (o_cpus s) - {#o_cpus s ! i#})) + one (l_proc (o_ld s))"
  have "mset (o_cpus s) = add_mset (o_cpus s ! i) (mset (o_cpus s) - {#o_cpus s ! i#})"
    using assms by simp
  then have "held s = ?rest + one (c_proc (o_cpus s ! i))"
    unfolding held_def by (metis (no_types, lifting) add.assoc add.commute image_mset_add_mset sum_mset.add_mset)
  moreover have "held (set_cpu (s\<lparr>o_kernel := k, o_time := t\<rparr>) i c) = ?rest + one (c_proc c)" for k t c
    using assms by (simp add: held_def set_cpu_def mset_update ac_simps)
  ultimately show thesis by (rule that)
qed

text \<open>Where a thread is says what its device is doing.\<close>

definition cpu_act :: "cpu_loc \<Rightarrow> activity" where
  "cpu_act l = (case l of C_wait \<Rightarrow> Waiting | C_stopped \<Rightarrow> Detached | _ \<Rightarrow> Working)"

definition ld_act :: "ld_loc \<Rightarrow> activity" where
  "ld_act l = (case l of L_sleep \<Rightarrow> Waiting | L_next_sleep \<Rightarrow> Waiting | L_stopped \<Rightarrow> Detached | _ \<Rightarrow> Working)"

definition cpu_ok :: "os_config \<Rightarrow> cpu \<Rightarrow> bool" where
  "cpu_ok cfg c \<longleftrightarrow> 0 \<le> c_left c \<and> c_left c \<le> time_slot cfg \<and>
    (c_loc c = C_run \<longrightarrow> 0 < c_left c \<and> c_proc c \<noteq> 0) \<and> (c_loc c = C_get \<longrightarrow> c_proc c = 0 \<and> c_left c = 0) \<and>
    (c_loc c = C_detach \<or> c_loc c = C_stopped \<longrightarrow> c_proc c = 0)"

definition ld_ok :: "loader \<Rightarrow> bool" where
  "ld_ok l \<longleftrightarrow> (l_proc l \<noteq> 0 \<longleftrightarrow> l_loc l = L_wait \<or> l_loc l = L_sleep \<or> l_loc l = L_add)"

definition acts_ok :: "os \<Rightarrow> bool" where
  "acts_ok s \<longleftrightarrow> (\<forall>i < length (o_cpus s). p_act (o_time s) i = cpu_act (c_loc (o_cpus s ! i))) \<and>
    p_act (o_time s) (length (o_cpus s)) = ld_act (l_loc (o_ld s))"

definition os_inv :: "os_config \<Rightarrow> os \<Rightarrow> bool" where
  "os_inv cfg s \<longleftrightarrow> pool_inv (held s) (k_pcbs (o_kernel s), k_sched (o_kernel s)) \<and> acts_ok s \<and>
    ld_ok (o_ld s) \<and> (\<forall>c \<in> set (o_cpus s). cpu_ok cfg c) \<and>
    (\<exists>slot. protocol_ok (o_time s) slot) \<and>
    dev_list (p_timer (o_time s)) = rev [0..<Suc (length (o_cpus s))]"

subsection \<open>Every step keeps the invariant\<close>

text \<open>The moves of a device are steps of the timer protocol.\<close>

definition dev_moves :: "protocol \<Rightarrow> nat \<Rightarrow> activity \<Rightarrow> protocol \<Rightarrow> bool" where
  "dev_moves p i a q \<longleftrightarrow> (p = q \<or> tick p q) \<and> p_act q = (p_act p)(i := a)"

lemma dev_moves_stay: "p_act p i = a \<Longrightarrow> dev_moves p i a p"
  by (auto simp: dev_moves_def)

lemma dev_enter_moves: "p_act p i = Working \<Longrightarrow> dev_enter i p = Some q \<Longrightarrow> dev_moves p i Waiting q"
  by (auto simp: dev_moves_def dev_enter_def bind_eq_Some_conv intro: tick.enter)

lemma dev_leave_moves:
  "p_act p i = Waiting \<Longrightarrow> next_slot_returns (p_timer p) i = Some True \<Longrightarrow> dev_moves p i Working (dev_leave i p)"
  by (auto simp: dev_moves_def dev_leave_def intro: tick.leave)

lemma dev_detach_moves: "p_act p i = Working \<Longrightarrow> dev_detach i p = Some q \<Longrightarrow> dev_moves p i Detached q"
  by (auto simp: dev_moves_def dev_detach_def bind_eq_Some_conv intro: tick.detach)

lemma dev_moves_ok:
  assumes "dev_moves p i a q" "protocol_ok p n"
  shows "(\<exists>m. protocol_ok q m) \<and> dev_list (p_timer q) = dev_list (p_timer p) \<and> p_act q = (p_act p)(i := a)"
  using assms tick_ok tick_dev_list unfolding dev_moves_def by blast

lemma set_cpu_inv:
  assumes inv: "os_inv cfg s" and i: "i < length (o_cpus s)"
    and pool: "\<And>h. pool_inv (h + one (c_proc (o_cpus s ! i))) (k_pcbs (o_kernel s), k_sched (o_kernel s)) \<Longrightarrow>
      pool_inv (h + one (c_proc c)) (k_pcbs k, k_sched k)"
    and c: "cpu_ok cfg c" and t: "dev_moves (o_time s) i (cpu_act (c_loc c)) t"
  shows "os_inv cfg (set_cpu (s\<lparr>o_kernel := k, o_time := t\<rparr>) i c)"
proof -
  let ?s = "set_cpu (s\<lparr>o_kernel := k, o_time := t\<rparr>) i c"
  obtain h where h: "held s = h + one (c_proc (o_cpus s ! i))" "held ?s = h + one (c_proc c)"
    using held_split [OF i] by metis
  have "pool_inv (held ?s) (k_pcbs (o_kernel ?s), k_sched (o_kernel ?s))"
    using pool [of h] inv h by (simp add: os_inv_def set_cpu_def)
  moreover obtain slot where "protocol_ok (o_time s) slot" using inv by (auto simp: os_inv_def)
  note p = dev_moves_ok [OF t this]
  moreover have "acts_ok ?s"
    using inv p i by (auto simp: os_inv_def acts_ok_def set_cpu_def nth_list_update)
  moreover have "\<forall>c' \<in> set (o_cpus ?s). cpu_ok cfg c'"
    using inv c by (auto simp: os_inv_def set_cpu_def dest: set_update_subset_insert [THEN subsetD])
  ultimately show ?thesis using inv by (simp add: os_inv_def set_cpu_def)
qed

text \<open>A step that leaves the device alone, one that changes the CPU's variables only, and a device move.\<close>

lemma cpu_act_ok: "os_inv cfg s \<Longrightarrow> i < length (o_cpus s) \<Longrightarrow> p_act (o_time s) i = cpu_act (c_loc (o_cpus s ! i))"
  by (simp add: os_inv_def acts_ok_def)

lemma cpu_kernel_inv:
  assumes "os_inv cfg s" "i < length (o_cpus s)" "cpu_ok cfg c" "cpu_act (c_loc c) = cpu_act (c_loc (o_cpus s ! i))"
    and "\<And>h. pool_inv (h + one (c_proc (o_cpus s ! i))) (k_pcbs (o_kernel s), k_sched (o_kernel s)) \<Longrightarrow>
      pool_inv (h + one (c_proc c)) (k_pcbs k, k_sched k)"
  shows "os_inv cfg (set_cpu (s\<lparr>o_kernel := k\<rparr>) i c)"
proof -
  have "s\<lparr>o_kernel := k\<rparr> = s\<lparr>o_kernel := k, o_time := o_time s\<rparr>" by simp
  then show ?thesis
    using set_cpu_inv [OF assms(1,2,5,3), where t = "o_time s"] dev_moves_stay cpu_act_ok [OF assms(1,2)] assms(4) by simp
qed

lemma cpu_local_inv:
  assumes "os_inv cfg s" "i < length (o_cpus s)" "cpu_ok cfg c" "cpu_act (c_loc c) = cpu_act (c_loc (o_cpus s ! i))"
    and "c_proc c = c_proc (o_cpus s ! i)"
  shows "os_inv cfg (set_cpu s i c)"
proof -
  have "s\<lparr>o_kernel := o_kernel s\<rparr> = s" by simp
  then show ?thesis using cpu_kernel_inv [OF assms(1-4), where k = "o_kernel s"] assms(5) by simp
qed

lemma cpu_dev_inv:
  assumes "os_inv cfg s" "i < length (o_cpus s)" "cpu_ok cfg ((o_cpus s ! i)\<lparr>c_loc := l\<rparr>)"
    and "dev_moves (o_time s) i (cpu_act l) t"
  shows "os_inv cfg (set_cpu (s\<lparr>o_time := t\<rparr>) i ((o_cpus s ! i)\<lparr>c_loc := l\<rparr>))"
proof -
  have "s\<lparr>o_time := t\<rparr> = s\<lparr>o_kernel := o_kernel s, o_time := t\<rparr>" by simp
  then show ?thesis
    using set_cpu_inv [OF assms(1,2) _ assms(3), where k = "o_kernel s" and t = t] assms(4) by simp
qed

lemmas cpu_facts = cpu_ok_def cpu_act_def

text \<open>The top of the loop: get a process, or decide what to do with the one at hand.\<close>

lemma cpu_top_cases:
  assumes "cpu_step cfg i s = Some s'" "c_loc (o_cpus s ! i) = C_top"
  obtains (idle) p sc where "c_proc (o_cpus s ! i) = 0"
      "get_proc (k_pcbs (o_kernel s)) (k_sched (o_kernel s)) = Some (p, sc)"
      "s' = set_cpu (s\<lparr>o_kernel := (o_kernel s)\<lparr>k_sched := sc\<rparr>\<rparr>) i
        ((o_cpus s ! i)\<lparr>c_proc := p, c_loc := if p = 0 then C_slot else C_check\<rparr>)"
  | (free) "c_proc (o_cpus s ! i) \<noteq> 0"
      "s' = set_cpu (s\<lparr>o_kernel := (o_kernel s)\<lparr>k_pcbs := (k_pcbs (o_kernel s))(c_proc (o_cpus s ! i) := None)\<rparr>\<rparr>) i
        ((o_cpus s ! i)\<lparr>c_proc := 0, c_left := 0, c_loc := C_get\<rparr>)"
  | (put) st sc where "c_proc (o_cpus s ! i) \<noteq> 0" "c_left (o_cpus s ! i) = 0"
      "put_proc (k_pcbs (o_kernel s)) (k_sched (o_kernel s)) (c_proc (o_cpus s ! i)) = Some (st, sc)"
      "s' = set_cpu (s\<lparr>o_kernel := (o_kernel s)\<lparr>k_pcbs := st, k_sched := sc\<rparr>\<rparr>) i ((o_cpus s ! i)\<lparr>c_proc := 0, c_loc := C_get\<rparr>)"
  | (go) "c_proc (o_cpus s ! i) \<noteq> 0" "s' = set_cpu s i ((o_cpus s ! i)\<lparr>c_loc := C_check\<rparr>)"
proof (cases "c_proc (o_cpus s ! i) = 0")
  case True
  then show thesis using assms idle by (auto simp: cpu_step_def Let_def bind_eq_Some_conv)
next
  case False
  then show thesis
    using assms free put go by (auto simp: cpu_step_def Let_def bind_eq_Some_conv split: if_splits)
qed

lemma cpu_top_inv:
  assumes inv: "os_inv cfg s" and i: "i < length (o_cpus s)" and step: "cpu_step cfg i s = Some s'"
    and slot: "0 < time_slot cfg" and top: "c_loc (o_cpus s ! i) = C_top"
  shows "os_inv cfg s'"
proof -
  have ok: "cpu_ok cfg (o_cpus s ! i)" using inv i by (simp add: os_inv_def)
  from step top show ?thesis
  proof (cases rule: cpu_top_cases)
    case (idle p sc)
    then show ?thesis
      using pool_get [OF _ idle(2)] ok top by (auto simp: cpu_facts intro!: cpu_kernel_inv [OF inv i])
  next
    case free
    then show ?thesis
      using pool_free ok top slot by (auto simp: cpu_facts intro!: cpu_kernel_inv [OF inv i])
  next
    case (put st sc)
    then show ?thesis
      using pool_put [OF _ put(3)] ok top by (auto simp: cpu_facts intro!: cpu_kernel_inv [OF inv i])
  next
    case go
    then show ?thesis using ok top by (auto simp: cpu_facts intro!: cpu_local_inv [OF inv i])
  qed
qed

lemma cpu_step_inv:
  assumes inv: "os_inv cfg s" and i: "i < length (o_cpus s)" and step: "cpu_step cfg i s = Some s'"
    and slot: "0 < time_slot cfg"
  shows "os_inv cfg s'"
proof -
  let ?c = "o_cpus s ! i"
  have ok: "cpu_ok cfg ?c" using inv i by (simp add: os_inv_def)
  note act = cpu_act_ok [OF inv i]
  show ?thesis
  proof (cases "c_loc ?c")
    case C_top
    then show ?thesis using cpu_top_inv [OF inv i step slot] by blast
  next
    case C_get
    then show ?thesis
      using step ok by (auto simp: cpu_step_def Let_def bind_eq_Some_conv cpu_facts intro!: cpu_kernel_inv [OF inv i] dest: pool_get)
  next
    case C_check
    then show ?thesis
      using step ok slot by (auto simp: cpu_step_def Let_def cpu_facts split: if_splits intro!: cpu_local_inv [OF inv i])
  next
    case C_run
    then show ?thesis
      using step ok by (auto simp: cpu_step_def Let_def bind_eq_Some_conv c_int cpu_facts intro!: cpu_kernel_inv [OF inv i] dest: pool_run)
  next
    case C_slot
    then show ?thesis
      using step ok act by (auto simp: cpu_step_def Let_def bind_eq_Some_conv cpu_facts intro!: cpu_dev_inv [OF inv i] dev_enter_moves)
  next
    case C_wait
    then show ?thesis
      using step ok act inv
      by (auto simp: cpu_step_def Let_def bind_eq_Some_conv cpu_facts split: if_splits intro!: cpu_dev_inv [OF inv i] dev_leave_moves)
  next
    case C_detach
    then show ?thesis
      using step ok act by (auto simp: cpu_step_def Let_def bind_eq_Some_conv cpu_facts intro!: cpu_dev_inv [OF inv i] dev_detach_moves)
  next
    case C_stopped
    then show ?thesis using inv step by (simp add: cpu_step_def Let_def)
  qed
qed

lemma set_ld_inv:
  assumes inv: "os_inv cfg s"
    and pool: "\<And>h. pool_inv (h + one (l_proc (o_ld s))) (k_pcbs (o_kernel s), k_sched (o_kernel s)) \<Longrightarrow>
      pool_inv (h + one (l_proc l)) (k_pcbs k, k_sched k)"
    and l: "ld_ok l" and t: "dev_moves (o_time s) (length (o_cpus s)) (ld_act (l_loc l)) t"
    and s': "o_kernel s' = k" "o_time s' = t" "o_cpus s' = o_cpus s" "o_ld s' = l"
  shows "os_inv cfg s'"
proof -
  have "pool_inv (held s') (k_pcbs (o_kernel s'), k_sched (o_kernel s'))"
    using inv pool s' by (simp add: os_inv_def held_def)
  moreover obtain slot where "protocol_ok (o_time s) slot" using inv by (auto simp: os_inv_def)
  note p = dev_moves_ok [OF t this]
  moreover have "acts_ok s'" using inv p s' by (simp add: os_inv_def acts_ok_def)
  ultimately show ?thesis using inv l s' by (simp add: os_inv_def)
qed

lemma ld_load_cases:
  assumes "ld_step cfg files b n s = Some s'" "l_loc (o_ld s) = L_load"
  obtains (failed) "s' = s\<lparr>o_exit := True\<rparr>"
  | (loaded) pth x pid' pr where "arr_get (ld_prio cfg) (l_i (o_ld s)) = Some pr"
      "load files (lb_pcb b) (lb_pt b) (lb_code b) (lb_text b) (o_pid s) pth = Inr (x, pid')"
      "s' = s\<lparr>o_kernel := (o_kernel s)\<lparr>k_pcbs := (k_pcbs (o_kernel s))(lb_ptr b \<mapsto> x\<lparr>prio := ucast pr\<rparr>)\<rparr>, o_pid := pid',
        o_ld := (o_ld s)\<lparr>l_proc := lb_ptr b, l_loc := L_wait\<rparr>\<rparr>"
      "arr_get (ld_path cfg) (l_i (o_ld s)) = Some pth"
  | (finished) "s' = s\<lparr>o_done := True, o_ld := (o_ld s)\<lparr>l_loc := L_detach\<rparr>\<rparr>"
proof (cases "l_i (o_ld s) < num_processes cfg")
  case True
  with assms obtain pth where ld: "arr_get (ld_path cfg) (l_i (o_ld s)) = Some pth"
    by (auto simp: ld_step_def Let_def bind_eq_Some_conv)
  show thesis
  proof (cases "load files (lb_pcb b) (lb_pt b) (lb_code b) (lb_text b) (o_pid s) pth")
    case (Inl e)
    then show thesis using failed assms True ld by (cases e) (simp_all add: ld_step_def Let_def)
  next
    case (Inr y)
    then show thesis
      using loaded assms True ld by (cases y) (auto simp: ld_step_def Let_def bind_eq_Some_conv)
  qed
next
  case False
  then show thesis using finished assms by (simp add: ld_step_def Let_def)
qed

text \<open>The same for the loader, whose device is the last one.\<close>

lemma ld_act_ok: "os_inv cfg s \<Longrightarrow> p_act (o_time s) (length (o_cpus s)) = ld_act (l_loc (o_ld s))"
  by (simp add: os_inv_def acts_ok_def)

lemma ld_dev_inv:
  assumes "os_inv cfg s" "ld_ok ((o_ld s)\<lparr>l_loc := l\<rparr>)" "dev_moves (o_time s) (length (o_cpus s)) (ld_act l) t"
  shows "os_inv cfg (s\<lparr>o_time := t, o_ld := (o_ld s)\<lparr>l_loc := l\<rparr>\<rparr>)"
  by (rule set_ld_inv [OF assms(1), where l = "(o_ld s)\<lparr>l_loc := l\<rparr>" and k = "o_kernel s" and t = t])
    (use assms(2,3) in simp_all)

lemma ld_local_inv:
  assumes "os_inv cfg s" "ld_ok ((o_ld s)\<lparr>l_loc := l\<rparr>)" "ld_act l = ld_act (l_loc (o_ld s))"
  shows "os_inv cfg (s\<lparr>o_ld := (o_ld s)\<lparr>l_loc := l\<rparr>\<rparr>)"
  by (rule set_ld_inv [OF assms(1), where l = "(o_ld s)\<lparr>l_loc := l\<rparr>" and k = "o_kernel s" and t = "o_time s"])
    (use assms(2,3) dev_moves_stay [OF ld_act_ok [OF assms(1)]] in simp_all)

lemmas ld_facts = ld_ok_def ld_act_def

lemma ld_load_inv:
  assumes inv: "os_inv cfg s" and fresh: "k_pcbs (o_kernel s) (lb_ptr b) = None" "lb_ptr b \<noteq> 0"
    and step: "ld_step cfg files b n s = Some s'" and l: "l_loc (o_ld s) = L_load"
  shows "os_inv cfg s'"
proof -
  have ok: "ld_ok (o_ld s)" using inv by (simp add: os_inv_def)
  note stay = dev_moves_stay [OF ld_act_ok [OF inv]]
  from step l show ?thesis
  proof (cases rule: ld_load_cases)
    case failed
    then show ?thesis
      by (intro set_ld_inv [OF inv, where l = "o_ld s" and k = "o_kernel s" and t = "o_time s"]) (use ok stay in auto)
  next
    case (loaded pth x pid' pr)
    then show ?thesis
      by (intro set_ld_inv [OF inv, where l = "(o_ld s)\<lparr>l_proc := lb_ptr b, l_loc := L_wait\<rparr>"])
        (use ok stay l fresh pool_new in \<open>auto simp: ld_facts\<close>)
  next
    case finished
    then show ?thesis
      by (intro set_ld_inv [OF inv, where l = "(o_ld s)\<lparr>l_loc := L_detach\<rparr>" and k = "o_kernel s" and t = "o_time s"])
        (use ok stay l in \<open>auto simp: ld_facts\<close>)
  qed
qed

lemma ld_add_inv:
  assumes inv: "os_inv cfg s" and step: "ld_step cfg files b n s = Some s'" and l: "l_loc (o_ld s) = L_add"
  shows "os_inv cfg s'"
proof -
  let ?l = "o_ld s" and ?k = "o_kernel s"
  from step l obtain x m st sc i' where a: "k_pcbs ?k (l_proc ?l) = Some x"
    "add_proc ((k_pcbs ?k)(l_proc ?l \<mapsto> x\<lparr>mm := Some m\<rparr>)) (k_sched ?k) (l_proc ?l) = Some (st, sc)"
    "s' = s\<lparr>o_kernel := ?k\<lparr>k_pcbs := st, k_sched := sc\<rparr>, o_ld := \<lparr>l_loc = L_next, l_i = i', l_proc = 0\<rparr>\<rparr>"
    by (auto simp: ld_step_def Let_def bind_eq_Some_conv)
  have nz: "l_proc ?l \<noteq> 0" using inv l by (simp add: os_inv_def ld_ok_def)
  have "pool_inv (h + one 0) (st, sc)" if "pool_inv (h + one (l_proc ?l)) (k_pcbs ?k, k_sched ?k)" for h
  proof -
    have "pool_inv (h + one (l_proc ?l)) ((k_pcbs ?k)(l_proc ?l \<mapsto> x\<lparr>mm := Some m\<rparr>), k_sched ?k)"
      by (rule pool_dom [OF that]) (use that nz in \<open>auto simp: pool_inv_def ss_ok_def\<close>)
    then show ?thesis using pool_put a(2) nz by (simp add: add_proc_eq_put_proc)
  qed
  then show ?thesis
    using a(3) l dev_moves_stay [OF ld_act_ok [OF inv]]
    by (intro set_ld_inv [OF inv, where l = "\<lparr>l_loc = L_next, l_i = i', l_proc = 0\<rparr>" and t = "o_time s"])
      (auto simp: ld_facts)
qed

lemma ld_step_inv:
  assumes inv: "os_inv cfg s" and fresh: "k_pcbs (o_kernel s) (lb_ptr b) = None" "lb_ptr b \<noteq> 0"
    and step: "ld_step cfg files b (length (o_cpus s)) s = Some s'"
  shows "os_inv cfg s'"
proof -
  have ok: "ld_ok (o_ld s)" using inv by (simp add: os_inv_def)
  note act = ld_act_ok [OF inv]
  show ?thesis
  proof (cases "l_loc (o_ld s)")
    case L_load
    then show ?thesis using ld_load_inv [OF inv fresh step] by blast
  next
    case L_add
    then show ?thesis using ld_add_inv [OF inv step] by blast
  next
    case L_wait
    then show ?thesis
      using step ok act by (auto simp: ld_step_def Let_def bind_eq_Some_conv ld_facts split: if_splits
        intro!: ld_dev_inv [OF inv] ld_local_inv [OF inv] dev_enter_moves)
  next
    case L_next
    then show ?thesis
      using step ok act by (auto simp: ld_step_def Let_def bind_eq_Some_conv ld_facts intro!: ld_dev_inv [OF inv] dev_enter_moves)
  next
    case L_detach
    then show ?thesis
      using step ok act by (auto simp: ld_step_def Let_def bind_eq_Some_conv ld_facts intro!: ld_dev_inv [OF inv] dev_detach_moves)
  next
    case L_stopped
    then show ?thesis using inv step by (simp add: ld_step_def Let_def)
  qed (use step ok act inv in \<open>auto simp: ld_step_def Let_def bind_eq_Some_conv ld_facts split: if_splits
      intro!: ld_dev_inv [OF inv] dev_leave_moves\<close>)
qed

lemma os_step_inv:
  assumes "os_step cfg files heap s s'" "os_inv cfg s" "0 < time_slot cfg"
  shows "os_inv cfg s'"
  using assms(1)
proof cases
  case (timer t)
  from assms(2) obtain slot where ok: "protocol_ok (o_time s) slot" by (auto simp: os_inv_def)
  from timer_step_ok [OF ok timer(3)] have "\<exists>m. protocol_ok ((o_time s)\<lparr>p_timer := t\<rparr>) m" by blast
  moreover have "dev_list t = dev_list (p_timer (o_time s))"
    using tick_dev_list [OF tick.timer [OF timer(3)]] by simp
  ultimately show ?thesis
    using assms(2) timer(1) by (simp add: os_inv_def acts_ok_def held_def)
next
  case (cpu i)
  then show ?thesis using cpu_step_inv assms(2,3) by blast
next
  case (loader b)
  moreover have "lb_ptr b \<noteq> 0" using loader(3) by (simp add: blocks_ok_def)
  ultimately show ?thesis using ld_step_inv assms(2) by blast
next
  case stop
  from assms(2) obtain slot where ok: "protocol_ok (o_time s) slot" by (auto simp: os_inv_def)
  have "\<forall>i \<in> set (dev_list (p_timer (o_time s))). p_act (o_time s) i = Detached"
    using assms(2) stop(3,4) by (auto simp: os_inv_def acts_ok_def cpu_act_def ld_act_def less_Suc_eq)
  from stop_ok [OF ok this] assms(2) stop(1) show ?thesis
    by (auto simp: os_inv_def acts_ok_def held_def stop_request_def)
qed

lemma os_steps_inv:
  "os_steps cfg files heap s s' \<Longrightarrow> os_inv cfg s \<Longrightarrow> 0 < time_slot cfg \<Longrightarrow> os_inv cfg s'"
  by (induction rule: os_steps.induct) (auto intro: os_step_inv)

text \<open>The state \<open>main\<close> starts from. \<open>sched0\<close> is what the static variables hold: arrays of the right size.\<close>

definition static_sched :: "sched \<Rightarrow> bool" where
  "static_sched sc \<longleftrightarrow> length (s_mlq sc) = 140 \<and> (\<forall>q \<in> set (s_mlq sc). length (q_proc q) = 10) \<and>
    length (s_slot sc) = 140 \<and> length (q_proc (s_running sc)) = 10"

lemma os_start_inv:
  assumes "os_start cfg ram0 swp0 sched0 = Some s" "static_sched sched0" "0 < time_slot cfg"
  shows "os_inv cfg s \<and> ready_procs (k_sched (o_kernel s)) = {#} \<and>
    o_cpus s = replicate (nat (num_cpus cfg)) \<lparr>c_loc = C_top, c_proc = 0, c_left = 0\<rparr> \<and>
    o_ld s = \<lparr>l_loc = L_load, l_i = 0, l_proc = 0\<rparr> \<and> k_pcbs (o_kernel s) = (\<lambda>_. None) \<and> \<not> o_exit s \<and> \<not> o_done s"
proof -
  let ?n = "nat (num_cpus cfg)"
  from assms(1) obtain ram swp sc where sc: "init_scheduler sched0 = Some sc"
    and s: "s = \<lparr>o_kernel = \<lparr>k_pcbs = (\<lambda>_. None), k_sched = sc, k_devs = \<lparr>mram = Some ram, active_mswp = Some swp\<rparr>\<rparr>,
       o_time = started (Suc ?n), o_cpus = replicate ?n \<lparr>c_loc = C_top, c_proc = 0, c_left = 0\<rparr>,
       o_ld = \<lparr>l_loc = L_load, l_i = 0, l_proc = 0\<rparr>, o_pid = 1, o_done = False, o_exit = False\<rparr>"
    by (auto simp: os_start_def bind_eq_Some_conv Let_def)
  from init_scheduler_spec [of sched0 "\<lambda>_. None"] assms(2) sc have ok: "sched_ok (\<lambda>_. None) sc" "\<forall>l < 140. level sc l = []"
    by (auto simp: static_sched_def)
  then have r: "ready_procs sc = {#}" by (simp add: ready_empty_iff sched_ok_def mlq_ok_def)
  have "held s = {#}" by (simp add: held_def s)
  then have "pool_inv (held s) (k_pcbs (o_kernel s), k_sched (o_kernel s))"
    using ok r by (simp add: pool_inv_def ss_ok_def sched_pool.exclusive_def s)
  moreover have "acts_ok s" using started_eq [of "Suc ?n"] by (auto simp: acts_ok_def cpu_act_def ld_act_def s)
  moreover have "dev_list (p_timer (o_time s)) = rev [0..<Suc (length (o_cpus s))]"
    using started_eq [of "Suc ?n"] by (auto simp: s)
  ultimately have "os_inv cfg s"
    using protocol_started [of "Suc ?n"] assms(3) by (auto simp: os_inv_def s ld_ok_def cpu_ok_def)
  then show ?thesis using r by (simp add: s)
qed

subsection \<open>What holds in every reachable state\<close>

text \<open>A process on a CPU is live, in no other hands and not ready.\<close>

lemma cpu_holds:
  assumes inv: "os_inv cfg s" and i: "i < length (o_cpus s)" and "c_proc (o_cpus s ! i) \<noteq> 0"
  shows "(\<exists>x. k_pcbs (o_kernel s) (c_proc (o_cpus s ! i)) = Some x) \<and>
    (\<forall>j < length (o_cpus s). j \<noteq> i \<longrightarrow> c_proc (o_cpus s ! j) \<noteq> c_proc (o_cpus s ! i)) \<and>
    c_proc (o_cpus s ! i) \<notin># ready_procs (k_sched (o_kernel s)) \<and> c_proc (o_cpus s ! i) \<noteq> l_proc (o_ld s)"
proof -
  let ?p = "c_proc (o_cpus s ! i)"
  obtain h where h: "held s = h + one ?p" "\<And>k t c. held (set_cpu (s\<lparr>o_kernel := k, o_time := t\<rparr>) i c) = h + one (c_proc c)"
    using held_split [OF i] by metis
  have pool: "pool_inv (add_mset ?p h) (k_pcbs (o_kernel s), k_sched (o_kernel s))"
    using inv h(1) assms(3) by (simp add: os_inv_def)
  then have no: "?p \<notin># ready_procs (k_sched (o_kernel s))" "?p \<notin># h" "k_pcbs (o_kernel s) ?p \<noteq> None"
    using sched_pool.exclusive_not_ready by (fastforce simp: pool_inv_def)+
  have "held (set_cpu (s\<lparr>o_kernel := o_kernel s, o_time := o_time s\<rparr>) i ((o_cpus s ! i)\<lparr>c_proc := 0\<rparr>)) = h"
    using h(2) [where k = "o_kernel s" and t = "o_time s" and c = "(o_cpus s ! i)\<lparr>c_proc := 0\<rparr>"] by simp
  then have hs: "h = \<Sum>\<^sub># (image_mset (\<lambda>c. one (c_proc c)) (mset ((o_cpus s)[i := (o_cpus s ! i)\<lparr>c_proc := 0\<rparr>]))) + one (l_proc (o_ld s))"
    by (simp add: held_def set_cpu_def)
  have "c_proc (o_cpus s ! j) \<noteq> ?p" if "j < length (o_cpus s)" "j \<noteq> i" for j
  proof
    assume eq: "c_proc (o_cpus s ! j) = ?p"
    have "o_cpus s ! j \<in> set ((o_cpus s)[i := (o_cpus s ! i)\<lparr>c_proc := 0\<rparr>])"
      using that by (metis length_list_update nth_list_update_neq nth_mem)
    then have "?p \<in># h" using eq assms(3) by (auto simp: hs intro!: bexI [of _ "o_cpus s ! j"])
    with no(2) show False ..
  qed
  moreover have "?p \<noteq> l_proc (o_ld s)" using no(2) assms(3) by (auto simp: hs)
  ultimately show ?thesis using no by blast
qed
text \<open>
  C9. A process is in one place only: in every state the simulator reaches, a process that a CPU has
  dispatched is live, no other CPU holds it, it is in no ready queue, and the loader is not working on it.
\<close>

theorem os_exclusive:
  assumes "os_start cfg ram0 swp0 sched0 = Some s0" "static_sched sched0" "0 < time_slot cfg"
    and "os_steps cfg files heap s0 s" "i < length (o_cpus s)" "c_proc (o_cpus s ! i) \<noteq> 0"
  shows "k_pcbs (o_kernel s) (c_proc (o_cpus s ! i)) \<noteq> None \<and>
    (\<forall>j < length (o_cpus s). j \<noteq> i \<longrightarrow> c_proc (o_cpus s ! j) \<noteq> c_proc (o_cpus s ! i)) \<and>
    c_proc (o_cpus s ! i) \<notin># ready_procs (k_sched (o_kernel s)) \<and> l_proc (o_ld s) \<noteq> c_proc (o_cpus s ! i)"
proof -
  have "os_inv cfg s" using os_steps_inv [OF assms(4)] os_start_inv [OF assms(1-3)] assms(3) by blast
  from cpu_holds [OF this assms(5,6)] show ?thesis by auto
qed

text \<open>
  C10. Time in the simulator: all CPUs that are not waiting for the next slot are in the same slot, the
  one the clock shows, and no CPU's remaining slice leaves the range from 0 to \<open>time_slot\<close>; a CPU runs a
  process only while its slice is not used up.
\<close>

theorem os_slots:
  assumes "os_start cfg ram0 swp0 sched0 = Some s0" "static_sched sched0" "0 < time_slot cfg"
    and "os_steps cfg files heap s0 s" "i < length (o_cpus s)" "j < length (o_cpus s)"
    and "c_loc (o_cpus s ! i) \<notin> {C_wait, C_stopped}" "c_loc (o_cpus s ! j) \<notin> {C_wait, C_stopped}"
  shows "p_calls (o_time s) i = p_calls (o_time s) j \<and>
    current_time (p_timer (o_time s)) = of_nat (p_calls (o_time s) i) \<and>
    0 \<le> c_left (o_cpus s ! i) \<and> c_left (o_cpus s ! i) \<le> time_slot cfg \<and>
    (c_loc (o_cpus s ! i) = C_run \<longrightarrow> 0 < c_left (o_cpus s ! i))"
proof -
  have inv: "os_inv cfg s" using os_steps_inv [OF assms(4)] os_start_inv [OF assms(1-3)] assms(3) by blast
  then obtain slot where ok: "protocol_ok (o_time s) slot" by (auto simp: os_inv_def)
  have ds: "i \<in> set (dev_list (p_timer (o_time s)))" "j \<in> set (dev_list (p_timer (o_time s)))"
    using inv assms(5,6) by (simp_all add: os_inv_def)
  have "p_act (o_time s) i = Working" "p_act (o_time s) j = Working"
    using inv assms(5-8) by (auto simp: os_inv_def acts_ok_def cpu_act_def split: cpu_loc.splits)
  then have "p_calls (o_time s) i = slot" "p_calls (o_time s) j = slot"
    using calls_bounds(2) [OF ok ds(1)] calls_bounds(2) [OF ok ds(2)] by auto
  moreover have "current_time (p_timer (o_time s)) = of_nat slot"
    using ok by (simp add: protocol_ok_def current_time_def)
  moreover have "cpu_ok cfg (o_cpus s ! i)" using inv assms(5) by (simp add: os_inv_def)
  ultimately show ?thesis by (simp add: cpu_ok_def)
qed

subsection \<open>A CPU that runs out of work\<close>

definition idle_loc :: "cpu_loc \<Rightarrow> bool" where
  "idle_loc l \<longleftrightarrow> l = C_top \<or> l = C_slot \<or> l = C_wait"

text \<open>No process is left anywhere, and none will be loaded.\<close>

definition no_work :: "os_config \<Rightarrow> os \<Rightarrow> bool" where
  "no_work cfg s \<longleftrightarrow> (\<forall>c \<in> set (o_cpus s). c_proc c = 0) \<and> ready_procs (k_sched (o_kernel s)) = {#} \<and>
    l_proc (o_ld s) = 0 \<and> num_processes cfg \<le> l_i (o_ld s)"

lemma get_proc_no_work:
  assumes "ss_ok (st, sc)" "ready_procs sc = {#}"
  shows "get_proc st sc = Some (0, sc)"
proof -
  have "sched_ok st sc" using assms(1) by (simp add: ss_ok_def)
  then show ?thesis by (cases rule: get_proc_cases) (use assms(2) in auto)
qed

definition idle_move :: "os \<Rightarrow> nat \<Rightarrow> os \<Rightarrow> bool" where
  "idle_move s j s' \<longleftrightarrow> (\<exists>c t. s' = set_cpu (s\<lparr>o_time := t\<rparr>) j c \<and> c_proc c = 0 \<and>
    (idle_loc (c_loc (o_cpus s ! j)) \<longrightarrow> idle_loc (c_loc c)))"

lemma idle_moveI:
  "c_proc c = 0 \<Longrightarrow> (idle_loc (c_loc (o_cpus s ! j)) \<Longrightarrow> idle_loc (c_loc c)) \<Longrightarrow>
    idle_move s j (set_cpu (s\<lparr>o_time := t\<rparr>) j c)"
  "c_proc c = 0 \<Longrightarrow> (idle_loc (c_loc (o_cpus s ! j)) \<Longrightarrow> idle_loc (c_loc c)) \<Longrightarrow> idle_move s j (set_cpu s j c)"
  "c_proc (o_cpus s ! j) = 0 \<Longrightarrow> idle_move s j s"
proof -
  show m: "c_proc c = 0 \<Longrightarrow> (idle_loc (c_loc (o_cpus s ! j)) \<Longrightarrow> idle_loc (c_loc c)) \<Longrightarrow>
    idle_move s j (set_cpu (s\<lparr>o_time := t\<rparr>) j c)" for c t
    unfolding idle_move_def by blast
  have t: "s\<lparr>o_time := o_time s\<rparr> = s" and c: "set_cpu s j (o_cpus s ! j) = s" by (simp_all add: set_cpu_def)
  show n: "c_proc c = 0 \<Longrightarrow> (idle_loc (c_loc (o_cpus s ! j)) \<Longrightarrow> idle_loc (c_loc c)) \<Longrightarrow> idle_move s j (set_cpu s j c)" for c
    using m [of c "o_time s"] by (simp only: t)
  show "c_proc (o_cpus s ! j) = 0 \<Longrightarrow> idle_move s j s" using n [of "o_cpus s ! j"] by (simp only: c)
qed

lemma no_work_cpu:
  assumes "os_inv cfg s" "no_work cfg s" "j < length (o_cpus s)" "cpu_step cfg j s = Some s'"
  shows "idle_move s j s'"
proof -
  let ?c = "o_cpus s ! j"
  have p: "c_proc ?c = 0" and c: "cpu_ok cfg ?c" using assms(1-3) by (simp_all add: no_work_def os_inv_def)
  have g: "get_proc (k_pcbs (o_kernel s)) (k_sched (o_kernel s)) = Some (0, k_sched (o_kernel s))"
    using assms(1,2) by (intro get_proc_no_work) (simp_all add: os_inv_def pool_inv_def no_work_def)
  show ?thesis
    using assms(4) p c g
    by (cases "c_loc ?c")
      (auto simp: cpu_step_def Let_def bind_eq_Some_conv idle_loc_def cpu_ok_def split: if_splits
        intro!: idle_moveI)
qed

definition idle_load :: "os \<Rightarrow> os \<Rightarrow> bool" where
  "idle_load s s' \<longleftrightarrow> (\<exists>t l d. s' = s\<lparr>o_time := t, o_ld := l, o_done := d\<rparr> \<and> l_proc l = 0 \<and> l_i l = l_i (o_ld s))"

lemma idle_loadI:
  assumes "l_proc l = 0" "l_i l = l_i (o_ld s)"
  shows "idle_load s (s\<lparr>o_time := t, o_ld := l\<rparr>)" "idle_load s (s\<lparr>o_done := d, o_ld := l\<rparr>)"
proof -
  show "idle_load s (s\<lparr>o_time := t, o_ld := l\<rparr>)"
    unfolding idle_load_def using assms by (intro exI [of _ t] exI [of _ l] exI [of _ "o_done s"]) simp
  show "idle_load s (s\<lparr>o_done := d, o_ld := l\<rparr>)"
    unfolding idle_load_def using assms by (intro exI [of _ "o_time s"] exI [of _ l] exI [of _ d]) simp
qed

lemma idle_load_stay: "l_proc (o_ld s) = 0 \<Longrightarrow> idle_load s s"
  unfolding idle_load_def by (intro exI [of _ "o_time s"] exI [of _ "o_ld s"] exI [of _ "o_done s"]) simp

lemma no_work_loader:
  assumes "os_inv cfg s" "no_work cfg s" "ld_step cfg files b n s = Some s'"
  shows "idle_load s s'"
proof -
  have l: "l_loc (o_ld s) \<notin> {L_wait, L_sleep, L_add}" "l_proc (o_ld s) = 0" "\<not> l_i (o_ld s) < num_processes cfg"
    using assms(1,2) by (auto simp: os_inv_def ld_ok_def no_work_def)
  then show ?thesis
    using assms(3)
    by (cases "l_loc (o_ld s)") (auto simp: ld_step_def Let_def bind_eq_Some_conv split: if_splits
      intro!: idle_loadI idle_load_stay)
qed

lemma no_work_step:
  assumes "os_step cfg files heap s s'" "os_inv cfg s" "no_work cfg s" "i < length (o_cpus s)" "idle_loc (c_loc (o_cpus s ! i))"
  shows "no_work cfg s' \<and> length (o_cpus s') = length (o_cpus s) \<and> idle_loc (c_loc (o_cpus s' ! i))"
  using assms(1)
proof cases
  case (timer t)
  then show ?thesis using assms(3,5) by (simp add: no_work_def)
next
  case (cpu j)
  from no_work_cpu [OF assms(2,3) cpu(2,3)] obtain c t where
    "s' = set_cpu (s\<lparr>o_time := t\<rparr>) j c" "c_proc c = 0" "idle_loc (c_loc (o_cpus s ! j)) \<longrightarrow> idle_loc (c_loc c)"
    unfolding idle_move_def by blast
  then show ?thesis
    using assms(3-5) cpu(2)
    by (auto simp: no_work_def set_cpu_def nth_list_update dest: set_update_subset_insert [THEN subsetD])
next
  case (loader b)
  from no_work_loader [OF assms(2,3) loader(5)] obtain t l d where
    "s' = s\<lparr>o_time := t, o_ld := l, o_done := d\<rparr>" "l_proc l = 0" "l_i l = l_i (o_ld s)"
    unfolding idle_load_def by blast
  then show ?thesis using assms(3,5) by (simp add: no_work_def)
next
  case stop
  then show ?thesis using assms(3,5) by (simp add: no_work_def)
qed

lemma no_work_steps:
  assumes "os_steps cfg files heap s s'" "os_inv cfg s" "0 < time_slot cfg" "no_work cfg s" "i < length (o_cpus s)"
    "idle_loc (c_loc (o_cpus s ! i))"
  shows "os_inv cfg s' \<and> no_work cfg s' \<and> i < length (o_cpus s') \<and> idle_loc (c_loc (o_cpus s' ! i))"
  using assms
proof (induction rule: os_steps.induct)
  case (more s s1 s2)
  then show ?case using no_work_step [OF more(2)] os_step_inv [OF more(2)] by auto
qed simp

text \<open>
  C15. An idle CPU never stops. Once no process is left (none on a CPU, none ready, none to load), a CPU
  that has found its ready queues empty at the top of its loop goes on asking for a process slot after
  slot: it never reaches the test of \<open>done\<close>, never calls \<open>detach_event\<close>, the timer never ends, and the
  \<open>pthread_join\<close> in \<open>main\<close> never returns.
\<close>

theorem idle_cpu_never_stops:
  assumes "os_start cfg ram0 swp0 sched0 = Some s0" "static_sched sched0" "0 < time_slot cfg"
    and "os_steps cfg files heap s0 s" "no_work cfg s" "i < length (o_cpus s)" "idle_loc (c_loc (o_cpus s ! i))"
    and "os_steps cfg files heap s s'"
  shows "c_loc (o_cpus s' ! i) \<noteq> C_stopped \<and> t_loc (p_timer (o_time s')) \<noteq> T_exit"
proof -
  have "os_inv cfg s" using os_steps_inv [OF assms(4)] os_start_inv [OF assms(1-3)] assms(3) by blast
  from no_work_steps [OF assms(8) this assms(3,5-7)]
  have inv: "os_inv cfg s'" and i: "i < length (o_cpus s')" "idle_loc (c_loc (o_cpus s' ! i))" by simp_all
  from inv obtain slot where ok: "protocol_ok (o_time s') slot" by (auto simp: os_inv_def)
  have "p_act (o_time s') i \<noteq> Detached" "i \<in> set (dev_list (p_timer (o_time s')))"
    using inv i by (auto simp: os_inv_def acts_ok_def idle_loc_def cpu_act_def)
  then have "t_loc (p_timer (o_time s')) \<noteq> T_exit"
    using ok by (auto simp: protocol_ok_def loc_ok_def detached_def)
  with i(2) show ?thesis by (auto simp: idle_loc_def)
qed


subsection \<open>A small run\<close>

definition demo_config :: os_config where
  "demo_config = \<lparr>time_slot = 2, num_cpus = 2, num_processes = 1, memramsz = 1024, memswpsz = [1024, 0, 0, 0],
     ld_path = [''p0''], ld_start_time = [0], ld_prio = [0]\<rparr>"

definition demo_swaps :: "memphy list" where
  "demo_swaps = [blank_memphy, blank_memphy, blank_memphy, blank_memphy]"

definition demo_files :: "string \<Rightarrow> string option" where
  "demo_files = [''p0'' \<mapsto> ''0 0'']"

definition demo_blocks :: ld_blocks where
  "demo_blocks = \<lparr>lb_ptr = 5, lb_pcb = sample_pcb\<lparr>mm := None\<rparr>, lb_pt = page_table sample_pcb, lb_code = code sample_pcb,
     lb_text = (\<lambda>_. \<lparr>opcode = CALC, arg_0 = 0, arg_1 = 0, arg_2 = 0, arg_3 = 0\<rparr>), lb_mm = blank_mm,
     lb_pgd = replicate 16384 0, lb_freerg = RgNull\<rparr>"

lemma demo_blocks_ok: "blocks_ok demo_blocks" "blocks_ok (demo_blocks\<lparr>lb_ptr := 6\<rparr>)"
  by (simp_all add: blocks_ok_def demo_blocks_def sample_pcb_def blank_mm_def)

lemma demo_slot [simp]: "0 < time_slot demo_config" by (simp add: demo_config_def)

lemma demo_static: "static_sched blank_sched"
  by (simp add: static_sched_def blank_sched_def queue_of_def)

lemma demo_start:
  obtains s0 where "os_start demo_config blank_memphy demo_swaps blank_sched = Some s0"
proof -
  obtain sc where "init_scheduler blank_sched = Some sc"
    using init_scheduler_spec [of blank_sched] demo_static unfolding static_sched_def by blast
  then have "\<exists>s. os_start demo_config blank_memphy demo_swaps blank_sched = Some s"
    by (simp add: os_start_def demo_config_def demo_swaps_def init_memphy_cases arr_get_def Let_def)
  then show thesis using that by blast
qed

lemma demo_load:
  "load demo_files (lb_pcb demo_blocks) (lb_pt demo_blocks) (lb_code demo_blocks) (lb_text demo_blocks) n ''p0'' =
   Inr (sample_pcb\<lparr>mm := None, pid := n, bp := 1024, path := ''p0''\<rparr>, n + 1)"
proof -
  have "scan_numbers fits_unsigned 2 ''0 0'' = Inr ([0, 0], '''')" by code_simp
  then show ?thesis
    by (simp add: load_def demo_files_def demo_blocks_def sample_pcb_def mem_consts)
qed

lemma demo_mm: "\<exists>m. init_mm (lb_mm demo_blocks) (lb_pgd demo_blocks) (lb_freerg demo_blocks) = Some (0, m)"
  using init_mm_eq by blast

lemma steps_loader:
  assumes "os_steps cfg files heap s0 s" "\<not> o_exit s" "k_pcbs (o_kernel s) (lb_ptr b) = None" "blocks_ok b" "heap b"
    "ld_step cfg files b (length (o_cpus s)) s = Some s'"
  shows "os_steps cfg files heap s0 s'"
  using assms(1) by (rule os_steps.more) (rule os_step.loader [where b = b]; fact)

lemma steps_cpu:
  assumes "os_steps cfg files heap s0 s" "\<not> o_exit s" "i < length (o_cpus s)" "cpu_step cfg i s = Some s'"
  shows "os_steps cfg files heap s0 s'"
  by (rule os_steps.more [OF assms(1) os_step.cpu [OF assms(2-4)]])

text \<open>The loader loads the process, adds it to the ready queue, and the first CPU takes it.\<close>

lemma demo_run_file:
  assumes "os_start demo_config blank_memphy demo_swaps blank_sched = Some s0" "heap demo_blocks" "heap (demo_blocks\<lparr>lb_ptr := 6\<rparr>)"
    and x: "load files (lb_pcb demo_blocks) (lb_pt demo_blocks) (lb_code demo_blocks) (lb_text demo_blocks) (o_pid s0) ''p0'' = Inr (x, n)"
  shows "\<exists>s y. os_steps demo_config files heap s0 s \<and> length (o_cpus s) = 2 \<and> c_proc (o_cpus s ! 0) = 5 \<and>
    c_loc (o_cpus s ! 0) = C_check \<and> c_loc (o_cpus s ! 1) = C_top \<and> k_pcbs (o_kernel s) 5 = Some y \<and> code y = code x"
proof -
  note start = os_start_inv [OF assms(1) demo_static demo_slot]
  have s0: "o_ld s0 = \<lparr>l_loc = L_load, l_i = 0, l_proc = 0\<rparr>" "k_pcbs (o_kernel s0) = (\<lambda>_. None)" "\<not> o_exit s0"
    "o_cpus s0 = replicate 2 \<lparr>c_loc = C_top, c_proc = 0, c_left = 0\<rparr>"
    using start by (simp_all add: demo_config_def)
  define x1 where "x1 = x\<lparr>prio := 0\<rparr>"
  define s1 where "s1 = s0\<lparr>o_kernel := (o_kernel s0)\<lparr>k_pcbs := [5 \<mapsto> x1]\<rparr>, o_pid := n,
    o_ld := \<lparr>l_loc = L_wait, l_i = 0, l_proc = 5\<rparr>\<rparr>"
  have "ld_step demo_config files demo_blocks (length (o_cpus s0)) s0 = Some s1"
    using s0 x by (simp add: ld_step_def Let_def demo_config_def arr_get_def s1_def x1_def demo_blocks_def)
  then have r1: "os_steps demo_config files heap s0 s1"
    by (intro steps_loader [OF os_steps.none _ _ demo_blocks_ok(1)]) (simp_all add: s0 assms(2))
  define s2 where "s2 = s1\<lparr>o_ld := \<lparr>l_loc = L_add, l_i = 0, l_proc = 5\<rparr>\<rparr>"
  have "ld_step demo_config files (demo_blocks\<lparr>lb_ptr := 6\<rparr>) (length (o_cpus s1)) s1 = Some s2"
    by (simp add: ld_step_def Let_def demo_config_def arr_get_def s1_def s2_def)
  then have r2: "os_steps demo_config files heap s0 s2"
    by (intro steps_loader [OF r1 _ _ demo_blocks_ok(2)]) (simp_all add: s0 s1_def assms(3))
  obtain m where m: "init_mm (lb_mm demo_blocks) (lb_pgd demo_blocks) (lb_freerg demo_blocks) = Some (0, m)"
    using demo_mm by blast
  have "os_inv demo_config s2" using os_steps_inv [OF r2] start demo_slot by blast
  then have ok: "sched_ok [5 \<mapsto> x1] (k_sched (o_kernel s0))"
    by (simp add: os_inv_def pool_inv_def ss_ok_def s2_def s1_def)
  have l0: "\<forall>l < 140. level (k_sched (o_kernel s0)) l = []"
    using start ok by (simp add: ready_empty_iff sched_ok_def mlq_ok_def)
  define y where "y = x1\<lparr>mm := Some m\<rparr>"
  have "sched_ok [5 \<mapsto> y] (k_sched (o_kernel s0))" by (rule sched_ok_dom [OF ok]) simp
  from put_proc_spec [OF this, of 5 y 0] l0 obtain sc where sc:
    "put_proc [5 \<mapsto> y] (k_sched (o_kernel s0)) 5 = Some ([5 \<mapsto> link_queues y], sc)"
    "sched_ok [5 \<mapsto> link_queues y] sc" "level sc 0 = [5]" by (auto simp: y_def x1_def)
  define s3 where "s3 = s2\<lparr>o_kernel := (o_kernel s0)\<lparr>k_pcbs := [5 \<mapsto> link_queues y], k_sched := sc\<rparr>,
    o_ld := \<lparr>l_loc = L_next, l_i = 1, l_proc = 0\<rparr>\<rparr>"
  have "ld_step demo_config files (demo_blocks\<lparr>lb_ptr := 6\<rparr>) (length (o_cpus s2)) s2 = Some s3"
    using m sc(1) by (simp add: ld_step_def Let_def s1_def s2_def s3_def y_def add_proc_eq_put_proc c_ret_def is_cint_def)
  then have r3: "os_steps demo_config files heap s0 s3"
    by (intro steps_loader [OF r2 _ _ demo_blocks_ok(2)]) (simp_all add: s0 s1_def s2_def assms(3))
  from sc(2) obtain sc' where g: "get_proc [5 \<mapsto> link_queues y] sc = Some (5, sc')"
  proof (cases rule: get_proc_cases)
    case empty
    with sc(3) show thesis by auto
  next
    case (found l xs p ys s')
    then have "[5 \<mapsto> link_queues y] p \<noteq> None" by blast
    then have "p = 5" by (simp split: if_splits)
    with found that show thesis by blast
  qed
  have "cpu_step demo_config 0 s3 = Some (set_cpu (s3\<lparr>o_kernel := (o_kernel s3)\<lparr>k_sched := sc'\<rparr>\<rparr>) 0
      \<lparr>c_loc = C_check, c_proc = 5, c_left = 0\<rparr>)"
    using g by (simp add: cpu_step_def Let_def s3_def s2_def s1_def s0)
  from steps_cpu [OF r3 _ _ this] show ?thesis
    by (intro exI conjI) (assumption | simp add: s3_def s2_def s1_def s0 set_cpu_def link_queues_def y_def x1_def)+
qed

lemma demo_run:
  assumes "os_start demo_config blank_memphy demo_swaps blank_sched = Some s0"
  shows "\<exists>s. os_steps demo_config demo_files any_heap s0 s \<and> length (o_cpus s) = 2 \<and> c_proc (o_cpus s ! 0) = 5 \<and>
    c_loc (o_cpus s ! 0) = C_check \<and> c_loc (o_cpus s ! 1) = C_top"
  using demo_run_file [where heap = any_heap, OF assms any_heap any_heap demo_load [of "o_pid s0"]] by blast

theorem os_exclusive_witness:
  "\<exists>s0 s. os_start demo_config blank_memphy demo_swaps blank_sched = Some s0 \<and> os_steps demo_config demo_files any_heap s0 s \<and>
    c_proc (o_cpus s ! 0) = 5 \<and> k_pcbs (o_kernel s) 5 \<noteq> None \<and> c_proc (o_cpus s ! 1) \<noteq> 5 \<and>
    5 \<notin># ready_procs (k_sched (o_kernel s))"
proof -
  obtain s0 where s0: "os_start demo_config blank_memphy demo_swaps blank_sched = Some s0" by (rule demo_start)
  from demo_run [OF this] obtain s where s: "os_steps demo_config demo_files any_heap s0 s" "length (o_cpus s) = 2"
    "c_proc (o_cpus s ! 0) = 5" by blast
  then show ?thesis
    using os_exclusive [OF s0 demo_static demo_slot s(1), of 0] s0 by auto
qed

theorem os_slots_witness:
  "\<exists>s0 s. os_start demo_config blank_memphy demo_swaps blank_sched = Some s0 \<and> os_steps demo_config demo_files any_heap s0 s \<and>
    c_loc (o_cpus s ! 0) = C_check \<and> p_calls (o_time s) 0 = p_calls (o_time s) 1 \<and> c_left (o_cpus s ! 0) \<le> 2"
proof -
  obtain s0 where s0: "os_start demo_config blank_memphy demo_swaps blank_sched = Some s0" by (rule demo_start)
  from demo_run [OF this] obtain s where s: "os_steps demo_config demo_files any_heap s0 s" "length (o_cpus s) = 2"
    "c_loc (o_cpus s ! 0) = C_check" "c_loc (o_cpus s ! 1) = C_top" by blast
  have "time_slot demo_config = 2" by (simp add: demo_config_def)
  then show ?thesis
    using os_slots [OF s0 demo_static demo_slot s(1), of 0 1] s s0 by auto
qed

text \<open>With no process to load at all, the two CPUs are idle from the start.\<close>

definition empty_config :: os_config where
  "empty_config = demo_config\<lparr>num_processes := 0\<rparr>"

theorem idle_cpu_never_stops_witness:
  "\<exists>s0. os_start empty_config blank_memphy demo_swaps blank_sched = Some s0 \<and>
    (\<forall>s. os_steps empty_config demo_files any_heap s0 s \<longrightarrow> c_loc (o_cpus s ! 0) \<noteq> C_stopped \<and> t_loc (p_timer (o_time s)) \<noteq> T_exit)"
proof -
  obtain s0 where "os_start demo_config blank_memphy demo_swaps blank_sched = Some s0" by (rule demo_start)
  then have s0: "os_start empty_config blank_memphy demo_swaps blank_sched = Some s0"
    by (simp add: os_start_def empty_config_def)
  have slot: "0 < time_slot empty_config" "num_processes empty_config = 0" "num_cpus empty_config = 2"
    by (simp_all add: empty_config_def demo_config_def)
  note start = os_start_inv [OF s0 demo_static slot(1)]
  have w: "no_work empty_config s0" "0 < length (o_cpus s0)" "idle_loc (c_loc (o_cpus s0 ! 0))"
    using start slot(2,3) by (simp_all add: no_work_def idle_loc_def)
  then show ?thesis
    using idle_cpu_never_stops [OF s0 demo_static slot(1) os_steps.none w] s0 by blast
qed

end
