(* ===== verification/Os_Progress.thy ===== *)
theory Os_Progress
  imports Os_Safety
begin

text \<open>
  The processes in every state the simulator of \<open>Os\<close> can reach are well formed, and the CPU routine is
  never stuck by itself: its uses of the scheduler, of the store of processes and of the timer are
  defined. Only an instruction of the process it runs can be undefined.
\<close>

subsection \<open>The processes in the store\<close>

text \<open>
  Every process has a priority that is the number of a ready queue and a well-formed control block, and
  all but the one the loader is working on (\<open>l\<close>) have their memory structure.
\<close>

definition procs_ok :: "pcb_ptr \<Rightarrow> pcbs \<Rightarrow> bool" where
  "procs_ok l st \<longleftrightarrow> (\<forall>p x. st p = Some x \<longrightarrow> uint (prio x) < 140 \<and> pcb_wf x \<and> (p \<noteq> l \<longrightarrow> mm x \<noteq> None))"

lemma procs_ok_empty [simp]: "procs_ok l (\<lambda>_. None)"
  by (simp add: procs_ok_def)

lemma procs_free: "procs_ok l st \<Longrightarrow> procs_ok l (st(p := None))"
  by (simp add: procs_ok_def)

lemma procs_new:
  "procs_ok l st \<Longrightarrow> uint (prio x) < 140 \<Longrightarrow> pcb_wf x \<Longrightarrow> (p \<noteq> l \<Longrightarrow> mm x \<noteq> None) \<Longrightarrow> procs_ok l (st(p \<mapsto> x))"
  by (simp add: procs_ok_def)

text \<open>The loader starts or ends its work on a process.\<close>

lemma procs_load: "procs_ok 0 st \<Longrightarrow> st 0 = None \<Longrightarrow> procs_ok l st"
  unfolding procs_ok_def by (metis option.distinct(1))

lemma procs_add:
  "procs_ok l st \<Longrightarrow> uint (prio x) < 140 \<Longrightarrow> pcb_wf x \<Longrightarrow> mm x \<noteq> None \<Longrightarrow> procs_ok 0 (st(l \<mapsto> x))"
  by (simp add: procs_ok_def)

lemma procs_put:
  assumes "put_proc st sc p = Some (st', sc')" "procs_ok l st"
  shows "procs_ok l st'"
proof -
  from assms(1) obtain x where x: "st p = Some x" "st' = st(p \<mapsto> link_queues x)"
    by (auto simp: put_proc_def bind_eq_Some_conv Let_def)
  then show ?thesis using procs_new [OF assms(2), of "link_queues x" p] assms(2)
    by (simp add: procs_ok_def link_queues_def pcb_wf_def)
qed

lemma procs_run:
  assumes "run k p = Some (r, k')" "procs_ok l (k_pcbs k)"
  shows "procs_ok l (k_pcbs k')"
proof -
  from assms(1) obtain x where x: "k_pcbs k p = Some x" by (auto simp: run_def bind_eq_Some_conv)
  then have ok: "uint (prio x) < 140" "pcb_wf x" "p \<noteq> l \<longrightarrow> mm x \<noteq> None" using assms(2) by (simp_all add: procs_ok_def)
  from assms(1) x show ?thesis
  proof (cases rule: run_cases)
    case ended
    then show ?thesis using assms(2) by simp
  next
    case (step x')
    have "map_option mm_shape (mm x') = map_option mm_shape (mm x)"
      using step(3) by (cases x) (simp add: mem_only_def)
    then have "mm x' = None \<longleftrightarrow> mm x = None" by (metis map_option_is_None)
    with ok step(2) mem_only_fields(10) [OF step(3)] pcb_wf_step [OF ok(2) step(1,3)] show ?thesis
      by (simp add: procs_new [OF assms(2)])
  qed
qed

subsection \<open>Every step keeps them\<close>

lemma set_cpu_fields [simp]: "o_kernel (set_cpu s i c) = o_kernel s" "o_ld (set_cpu s i c) = o_ld s"
  by (simp_all add: set_cpu_def)

abbreviation os_procs_ok :: "os \<Rightarrow> bool" where
  "os_procs_ok s \<equiv> procs_ok (l_proc (o_ld s)) (k_pcbs (o_kernel s))"

lemma procs_cpu_step:
  assumes "cpu_step cfg i s = Some s'" "os_procs_ok s"
  shows "os_procs_ok s'"
  using assms
  by (cases "c_loc (o_cpus s ! i)")
    (auto simp: cpu_step_def Let_def bind_eq_Some_conv procs_free elim: procs_put procs_run split: if_splits)

text \<open>The loader takes priorities from the configuration.\<close>

definition conf_prios :: "os_config \<Rightarrow> bool" where
  "conf_prios cfg \<longleftrightarrow> (\<forall>pr \<in> set (ld_prio cfg). uint pr < 140)"

lemma conf_prio_u32:
  assumes "conf_prios cfg" "arr_get (ld_prio cfg) j = Some pr"
  shows "uint (ucast pr :: u32) < 140"
proof -
  have "uint pr < 140" using assms by (auto simp: conf_prios_def arr_simps)
  moreover have "uint (ucast pr :: u32) \<le> uint pr" by (simp add: unsigned_ucast_eq take_bit_int_less_eq_self_iff)
  ultimately show ?thesis by simp
qed

lemma procs_ld_step:
  assumes "ld_step cfg files b n s = Some s'" "os_procs_ok s" "conf_prios cfg" "blocks_ok b"
    and inv: "ld_ok (o_ld s)" "k_pcbs (o_kernel s) 0 = None"
  shows "os_procs_ok s'"
proof (cases "l_loc (o_ld s)")
  case L_load
  then have l0: "l_proc (o_ld s) = 0" using inv(1) by (auto simp: ld_ok_def)
  from assms(1) L_load show ?thesis
  proof (cases rule: ld_load_cases)
    case (loaded pth x pid' pr)
    have "pcb_wf (x\<lparr>prio := ucast pr\<rparr>)"
      using load_fields [OF loaded(2)] assms(4) by (simp add: pcb_wf_def blocks_ok_def)
    moreover have "procs_ok (lb_ptr b) (k_pcbs (o_kernel s))" using procs_load assms(2) inv(2) l0 by simp
    ultimately show ?thesis
      using procs_new [of "lb_ptr b"] conf_prio_u32 [OF assms(3) loaded(1)] by (simp add: loaded(3))
  qed (use assms(2) in simp_all)
next
  case L_add
  with assms(1) obtain x m st sc where x: "k_pcbs (o_kernel s) (l_proc (o_ld s)) = Some x"
    "\<exists>r. init_mm (lb_mm b) (lb_pgd b) (lb_freerg b) = Some (r, m)"
    "put_proc ((k_pcbs (o_kernel s))(l_proc (o_ld s) \<mapsto> x\<lparr>mm := Some m\<rparr>)) (k_sched (o_kernel s)) (l_proc (o_ld s)) =
      Some (st, sc)" "k_pcbs (o_kernel s') = st" "l_proc (o_ld s') = 0"
    by (auto simp: ld_step_def Let_def bind_eq_Some_conv add_proc_eq_put_proc)
  have "length (pgd m) = 16384" "length (symrgtbl m) = 30"
    using x(2) assms(4) by (auto simp: init_mm_eq blocks_ok_def)
  then have "uint (prio (x\<lparr>mm := Some m\<rparr>)) < 140" "pcb_wf (x\<lparr>mm := Some m\<rparr>)"
    using assms(2) x(1) by (simp_all add: procs_ok_def pcb_wf_def)
  from procs_put [OF x(3) procs_add [OF assms(2) this]] x(4,5) show ?thesis by simp
qed (use assms(1,2) in \<open>auto simp: ld_step_def Let_def bind_eq_Some_conv split: if_splits\<close>)

lemma procs_step:
  assumes "os_step cfg files heap s s'" "os_procs_ok s" "conf_prios cfg" "os_inv cfg s"
  shows "os_procs_ok s'"
  using assms(1)
proof cases
  case (cpu i)
  then show ?thesis using procs_cpu_step assms(2) by blast
next
  case (loader b)
  have "ld_ok (o_ld s)" "k_pcbs (o_kernel s) 0 = None" using assms(4) by (simp_all add: os_inv_def pool_inv_def ss_ok_def)
  with loader show ?thesis using procs_ld_step assms(2,3) by blast
qed (use assms(2) in simp_all)

lemma procs_steps:
  "os_steps cfg files heap s s' \<Longrightarrow> os_procs_ok s \<Longrightarrow> conf_prios cfg \<Longrightarrow> os_inv cfg s \<Longrightarrow> 0 < time_slot cfg \<Longrightarrow> os_procs_ok s'"
proof (induction rule: os_steps.induct)
  case (more s s1 s2)
  then show ?case using procs_step os_steps_inv by blast
qed

lemma reachable_ok:
  assumes "os_start cfg ram0 swp0 sched0 = Some s0" "static_sched sched0" "0 < time_slot cfg" "conf_prios cfg"
    "os_steps cfg files heap s0 s"
  shows "os_inv cfg s \<and> os_procs_ok s"
proof -
  note start = os_start_inv [OF assms(1-3)]
  have "os_inv cfg s" using os_steps_inv [OF assms(5)] start assms(3) by blast
  moreover have "os_procs_ok s" using procs_steps [OF assms(5) _ assms(4)] start assms(3) by simp
  ultimately show ?thesis by blast
qed

text \<open>
  C11. Types of the whole simulator: in every reachable state each process has ten registers, as many
  instructions as its size says and a program counter within them; a process that a CPU holds has a
  memory structure with a full page directory and symbol table, so nothing a CPU dereferences on its
  way to an instruction is unassigned.
\<close>

theorem os_types:
  assumes "os_start cfg ram0 swp0 sched0 = Some s0" "static_sched sched0" "0 < time_slot cfg" "conf_prios cfg"
    "os_steps cfg files heap s0 s"
  shows "(\<forall>p x. k_pcbs (o_kernel s) p = Some x \<longrightarrow> length (regs x) = 10 \<and>
      int (length (cs_text (code x))) = uint (cs_size (code x)) \<and> pc x \<le> cs_size (code x)) \<and>
    (\<forall>c \<in> set (o_cpus s). c_proc c \<noteq> 0 \<longrightarrow> (\<exists>x m. k_pcbs (o_kernel s) (c_proc c) = Some x \<and> mm x = Some m \<and>
      length (pgd m) = 16384 \<and> length (symrgtbl m) = 30))"
proof -
  from reachable_ok [OF assms] have inv: "os_inv cfg s" and ok: "os_procs_ok s" by simp_all
  have "\<exists>x m. k_pcbs (o_kernel s) (c_proc c) = Some x \<and> mm x = Some m \<and> length (pgd m) = 16384 \<and> length (symrgtbl m) = 30"
    if c: "c \<in> set (o_cpus s)" "c_proc c \<noteq> 0" for c
  proof -
    from c(1) obtain i where i: "i < length (o_cpus s)" "c = o_cpus s ! i" by (auto simp: in_set_conv_nth)
    from cpu_holds [OF inv i(1)] c(2) i(2) obtain x where x: "k_pcbs (o_kernel s) (c_proc c) = Some x"
      "c_proc c \<noteq> l_proc (o_ld s)" by blast
    with ok have "pcb_wf x" "mm x \<noteq> None" by (auto simp: procs_ok_def)
    with x(1) show ?thesis by (auto simp: pcb_wf_def)
  qed
  then show ?thesis using ok by (auto simp: procs_ok_def pcb_wf_def)
qed

subsection \<open>No CPU is stuck\<close>

lemma get_proc_defined: "ss_ok (st, sc) \<Longrightarrow> \<exists>p sc'. get_proc st sc = Some (p, sc')"
  unfolding ss_ok_def by (auto elim: get_proc_cases)

lemma cpu_step_defined:
  assumes inv: "os_inv cfg s" and procs: "os_procs_ok s" and i: "i < length (o_cpus s)"
    and slot: "is_cint (time_slot cfg)"
    and run: "c_loc (o_cpus s ! i) = C_run \<longrightarrow> run (o_kernel s) (c_proc (o_cpus s ! i)) \<noteq> None"
  shows "cpu_step cfg i s \<noteq> None"
proof -
  let ?c = "o_cpus s ! i" and ?k = "o_kernel s"
  have ok: "cpu_ok cfg ?c" and ss: "ss_ok (k_pcbs ?k, k_sched ?k)"
    using inv i by (simp_all add: os_inv_def pool_inv_def)
  obtain p sc where g: "get_proc (k_pcbs ?k) (k_sched ?k) = Some (p, sc)" using get_proc_defined [OF ss] by blast
  obtain d where d: "dev_ids (p_timer (o_time s)) i = Some d"
    using inv i unfolding os_inv_def protocol_ok_def by fastforce
  show ?thesis
  proof (cases "c_loc ?c")
    case C_top
    show ?thesis
    proof (cases "c_proc ?c = 0")
      case True
      with C_top g show ?thesis by (simp add: cpu_step_def Let_def)
    next
      case False
      from cpu_holds [OF inv i False] obtain x where x: "k_pcbs ?k (c_proc ?c) = Some x" by blast
      then have "uint (prio x) < 140" using procs by (simp add: procs_ok_def)
      with put_proc_spec [of "k_pcbs ?k" "k_sched ?k" "c_proc ?c" x] x ss show ?thesis
        using C_top False x by (auto simp: cpu_step_def Let_def ss_ok_def)
    qed
  next
    case C_run
    then have "c_ret (c_left ?c - 1) = Some (c_left ?c - 1)"
      using ok slot by (simp add: cpu_ok_def c_ret_def is_cint_def)
    with C_run run show ?thesis by (auto simp: cpu_step_def Let_def)
  qed (use g d in \<open>simp_all add: cpu_step_def Let_def dev_enter_def dev_detach_def next_slot_enter_def
      next_slot_returns_def detach_event_def\<close>)
qed

text \<open>
  No CPU gets stuck outside its process: if the configured priorities are numbers of ready queues,
  then in every state the simulator can reach each CPU has a next step, whatever it is doing: the
  process it holds has not been freed, the scheduler and the timer take it further. The one exception
  is a call of \<open>run\<close> whose instruction is itself undefined.
\<close>

lemma cpu_never_stuck:
  assumes "os_start cfg ram0 swp0 sched0 = Some s0" "static_sched sched0" "0 < time_slot cfg" "is_cint (time_slot cfg)"
    and "conf_prios cfg" "os_steps cfg files heap s0 s" "i < length (o_cpus s)"
  shows "cpu_step cfg i s \<noteq> None \<or>
    c_loc (o_cpus s ! i) = C_run \<and> run (o_kernel s) (c_proc (o_cpus s ! i)) = None"
proof -
  from reachable_ok [OF assms(1-3,5,6)] show ?thesis using cpu_step_defined assms(4,7) by blast
qed

lemma cpu_never_stuck_witness:
  "\<exists>s0 s. os_start demo_config blank_memphy demo_swaps blank_sched = Some s0 \<and> os_steps demo_config demo_files any_heap s0 s \<and>
    c_proc (o_cpus s ! 0) = 5 \<and> cpu_step demo_config 0 s \<noteq> None"
proof -
  obtain s0 where s0: "os_start demo_config blank_memphy demo_swaps blank_sched = Some s0" by (rule demo_start)
  from demo_run [OF this] obtain s where s: "os_steps demo_config demo_files any_heap s0 s" "length (o_cpus s) = 2"
    "c_proc (o_cpus s ! 0) = 5" "c_loc (o_cpus s ! 0) = C_check" by blast
  have "is_cint (time_slot demo_config)" "conf_prios demo_config"
    by (simp_all add: demo_config_def is_cint_def conf_prios_def)
  with cpu_never_stuck [OF s0 demo_static demo_slot _ _ s(1), of 0] s s0 show ?thesis by auto
qed

theorem os_types_witness:
  "\<exists>s0 s x m. os_start demo_config blank_memphy demo_swaps blank_sched = Some s0 \<and> os_steps demo_config demo_files any_heap s0 s \<and>
    c_proc (o_cpus s ! 0) = 5 \<and> k_pcbs (o_kernel s) 5 = Some x \<and> length (regs x) = 10 \<and> mm x = Some m \<and>
    length (pgd m) = 16384"
proof -
  obtain s0 where s0: "os_start demo_config blank_memphy demo_swaps blank_sched = Some s0" by (rule demo_start)
  from demo_run [OF this] obtain s where s: "os_steps demo_config demo_files any_heap s0 s" "length (o_cpus s) = 2"
    "c_proc (o_cpus s ! 0) = 5" by blast
  have "conf_prios demo_config" by (simp add: demo_config_def conf_prios_def)
  from os_types [OF s0 demo_static demo_slot this s(1)] have
    t: "\<forall>x. k_pcbs (o_kernel s) 5 = Some x \<longrightarrow> length (regs x) = 10"
    "\<forall>c \<in> set (o_cpus s). c_proc c \<noteq> 0 \<longrightarrow>
      (\<exists>x m. k_pcbs (o_kernel s) (c_proc c) = Some x \<and> mm x = Some m \<and> length (pgd m) = 16384)" by blast+
  have "o_cpus s ! 0 \<in> set (o_cpus s)" using s(2) by simp
  with t(2) s(3) obtain x m where "k_pcbs (o_kernel s) 5 = Some x" "mm x = Some m" "length (pgd m) = 16384" by fastforce
  with t(1) s(1,3) s0 show ?thesis by blast
qed

end
