(* ===== verification/Quiet.thy ===== *)
theory Quiet
  imports Cpu Loader
begin

text \<open>
  Processes as they are when \<open>malloc\<close> returns zeroed blocks: no page is present, the only free interval
  is empty, there is no page to replace. A \<open>tame\<close> program (no system call that reaches physical memory,
  no variable outside the symbol table, sizes from 1 to \<open>INT_MAX\<close>) is then always defined, never gets a
  page and never touches a device.
\<close>

subsection \<open>Tame instructions\<close>

definition tame_var :: "u32 \<Rightarrow> bool" where
  "tame_var rg \<longleftrightarrow> int_of_u32 rg \<noteq> PAGING_MAX_SYMTBL_SZ"

definition tame_call :: "u32 \<Rightarrow> u32 \<Rightarrow> u32 \<Rightarrow> bool" where
  "tame_call nr x1 x2 \<longleftrightarrow> nr \<noteq> 101 \<and> (nr = 17 \<longrightarrow> int_of_u32 x1 < 2 \<or> 5 < int_of_u32 x1) \<and>
    (nr = 440 \<longrightarrow> is_cint (int_of_u32 x1 + int_of_u32 x2))"

definition tame :: "inst_t \<Rightarrow> bool" where
  "tame ins = (case opcode ins of
     CALC \<Rightarrow> True
   | ALLOC \<Rightarrow> 0 < int_of_u32 (arg_0 ins) \<and> 0 \<le> int_of_u32 (arg_1 ins) \<and> int_of_u32 (arg_1 ins) < PAGING_MAX_SYMTBL_SZ
   | FREE \<Rightarrow> tame_var (arg_0 ins)
   | READ \<Rightarrow> tame_var (arg_0 ins)
   | WRITE \<Rightarrow> tame_var (arg_1 ins)
   | SYSCALL \<Rightarrow> tame_call (arg_0 ins) (arg_1 ins) (arg_2 ins))"

lemma tame_same: "same_inst a b \<Longrightarrow> tame b \<Longrightarrow> tame a"
  by (cases "opcode b") (auto simp: same_inst_def tame_def used_args_def)

subsection \<open>Quiet processes\<close>

definition quiet_mm :: "mm_struct \<Rightarrow> bool" where
  "quiet_mm m \<longleftrightarrow> length (pgd m) = 16384 \<and> (\<forall>k. \<not> present (pgd m) k) \<and> fifo_pgn m = PgNull \<and>
    length (symrgtbl m) = 30 \<and> (\<forall>r \<in> set (symrgtbl m). rg_end r \<le> rg_start r) \<and>
    get_vma_by_num m 0 = Some 0 \<and> rg_load m (vm_freerg_list (mmap m ! 0)) = Some \<lparr>rg_start = 0, rg_end = 0, rg_next = RgNull\<rparr> \<and>
    (\<exists>a. vm_freerg_list (mmap m ! 0) = RgHeap a)"

definition quiet_proc :: "pcb_t \<Rightarrow> bool" where
  "quiet_proc x \<longleftrightarrow> list_all tame (cs_text (code x)) \<and> (case mm x of None \<Rightarrow> True | Some m \<Rightarrow> quiet_mm m)"

lemma quiet_proc_mm: "quiet_proc x \<Longrightarrow> mm x = Some m \<Longrightarrow> quiet_mm m"
  by (simp add: quiet_proc_def)

lemma quiet_chain:
  assumes "quiet_mm m"
  shows "rg_chain m (vm_freerg_list (mmap m ! 0)) [vm_freerg_list (mmap m ! 0)]"
    "regions m [vm_freerg_list (mmap m ! 0)] = [(0, 0)]"
  using assms by (auto simp: quiet_mm_def rg_chain_def regions_def region_of_def)

text \<open>An allocation is reported as a success at address -1 and leaves the variable without a region.\<close>

lemma quiet_alloc:
  assumes "quiet_mm m" "mm x = Some m" "0 < int_of_u32 sz" "0 \<le> int_of_u32 v" "int_of_u32 v < 30"
  obtains m' where "liballoc x d sz v = Some (0, Some (-1), x\<lparr>mm := Some m'\<rparr>, d)" "quiet_mm m'"
proof -
  let ?r = "(symrgtbl m ! nat (int_of_u32 v))\<lparr>rg_start := -1, rg_end := -1\<rparr>"
  let ?m = "m\<lparr>symrgtbl := (symrgtbl m)[nat (int_of_u32 v) := ?r]\<rparr>"
  have q: "length (symrgtbl m) = 30" "get_vma_by_num m 0 = Some 0" using assms(1) by (simp_all add: quiet_mm_def)
  have "\<forall>g \<in> set (regions m [vm_freerg_list (mmap m ! 0)]). \<not> fits (int_of_u32 sz) g"
    using assms(3) by (simp add: quiet_chain [OF assms(1)] fits_def int_of_u64_def)
  then have "liballoc x d sz v = Some (0, Some (-1), x\<lparr>mm := Some ?m\<rparr>, d)"
    using alloc_no_fit [OF assms(2) q(2) quiet_chain(1) [OF assms(1)]] assms(4,5) q(1) by (simp add: liballoc_def)
  moreover have "rg_load ?m (RgHeap a) = rg_load m (RgHeap a)" for a by simp
  then have "quiet_mm ?m" using assms(1)
    by (auto simp: quiet_mm_def get_vma_by_num_def simp del: rg_load.simps
        dest!: set_update_subset_insert [THEN subsetD])
  ultimately show thesis by (rule that)
qed

lemma quiet_free:
  assumes "quiet_mm m" "mm x = Some m" "tame_var v"
  shows "libfree x v = Some (-1, x)"
proof (cases "0 \<le> int_of_u32 v \<and> int_of_u32 v < 30")
  case True
  let ?r = "symrgtbl m ! nat (int_of_u32 v)"
  from assms(1) True have "rg_load m (RgSym (nat (int_of_u32 v))) = Some ?r" "rg_end ?r \<le> rg_start ?r"
    by (simp_all add: quiet_mm_def nat_less_iff)
  with True assms(2) show ?thesis
    by (simp add: libfree_def free_region_def get_symrg_byid_def PAGING_MAX_SYMTBL_SZ_def)
next
  case False
  then have "int_of_u32 v < 0 \<or> int_of_u32 v > PAGING_MAX_SYMTBL_SZ"
    using assms(3) by (auto simp: tame_var_def PAGING_MAX_SYMTBL_SZ_def)
  then show ?thesis by (auto simp: libfree_def free_region_def)
qed

text \<open>No access finds a page, whatever the address.\<close>

lemma quiet_getpage:
  assumes "quiet_mm m" "mm x = Some m"
  shows "pg_getpage x d (int_of_u32 (PAGING_PGN w)) = Some (-1, None, x, d)"
proof -
  have "0 \<le> int_of_u32 (PAGING_PGN w)" "int_of_u32 (PAGING_PGN w) < 16384"
    unfolding int_of_PAGING_PGN by (rule pos_mod_sign, simp) (rule pos_mod_bound, simp)
  then show ?thesis using pg_getpage_no_victim [OF assms(2)] assms(1) by (simp add: quiet_mm_def)
qed

lemma quiet_access:
  assumes "quiet_mm m" "mm x = Some m"
  shows "pg_getval x d a = Some (-1, None, x, d)" "pg_setval x d a u = Some (-1, x, d)"
  using quiet_getpage [OF assms] by (simp_all add: pg_getval_def pg_setval_def Let_def)

lemma quiet_region:
  assumes "quiet_mm m" "tame_var v" "get_symrg_byid m (int_of_u32 v) \<noteq> RgNull"
  obtains r where "rg_load m (get_symrg_byid m (int_of_u32 v)) = Some r"
proof -
  from assms(2,3) have "0 \<le> int_of_u32 v" "int_of_u32 v < 30"
    by (auto simp: get_symrg_byid_def tame_var_def PAGING_MAX_SYMTBL_SZ_def split: if_splits)
  then show thesis
    using that assms(1) by (simp add: get_symrg_byid_def quiet_mm_def nat_less_iff PAGING_MAX_SYMTBL_SZ_def)
qed

lemma quiet_read:
  assumes "quiet_mm m" "mm x = Some m" "tame_var v"
  obtains r where "libread x d v off = Some (r, x, d)"
proof (cases "get_symrg_byid m (int_of_u32 v) = RgNull")
  case True
  then show thesis using that assms(2) by (simp add: libread_def read_region_def Let_def)
next
  case False
  from quiet_region [OF assms(1,3) False] obtain r where "rg_load m (get_symrg_byid m (int_of_u32 v)) = Some r" .
  then show thesis
    using that False assms(1,2) quiet_access(1) [OF assms(1,2)]
    by (simp add: libread_def read_region_def Let_def quiet_mm_def)
qed

lemma quiet_write:
  assumes "quiet_mm m" "mm x = Some m" "tame_var v"
  obtains r where "libwrite x d u v off = Some (r, x, d)"
proof (cases "get_symrg_byid m (int_of_u32 v) = RgNull")
  case True
  then show thesis using that assms(2) by (simp add: libwrite_def write_region_def Let_def)
next
  case False
  from quiet_region [OF assms(1,3) False] obtain r where "rg_load m (get_symrg_byid m (int_of_u32 v)) = Some r" .
  then show thesis
    using that False assms(1,2) quiet_access(2) [OF assms(1,2)]
    by (simp add: libwrite_def write_region_def Let_def quiet_mm_def)
qed

lemma tame_syscall:
  assumes "tame_call nr x1 x2"
  shows "libsyscall k p nr x1 x2 x3 = Some (0, k)"
proof (cases "nr = 17")
  case True
  with assms have "int_of_u32 x1 < 2 \<or> 5 < int_of_u32 x1" by (simp add: tame_call_def)
  with True show ?thesis
    by (auto simp: libsyscall_memmap sys_memmap_def Let_def SYSMEM_MAP_OP_def SYSMEM_INC_OP_def
      SYSMEM_SWP_OP_def SYSMEM_IO_READ_def SYSMEM_IO_WRITE_def)
next
  case False
  then show ?thesis
    using assms syscall_dispatch [of nr k p x1 x2 x3] by (auto simp: tame_call_def)
qed

subsection \<open>One instruction\<close>

lemma quiet_exec:
  assumes "k_pcbs k p = Some x" "mm x = Some m" "quiet_mm m" "tame ins"
  obtains r m' where "exec_inst k p ins = Some (r, k\<lparr>k_pcbs := (k_pcbs k)(p \<mapsto> x\<lparr>mm := Some m'\<rparr>)\<rparr>)" "quiet_mm m'"
proof -
  have stay: "k\<lparr>k_pcbs := (k_pcbs k)(p \<mapsto> x\<lparr>mm := Some m\<rparr>)\<rparr> = k" "(k_pcbs k)(p \<mapsto> x) = k_pcbs k" "x\<lparr>mm := Some m\<rparr> = x"
    using assms(1,2) by (simp_all add: fun_upd_idem)
  note that_m = that [of _ m, unfolded stay, OF _ assms(3)]
  show thesis
  proof (cases "opcode ins")
    case CALC
    then show thesis using that_m assms(1) by (simp add: exec_inst_def)
  next
    case ALLOC
    with assms(4) have a: "0 < int_of_u32 (arg_0 ins)" "0 \<le> int_of_u32 (arg_1 ins)" "int_of_u32 (arg_1 ins) < 30"
      by (simp_all add: tame_def PAGING_MAX_SYMTBL_SZ_def)
    from quiet_alloc [OF assms(3,2) a, of "k_devs k"] obtain m' where
      "liballoc x (k_devs k) (arg_0 ins) (arg_1 ins) = Some (0, Some (-1), x\<lparr>mm := Some m'\<rparr>, k_devs k)" "quiet_mm m'" .
    then show thesis using that [of 0 m'] ALLOC assms(1) by (simp add: exec_inst_def)
  next
    case FREE
    then show thesis
      using that_m assms quiet_free [OF assms(3,2)] stay by (simp add: exec_inst_def tame_def)
  next
    case READ
    with assms(4) have v: "tame_var (arg_0 ins)" by (simp add: tame_def)
    from quiet_read [OF assms(3,2) v, of "k_devs k" "arg_1 ins"] obtain r where
      "libread x (k_devs k) (arg_0 ins) (arg_1 ins) = Some (r, x, k_devs k)" .
    then show thesis using that_m READ assms(1) stay by (simp add: exec_inst_def)
  next
    case WRITE
    with assms(4) have v: "tame_var (arg_1 ins)" by (simp add: tame_def)
    from quiet_write [OF assms(3,2) v, of "k_devs k" "byte_of_u32 (arg_0 ins)" "arg_2 ins"] obtain r where
      "libwrite x (k_devs k) (byte_of_u32 (arg_0 ins)) (arg_1 ins) (arg_2 ins) = Some (r, x, k_devs k)" .
    then show thesis using that_m WRITE assms(1) stay by (simp add: exec_inst_def)
  next
    case SYSCALL
    then show thesis using that_m assms(1,4) tame_syscall by (simp add: exec_inst_def tame_def)
  qed
qed

text \<open>A call of \<open>run\<close> is defined and changes the program counter and the symbol table of its process only.\<close>

lemma quiet_run:
  assumes "k_pcbs k p = Some x" "quiet_proc x" "pcb_wf x" "mm x \<noteq> None"
  obtains r x' where "run k p = Some (r, k\<lparr>k_pcbs := (k_pcbs k)(p \<mapsto> x')\<rparr>)" "quiet_proc x'"
proof (cases "cs_size (code x) \<le> pc x")
  case True
  then have "run k p = Some (1, k)" using assms(1) by (simp add: run_def)
  moreover have "k\<lparr>k_pcbs := (k_pcbs k)(p \<mapsto> x)\<rparr> = k" using assms(1) by (simp add: fun_upd_idem)
  ultimately show thesis using that [of 1 x] assms(2) by simp
next
  case False
  obtain m where m: "mm x = Some m" "quiet_mm m" using assms(2,4) by (auto simp: quiet_proc_def)
  let ?x = "x\<lparr>pc := pc x + 1\<rparr>" and ?ins = "cs_text (code x) ! nat (uint (pc x))"
  let ?k = "k\<lparr>k_pcbs := (k_pcbs k)(p \<mapsto> ?x)\<rparr>"
  have "uint (pc x) < int (length (cs_text (code x)))" using False assms(3) by (simp add: pcb_wf_def word_le_def)
  then have ins: "arr_get (cs_text (code x)) (uint (pc x)) = Some ?ins" "tame ?ins"
    using assms(2) by (simp_all add: arr_get_in quiet_proc_def list_all_length nat_less_iff del: nat_uint_eq)
  have "k_pcbs ?k p = Some ?x" "mm ?x = Some m" using m by simp_all
  from quiet_exec [OF this m(2) ins(2)] obtain r m' where
    "exec_inst ?k p ?ins = Some (r, k\<lparr>k_pcbs := (k_pcbs k)(p \<mapsto> ?x\<lparr>mm := Some m'\<rparr>)\<rparr>)" "quiet_mm m'" by auto
  moreover from this(2) have "quiet_proc (?x\<lparr>mm := Some m'\<rparr>)" using assms(2) by (simp add: quiet_proc_def)
  ultimately show thesis using that False assms(1) ins(1) by (simp add: run_def)
qed

subsection \<open>Fresh processes\<close>

lemma quiet_init_mm:
  assumes "\<forall>e \<in> set pd0. e = 0" "length pd0 = 16384" "length (symrgtbl m) = 30"
    "\<forall>r \<in> set (symrgtbl m). rg_start r = 0 \<and> rg_end r = 0" "fifo_pgn m = PgNull"
    "init_mm m pd0 RgNull = Some (r, m')"
  shows "quiet_mm m'"
proof -
  have "\<not> present pd0 k" for k using assms(1) by (auto simp: present_def PAGE_PRESENT_iff dest!: nth_mem)
  then show ?thesis
    using assms(2-6) by (auto simp: init_mm_eq quiet_mm_def get_vma_by_num_def int_of_u64_def)
qed

end
