(* ===== verification/Os_Quiet.thy ===== *)
theory Os_Quiet
  imports Os_Progress Quiet
begin

text \<open>
  Progress of the whole simulator of \<open>Os\<close>: with process files in the loader's format neither the loader
  nor the timer is ever stuck. And what the simulator does on an operating system whose \<open>malloc\<close> returns
  zeroed blocks: running \<open>tame\<close> programs, every thread always has a next step, no process ever gets a
  page, and RAM and swap stay as \<open>main\<close> set them up.
\<close>

subsection \<open>Process files\<close>

text \<open>
  Every process of the configuration has its line and a file in the format of \<open>show_program\<close>, whose
  instructions satisfy \<open>P\<close>.
\<close>

definition conf_files :: "(inst_t \<Rightarrow> bool) \<Rightarrow> os_config \<Rightarrow> (string \<Rightarrow> string option) \<Rightarrow> bool" where
  "conf_files P cfg files \<longleftrightarrow> is_cint (num_processes cfg) \<and> num_processes cfg \<le> int (length (ld_path cfg)) \<and>
    num_processes cfg \<le> int (length (ld_start_time cfg)) \<and> num_processes cfg \<le> int (length (ld_prio cfg)) \<and>
    (\<forall>pth \<in> set (ld_path cfg). \<exists>p prog. files pth = Some (show_program p prog) \<and>
      (\<forall>ins \<in> set prog. printable ins \<and> P ins) \<and> length prog < 2 ^ 32)"

text \<open>What the loader needs of the files: every program loads into blocks of \<open>heap\<close>, as instructions in \<open>P\<close>.\<close>

definition conf_loads :: "(inst_t \<Rightarrow> bool) \<Rightarrow> (ld_blocks \<Rightarrow> bool) \<Rightarrow> os_config \<Rightarrow> (string \<Rightarrow> string option) \<Rightarrow> bool" where
  "conf_loads P heap cfg files \<longleftrightarrow> is_cint (num_processes cfg) \<and> num_processes cfg \<le> int (length (ld_path cfg)) \<and>
    num_processes cfg \<le> int (length (ld_start_time cfg)) \<and> num_processes cfg \<le> int (length (ld_prio cfg)) \<and>
    (\<forall>pth \<in> set (ld_path cfg). \<forall>b avail. heap b \<longrightarrow> (\<exists>x n.
      load files (lb_pcb b) (lb_pt b) (lb_code b) (lb_text b) avail pth = Inr (x, n) \<and> list_all P (cs_text (code x))))"

lemma conf_loads_mono: "conf_loads P heap cfg files \<Longrightarrow> (\<And>x. P x \<Longrightarrow> Q x) \<Longrightarrow> conf_loads Q heap cfg files"
  unfolding conf_loads_def by (metis (mono_tags, lifting) list.pred_mono_strong)

lemma conf_loads_less: "conf_loads P all cfg files \<Longrightarrow> \<forall>b. heap b \<longrightarrow> all b \<Longrightarrow> conf_loads P heap cfg files"
  unfolding conf_loads_def by blast

lemma conf_lines:
  assumes "conf_loads P heap cfg files" "0 \<le> i" "i < num_processes cfg"
  obtains pth st pr where "arr_get (ld_path cfg) i = Some pth" "pth \<in> set (ld_path cfg)"
    "arr_get (ld_start_time cfg) i = Some st" "arr_get (ld_prio cfg) i = Some pr"
  using assms by (auto simp: conf_loads_def arr_get_in nat_less_iff)

lemma conf_load:
  assumes "conf_loads P heap cfg files" "pth \<in> set (ld_path cfg)" "heap b"
  obtains x n where "load files (lb_pcb b) (lb_pt b) (lb_code b) (lb_text b) avail pth = Inr (x, n)"
    "list_all P (cs_text (code x))"
  using assms unfolding conf_loads_def by blast

lemma same_inst_closed:
  assumes "list_all2 same_inst text prog" "list_all P prog" "\<And>a b. same_inst a b \<Longrightarrow> P b \<Longrightarrow> P a"
  shows "list_all P text"
  using assms(1,2) by (induction rule: list_all2_induct) (auto intro: assms(3))

text \<open>Files in the format of \<open>show_program\<close> load, whatever \<open>malloc\<close> returns.\<close>

lemma show_program_loads:
  assumes "files pth = Some (show_program p prog)" "\<forall>ins \<in> set prog. printable ins \<and> P ins" "length prog < 2 ^ 32"
    and "\<And>a b. same_inst a b \<Longrightarrow> P b \<Longrightarrow> P a"
  shows "\<exists>x n. load files block pt code0 text0 avail pth = Inr (x, n) \<and> list_all P (cs_text (code x))"
proof -
  from assms(2) have "\<forall>ins \<in> set prog. printable ins" by blast
  from load_show [where files = files, OF assms(1) this assms(3), of block pt code0 text0 avail] obtain x where
    "load files block pt code0 text0 avail pth = Inr (x, avail + 1)" "list_all2 same_inst (cs_text (code x)) prog" by blast
  moreover from this(2) have "list_all P (cs_text (code x))"
    by (rule same_inst_closed) (use assms(2,4) in \<open>auto simp: list_all_iff\<close>)
  ultimately show ?thesis by blast
qed

lemma conf_files_loads:
  assumes "conf_files P cfg files" "\<And>a b. same_inst a b \<Longrightarrow> P b \<Longrightarrow> P a"
  shows "conf_loads P heap cfg files"
  unfolding conf_loads_def
proof (intro conjI ballI allI impI)
  fix pth b avail assume "pth \<in> set (ld_path cfg)"
  with assms(1) obtain p prog where "files pth = Some (show_program p prog)" "\<forall>ins \<in> set prog. printable ins \<and> P ins"
    "length prog < 2 ^ 32" unfolding conf_files_def by blast
  then show "\<exists>x n. load files (lb_pcb b) (lb_pt b) (lb_code b) (lb_text b) avail pth = Inr (x, n) \<and> list_all P (cs_text (code x))"
    using assms(2) by (rule show_program_loads)
qed (use assms(1) in \<open>simp_all add: conf_files_def\<close>)

subsection \<open>The loader and the timer are never stuck\<close>

text \<open>The loader's index, and the files it has yet to read.\<close>

definition ld_index :: "os_config \<Rightarrow> os \<Rightarrow> bool" where
  "ld_index cfg s \<longleftrightarrow> \<not> o_exit s \<and> 0 \<le> l_i (o_ld s) \<and>
    (l_loc (o_ld s) \<in> {L_wait, L_sleep, L_add} \<longrightarrow> l_i (o_ld s) < num_processes cfg)"

lemma ld_index_cpu:
  assumes "cpu_step cfg i s = Some s'"
  shows "o_exit s' = o_exit s \<and> o_ld s' = o_ld s"
  using assms by (cases "c_loc (o_cpus s ! i)") (auto simp: cpu_step_def Let_def bind_eq_Some_conv set_cpu_def split: if_splits)

lemma ld_index_ld:
  assumes "ld_step cfg files b n s = Some s'" "ld_index cfg s" "conf_loads P heap cfg files" "heap b"
  shows "ld_index cfg s'"
proof (cases "l_loc (o_ld s) = L_load \<and> l_i (o_ld s) < num_processes cfg")
  case True
  then have "0 \<le> l_i (o_ld s)" "l_i (o_ld s) < num_processes cfg" using assms(2) by (simp_all add: ld_index_def)
  from conf_lines [OF assms(3) this] obtain pth st pr where l: "arr_get (ld_path cfg) (l_i (o_ld s)) = Some pth"
    "pth \<in> set (ld_path cfg)" "arr_get (ld_prio cfg) (l_i (o_ld s)) = Some pr" by metis
  from conf_load [OF assms(3) l(2) assms(4)] obtain x m where
    "load files (lb_pcb b) (lb_pt b) (lb_code b) (lb_text b) (o_pid s) pth = Inr (x, m)" by metis
  then show ?thesis using assms(1,2) True l by (auto simp: ld_step_def Let_def ld_index_def)
next
  case False
  then show ?thesis using assms(1,2)
    by (cases "l_loc (o_ld s)") (auto simp: ld_step_def Let_def ld_index_def bind_eq_Some_conv c_int split: if_splits)
qed

lemma ld_index_step:
  assumes "os_step cfg files heap s s'" "ld_index cfg s" "conf_loads P heap cfg files"
  shows "ld_index cfg s'"
  using assms(1)
proof cases
  case (cpu i)
  from ld_index_cpu [OF cpu(3)] assms(2) show ?thesis by (simp add: ld_index_def)
next
  case (loader b)
  then show ?thesis using ld_index_ld assms(2,3) by blast
qed (use assms(2) in \<open>simp_all add: ld_index_def\<close>)

lemma ld_index_steps:
  "os_steps cfg files heap s s' \<Longrightarrow> ld_index cfg s \<Longrightarrow> conf_loads P heap cfg files \<Longrightarrow> ld_index cfg s'"
  by (induction rule: os_steps.induct) (auto intro: ld_index_step)

text \<open>The process the loader works on is live.\<close>

lemma ld_holds:
  assumes "os_inv cfg s" "l_proc (o_ld s) \<noteq> 0"
  obtains x where "k_pcbs (o_kernel s) (l_proc (o_ld s)) = Some x"
  using assms by (auto simp: os_inv_def pool_inv_def held_def)

lemma ld_add_defined:
  assumes inv: "os_inv cfg s" and procs: "os_procs_ok s" and loc: "l_loc (o_ld s) = L_add"
    and i: "is_cint (l_i (o_ld s) + 1)"
  shows "ld_step cfg files b n s \<noteq> None"
proof -
  let ?k = "o_kernel s" and ?p = "l_proc (o_ld s)"
  have "?p \<noteq> 0" using loc inv by (simp add: os_inv_def ld_ok_def)
  then obtain x where x: "k_pcbs ?k ?p = Some x" using ld_holds [OF inv] by blast
  obtain m where m: "init_mm (lb_mm b) (lb_pgd b) (lb_freerg b) = Some (0, m)" by (simp add: init_mm_eq)
  define y where "y = x\<lparr>mm := Some m\<rparr>"
  have "sched_ok (k_pcbs ?k) (k_sched ?k)" using inv by (simp add: os_inv_def pool_inv_def ss_ok_def)
  then have "sched_ok ((k_pcbs ?k)(?p \<mapsto> y)) (k_sched ?k)" by (rule sched_ok_dom) auto
  moreover have "uint (prio y) < 140" using procs x by (simp add: procs_ok_def y_def)
  ultimately obtain st sc where "put_proc ((k_pcbs ?k)(?p \<mapsto> y)) (k_sched ?k) ?p = Some (st, sc)"
    using put_proc_spec [of "(k_pcbs ?k)(?p \<mapsto> y)" "k_sched ?k" ?p y] by (metis fun_upd_same)
  then show ?thesis using loc x m i by (simp add: ld_step_def Let_def add_proc_eq_put_proc y_def c_int)
qed

lemma ld_dev_defined:
  assumes "dev_ids (p_timer (o_time s)) n = Some d" "l_loc (o_ld s) \<notin> {L_load, L_wait, L_add}"
  shows "ld_step cfg files b n s \<noteq> None"
  using assms
  by (cases "l_loc (o_ld s)") (simp_all add: ld_step_def Let_def dev_enter_def dev_detach_def next_slot_enter_def
      next_slot_returns_def detach_event_def)

lemma ld_step_defined:
  assumes inv: "os_inv cfg s" and procs: "os_procs_ok s" and index: "ld_index cfg s"
    and conf: "conf_loads P heap cfg files" "heap b"
  shows "ld_step cfg files b (length (o_cpus s)) s \<noteq> None"
proof -
  let ?l = "o_ld s" and ?n = "length (o_cpus s)"
  obtain slot where "protocol_ok (o_time s) slot" "dev_list (p_timer (o_time s)) = rev [0..<Suc ?n]"
    using inv by (auto simp: os_inv_def)
  then have "?n \<in> dom (dev_ids (p_timer (o_time s)))" by (simp add: protocol_ok_def)
  then obtain d where d: "dev_ids (p_timer (o_time s)) ?n = Some d" by blast
  have i: "0 \<le> l_i ?l" using index by (simp add: ld_index_def)
  consider (load) "l_loc ?l = L_load" | (wait) "l_loc ?l = L_wait" | (add) "l_loc ?l = L_add"
    | (other) "l_loc ?l \<notin> {L_load, L_wait, L_add}" by blast
  then show ?thesis
  proof cases
    case load
    show ?thesis
    proof (cases "l_i ?l < num_processes cfg")
      case True
      from conf_lines [OF conf(1) i True] obtain pth pr where l: "arr_get (ld_path cfg) (l_i ?l) = Some pth"
        "pth \<in> set (ld_path cfg)" "arr_get (ld_prio cfg) (l_i ?l) = Some pr" by metis
      from conf_load [OF conf(1) l(2) conf(2)] obtain x m where
        "load files (lb_pcb b) (lb_pt b) (lb_code b) (lb_text b) (o_pid s) pth = Inr (x, m)" by metis
      then show ?thesis using load True l by (simp add: ld_step_def Let_def)
    next
      case False
      with load show ?thesis by (simp add: ld_step_def Let_def)
    qed
  next
    case wait
    then have "l_i ?l < num_processes cfg" using index by (simp add: ld_index_def)
    from conf_lines [OF conf(1) i this] obtain st where "arr_get (ld_start_time cfg) (l_i ?l) = Some st" by metis
    then show ?thesis using wait d by (simp add: ld_step_def Let_def dev_enter_def next_slot_enter_def)
  next
    case add
    then have "is_cint (l_i ?l + 1)" using i index conf(1) by (simp add: ld_index_def conf_loads_def is_cint_def)
    then show ?thesis by (rule ld_add_defined [OF inv procs add])
  next
    case other
    then show ?thesis using ld_dev_defined d by blast
  qed
qed

lemma timer_step_defined:
  assumes "protocol_ok p slot"
  shows "timer_step (p_timer p) \<noteq> None"
proof -
  have dom: "dom (dev_ids (p_timer p)) = set (dev_list (p_timer p))" and loc: "loc_ok p"
    using assms by (simp_all add: protocol_ok_def)
  have "\<exists>x. dev_ids (p_timer p) i = Some x" if "i \<in> set (dev_list (p_timer p))" for i
    using that dom by blast
  note live = this
  show ?thesis
  proof (cases "t_loc (p_timer p)")
    case (T_check temp fsh event)
    then show ?thesis using loc live by (cases temp) (force simp: timer_step_def loc_ok_def)+
  next
    case (T_release temp fsh event)
    then show ?thesis using loc live by (cases temp) (force simp: timer_step_def loc_ok_def)+
  qed (simp_all add: timer_step_def)
qed

lemma threads_progress:
  assumes "os_start cfg ram0 swp0 sched0 = Some s0" "static_sched sched0" "0 < time_slot cfg" "is_cint (time_slot cfg)"
    and "conf_prios cfg" "conf_loads (\<lambda>_. True) all cfg files" "\<forall>b. heap b \<longrightarrow> all b" "os_steps cfg files heap s0 s"
  shows "\<not> o_exit s \<and> (\<forall>b. all b \<longrightarrow> ld_step cfg files b (length (o_cpus s)) s \<noteq> None) \<and> timer_step (p_timer (o_time s)) \<noteq> None \<and>
    (\<forall>i < length (o_cpus s). cpu_step cfg i s = None \<longrightarrow>
      c_loc (o_cpus s ! i) = C_run \<and> run (o_kernel s) (c_proc (o_cpus s ! i)) = None)"
proof -
  from reachable_ok [OF assms(1-3,5,8)] have inv: "os_inv cfg s" "os_procs_ok s" by simp_all
  have "ld_index cfg s0" using os_start_inv [OF assms(1-3)] by (simp add: ld_index_def)
  then have index: "ld_index cfg s" using ld_index_steps [OF assms(8)] conf_loads_less [OF assms(6,7)] by blast
  moreover have "timer_step (p_timer (o_time s)) \<noteq> None"
    using inv(1) timer_step_defined unfolding os_inv_def by blast
  moreover have "c_loc (o_cpus s ! i) = C_run \<and> run (o_kernel s) (c_proc (o_cpus s ! i)) = None"
    if "i < length (o_cpus s)" "cpu_step cfg i s = None" for i
    using cpu_step_defined [OF inv that(1) assms(4)] that(2) by blast
  moreover have "\<not> o_exit s" using index by (simp add: ld_index_def)
  ultimately show ?thesis using ld_step_defined [OF inv index assms(6)] by blast
qed

text \<open>
  C13. No thread is stuck: with a process file in the loader's format for every configured process and
  priorities that are numbers of ready queues, in every state the simulator can reach it has not given
  up, the loader has a next step, whatever \<open>malloc\<close> returns to it, the timer has a next step, and so has
  every CPU whose instruction is defined.
\<close>

theorem no_thread_stuck:
  assumes "os_start cfg ram0 swp0 sched0 = Some s0" "static_sched sched0" "0 < time_slot cfg" "is_cint (time_slot cfg)"
    and "conf_prios cfg" "conf_files (\<lambda>_. True) cfg files" "os_steps cfg files heap s0 s"
  shows "\<not> o_exit s \<and> (\<forall>b. ld_step cfg files b (length (o_cpus s)) s \<noteq> None) \<and> timer_step (p_timer (o_time s)) \<noteq> None \<and>
    (\<forall>i < length (o_cpus s). cpu_step cfg i s = None \<longrightarrow>
      c_loc (o_cpus s ! i) = C_run \<and> run (o_kernel s) (c_proc (o_cpus s ! i)) = None)"
  using threads_progress [OF assms(1-5) conf_files_loads [OF assms(6)] _ assms(7), of any_heap] by simp

subsection \<open>Zeroed blocks and tame programs\<close>

definition zeroed :: "ld_blocks \<Rightarrow> bool" where
  "zeroed b \<longleftrightarrow> list_all (\<lambda>e. e = 0) (lb_pgd b) \<and> fifo_pgn (lb_mm b) = PgNull \<and> lb_freerg b = RgNull \<and>
    list_all (\<lambda>r. rg_start r = 0 \<and> rg_end r = 0) (symrgtbl (lb_mm b))"

definition quiet_kernel :: "devs \<Rightarrow> kernel \<Rightarrow> bool" where
  "quiet_kernel d k \<longleftrightarrow> k_devs k = d \<and> (\<forall>p x. k_pcbs k p = Some x \<longrightarrow> quiet_proc x)"

lemma quiet_fields: "quiet_proc (link_queues x) = quiet_proc x" "quiet_proc (x\<lparr>prio := n\<rparr>) = quiet_proc x"
  by (simp_all add: quiet_proc_def link_queues_def)

lemma quiet_put:
  assumes "put_proc (k_pcbs k) sc p = Some (st, sc')" "quiet_kernel d k"
  shows "quiet_kernel d (k\<lparr>k_pcbs := st\<rparr>)"
proof -
  from assms(1) obtain x where "k_pcbs k p = Some x" "st = (k_pcbs k)(p \<mapsto> link_queues x)"
    by (auto simp: put_proc_def bind_eq_Some_conv Let_def)
  with assms(2) show ?thesis by (auto simp: quiet_kernel_def quiet_fields)
qed

lemma quiet_new: "quiet_kernel d k \<Longrightarrow> quiet_proc x \<Longrightarrow> quiet_kernel d (k\<lparr>k_pcbs := (k_pcbs k)(p \<mapsto> x)\<rparr>)"
  by (simp add: quiet_kernel_def)

lemma quiet_free_proc: "quiet_kernel d k \<Longrightarrow> quiet_kernel d (k\<lparr>k_pcbs := (k_pcbs k)(p := None)\<rparr>)"
  by (simp add: quiet_kernel_def)

lemma quiet_sched: "quiet_kernel d (k\<lparr>k_sched := sc\<rparr>) = quiet_kernel d k"
  by (simp add: quiet_kernel_def)

text \<open>A CPU that is about to run an instruction can, and the machine stays quiet.\<close>

lemma quiet_cpu_run:
  assumes inv: "os_inv cfg s" and procs: "os_procs_ok s" and quiet: "quiet_kernel d (o_kernel s)"
    and i: "i < length (o_cpus s)" "c_loc (o_cpus s ! i) = C_run"
  obtains r k where "run (o_kernel s) (c_proc (o_cpus s ! i)) = Some (r, k)" "quiet_kernel d k"
proof -
  let ?p = "c_proc (o_cpus s ! i)"
  have p: "?p \<noteq> 0" using inv i by (simp add: os_inv_def cpu_ok_def)
  from cpu_holds [OF inv i(1) p] obtain x where x: "k_pcbs (o_kernel s) ?p = Some x" "?p \<noteq> l_proc (o_ld s)" by blast
  then have "quiet_proc x" "pcb_wf x" "mm x \<noteq> None" using procs quiet by (auto simp: procs_ok_def quiet_kernel_def)
  from quiet_run [OF x(1) this] obtain r x' where
    "run (o_kernel s) ?p = Some (r, (o_kernel s)\<lparr>k_pcbs := (k_pcbs (o_kernel s))(?p \<mapsto> x')\<rparr>)" "quiet_proc x'" .
  then show thesis using that quiet_new [OF quiet] by blast
qed

lemma quiet_cpu_step:
  assumes "cpu_step cfg i s = Some s'" "os_inv cfg s" "os_procs_ok s" "quiet_kernel d (o_kernel s)" "i < length (o_cpus s)"
  shows "quiet_kernel d (o_kernel s')"
proof (cases "c_loc (o_cpus s ! i)")
  case C_top
  then show ?thesis using assms(1,4)
    by (auto simp: cpu_step_def Let_def bind_eq_Some_conv quiet_sched quiet_free_proc elim: quiet_put split: if_splits)
next
  case C_run
  from quiet_cpu_run [OF assms(2-5) this] obtain r k where
    "run (o_kernel s) (c_proc (o_cpus s ! i)) = Some (r, k)" "quiet_kernel d k" .
  with C_run assms(1) show ?thesis by (auto simp: cpu_step_def Let_def bind_eq_Some_conv)
qed (use assms(1,4) in \<open>auto simp: cpu_step_def Let_def bind_eq_Some_conv quiet_sched split: if_splits\<close>)

lemma quiet_load:
  assumes "conf_loads tame heap cfg files" "pth \<in> set (ld_path cfg)" "heap b" "mm (lb_pcb b) = None"
    and "load files (lb_pcb b) (lb_pt b) (lb_code b) (lb_text b) avail pth = Inr (x, n)"
  shows "quiet_proc x"
proof -
  from conf_load [OF assms(1-3), of avail] assms(5) have "list_all tame (cs_text (code x))" by (metis sum.inject(2) prod.inject)
  then show ?thesis using load_fields(2) [OF assms(5)] assms(4) by (simp add: quiet_proc_def)
qed

lemma quiet_ld_step:
  assumes "ld_step cfg files b n s = Some s'" "quiet_kernel d (o_kernel s)" "conf_loads tame heap cfg files" "blocks_ok b" "zeroed b" "heap b"
  shows "quiet_kernel d (o_kernel s')"
proof (cases "l_loc (o_ld s)")
  case L_load
  with assms(1) show ?thesis
  proof (cases rule: ld_load_cases)
    case (loaded pth x pid' pr)
    have "pth \<in> set (ld_path cfg)" using loaded(4) by (auto simp: arr_simps)
    from quiet_load [OF assms(3) this assms(6) _ loaded(2)] assms(4) have "quiet_proc x" by (simp add: blocks_ok_def)
    then show ?thesis using quiet_new [OF assms(2)] by (simp add: loaded(3) quiet_fields)
  qed (use assms(2) in simp_all)
next
  case L_add
  let ?k = "o_kernel s" and ?p = "l_proc (o_ld s)"
  from assms(1) L_add obtain x where x: "k_pcbs ?k ?p = Some x"
    by (auto simp: ld_step_def Let_def bind_eq_Some_conv)
  obtain m where m: "init_mm (lb_mm b) (lb_pgd b) (lb_freerg b) = Some (0, m)" by (simp add: init_mm_eq)
  define pcbs where "pcbs = (k_pcbs ?k)(?p \<mapsto> x\<lparr>mm := Some m\<rparr>)"
  obtain st sc where put: "put_proc pcbs (k_sched ?k) ?p = Some (st, sc)"
    using assms(1) L_add x m
    by (cases "put_proc pcbs (k_sched ?k) ?p") (auto simp: ld_step_def Let_def add_proc_eq_put_proc pcbs_def)
  then have k': "k_pcbs (o_kernel s') = st" "k_devs (o_kernel s') = k_devs ?k"
    using assms(1) L_add x m by (auto simp: ld_step_def Let_def add_proc_eq_put_proc pcbs_def bind_eq_Some_conv)
  have "quiet_mm m"
    using quiet_init_mm [of "lb_pgd b" "lb_mm b" 0 m] m assms(4,5) by (simp add: zeroed_def blocks_ok_def list_all_iff)
  moreover have "quiet_proc x" using assms(2) x unfolding quiet_kernel_def by blast
  ultimately have "quiet_proc (x\<lparr>mm := Some m\<rparr>)" by (simp add: quiet_proc_def)
  from quiet_new [OF assms(2) this, of ?p] have "quiet_kernel d (?k\<lparr>k_pcbs := pcbs\<rparr>)" by (simp add: pcbs_def)
  from quiet_put [OF _ this] put k' show ?thesis by (simp add: quiet_kernel_def)
qed (use assms(1,2) in \<open>auto simp: ld_step_def Let_def bind_eq_Some_conv split: if_splits\<close>)

lemma quiet_step:
  assumes "os_step cfg files heap s s'" "os_inv cfg s" "os_procs_ok s" "quiet_kernel d (o_kernel s)"
    "conf_loads tame heap cfg files" "\<forall>b. heap b \<longrightarrow> zeroed b"
  shows "quiet_kernel d (o_kernel s')"
  using assms(1)
proof cases
  case (cpu i)
  then show ?thesis using quiet_cpu_step assms(2-4) by blast
next
  case (loader b)
  then show ?thesis using quiet_ld_step assms(4-6) by blast
qed (use assms(4) in simp_all)

lemma quiet_steps:
  assumes "os_steps cfg files heap s0 s" "os_inv cfg s0" "os_procs_ok s0" "0 < time_slot cfg" "conf_prios cfg"
    "quiet_kernel d (o_kernel s0)" "conf_loads tame heap cfg files" "\<forall>b. heap b \<longrightarrow> zeroed b"
  shows "quiet_kernel d (o_kernel s)"
  using assms
proof (induction rule: os_steps.induct)
  case (more s s1 s2)
  then have "os_inv cfg s1" "os_procs_ok s1" using os_steps_inv procs_steps by blast+
  with more show ?case using quiet_step by blast
qed simp

lemma tame_run:
  assumes "os_start cfg ram0 swp0 sched0 = Some s0" "static_sched sched0" "0 < time_slot cfg" "is_cint (time_slot cfg)"
    and "conf_prios cfg" "conf_loads tame heap cfg files" "\<forall>b. heap b \<longrightarrow> zeroed b" "os_steps cfg files heap s0 s"
  shows "k_devs (o_kernel s) = k_devs (o_kernel s0) \<and> (\<forall>i < length (o_cpus s). cpu_step cfg i s \<noteq> None) \<and>
    (\<forall>p x m v. k_pcbs (o_kernel s) p = Some x \<and> mm x = Some m \<longrightarrow> \<not> present (pgd m) v)"
proof -
  note start = os_start_inv [OF assms(1-3)]
  from reachable_ok [OF assms(1-3,5,8)] have inv: "os_inv cfg s" "os_procs_ok s" by simp_all
  have "quiet_kernel (k_devs (o_kernel s0)) (o_kernel s)"
    using quiet_steps [OF assms(8) _ _ assms(3,5) _ assms(6,7)] start by (simp add: quiet_kernel_def)
  note quiet = this
  have "cpu_step cfg i s \<noteq> None" if i: "i < length (o_cpus s)" for i
    using cpu_step_defined [OF inv i assms(4)] quiet_cpu_run [OF inv quiet i] by blast
  moreover have "\<not> present (pgd m) v" if "k_pcbs (o_kernel s) p = Some x" "mm x = Some m" for p x m v
  proof -
    have "quiet_proc x" using that(1) quiet unfolding quiet_kernel_def by blast
    from quiet_proc_mm [OF this that(2)] show ?thesis by (simp add: quiet_mm_def)
  qed
  ultimately show ?thesis using quiet by (auto simp: quiet_kernel_def)
qed

text \<open>
  C8. Zeroed memory: if \<open>malloc\<close> returns zeroed blocks and the configured programs are tame, the whole
  simulator runs without an undefined step and without paging. In every reachable state each CPU has a
  next step, no process has a page, and RAM, swap and their free lists are as \<open>main\<close> set them up: every
  \<open>ALLOC\<close> is answered with address -1, every \<open>READ\<close> and \<open>WRITE\<close> comes to nothing.
\<close>

theorem tame_run_never_pages:
  assumes "os_start cfg ram0 swp0 sched0 = Some s0" "static_sched sched0" "0 < time_slot cfg" "is_cint (time_slot cfg)"
    and "conf_prios cfg" "conf_files tame cfg files" "os_steps cfg files zeroed s0 s"
  shows "k_devs (o_kernel s) = k_devs (o_kernel s0) \<and> (\<forall>i < length (o_cpus s). cpu_step cfg i s \<noteq> None) \<and>
    (\<forall>p x m v. k_pcbs (o_kernel s) p = Some x \<and> mm x = Some m \<longrightarrow> \<not> present (pgd m) v)"
  using tame_run [OF assms(1-5) conf_files_loads [OF assms(6) tame_same] _ assms(7)] by simp

subsection \<open>A small run\<close>

definition quiet_program :: "inst_t list" where
  "quiet_program = [
     \<lparr>opcode = ALLOC, arg_0 = 300, arg_1 = 0, arg_2 = 0, arg_3 = 0\<rparr>,
     \<lparr>opcode = WRITE, arg_0 = 100, arg_1 = 0, arg_2 = 20, arg_3 = 0\<rparr>,
     \<lparr>opcode = READ, arg_0 = 0, arg_1 = 20, arg_2 = 20, arg_3 = 0\<rparr>,
     \<lparr>opcode = FREE, arg_0 = 0, arg_1 = 0, arg_2 = 0, arg_3 = 0\<rparr>,
     \<lparr>opcode = SYSCALL, arg_0 = 440, arg_1 = 1, arg_2 = 2, arg_3 = 3\<rparr>]"

definition quiet_files :: "string \<Rightarrow> string option" where
  "quiet_files = [''p0'' \<mapsto> show_program 20 quiet_program]"

lemma quiet_program_ok: "\<forall>ins \<in> set quiet_program. printable ins \<and> tame ins" "length quiet_program = 5"
  by (simp_all add: quiet_program_def printable_def used_args_def tame_def tame_var_def tame_call_def int_of_u32_def
      PAGING_MAX_SYMTBL_SZ_def is_cint_def)

lemma quiet_conf:
  "conf_files tame demo_config quiet_files" "conf_files (\<lambda>_. True) demo_config quiet_files"
  "is_cint (time_slot demo_config)" "conf_prios demo_config"
proof -
  have "quiet_files ''p0'' = Some (show_program 20 quiet_program)" by (simp add: quiet_files_def)
  with quiet_program_ok show "conf_files tame demo_config quiet_files" "conf_files (\<lambda>_. True) demo_config quiet_files"
    unfolding conf_files_def demo_config_def by (fastforce simp: is_cint_def)+
qed (simp_all add: demo_config_def is_cint_def conf_prios_def)

lemma quiet_blocks: "zeroed demo_blocks" "zeroed (demo_blocks\<lparr>lb_ptr := 6\<rparr>)"
  by (simp_all add: zeroed_def demo_blocks_def blank_mm_def list_all_iff)

text \<open>The program is loaded and on a CPU in a state the simulator can reach.\<close>

lemma quiet_demo_run:
  obtains s0 s x where "os_start demo_config blank_memphy demo_swaps blank_sched = Some s0"
    "os_steps demo_config quiet_files zeroed s0 s" "length (o_cpus s) = 2" "c_proc (o_cpus s ! 0) = 5"
    "k_pcbs (o_kernel s) 5 = Some x" "length (cs_text (code x)) = 5"
proof -
  obtain s0 where s0: "os_start demo_config blank_memphy demo_swaps blank_sched = Some s0" by (rule demo_start)
  have f: "quiet_files ''p0'' = Some (show_program 20 quiet_program)" by (simp add: quiet_files_def)
  have p: "\<forall>ins \<in> set quiet_program. printable ins" "length quiet_program < 2 ^ 32" using quiet_program_ok by simp_all
  from load_show [where files = quiet_files, OF f p, of "lb_pcb demo_blocks" "lb_pt demo_blocks" "lb_code demo_blocks"
      "lb_text demo_blocks" "o_pid s0"] obtain x n where
    x: "load quiet_files (lb_pcb demo_blocks) (lb_pt demo_blocks) (lb_code demo_blocks) (lb_text demo_blocks) (o_pid s0) ''p0'' = Inr (x, n)"
    "list_all2 same_inst (cs_text (code x)) quiet_program" by blast
  from x(2) have "length (cs_text (code x)) = 5" using quiet_program_ok(2) list_all2_lengthD by fastforce
  with demo_run_file [where heap = zeroed, OF s0 quiet_blocks x(1)] s0 that show thesis by metis
qed

theorem tame_run_never_pages_witness:
  "\<exists>s0 s x. os_start demo_config blank_memphy demo_swaps blank_sched = Some s0 \<and>
    os_steps demo_config quiet_files zeroed s0 s \<and> c_proc (o_cpus s ! 0) = 5 \<and> k_pcbs (o_kernel s) 5 = Some x \<and>
    length (cs_text (code x)) = 5 \<and> k_devs (o_kernel s) = k_devs (o_kernel s0) \<and> cpu_step demo_config 0 s \<noteq> None"
proof -
  obtain s0 s x where s: "os_start demo_config blank_memphy demo_swaps blank_sched = Some s0"
    "os_steps demo_config quiet_files zeroed s0 s" "length (o_cpus s) = 2" "c_proc (o_cpus s ! 0) = 5"
    "k_pcbs (o_kernel s) 5 = Some x" "length (cs_text (code x)) = 5" by (rule quiet_demo_run)
  from tame_run_never_pages [OF s(1) demo_static demo_slot quiet_conf(3,4,1) s(2)] s show ?thesis by fastforce
qed

theorem no_thread_stuck_witness:
  "\<exists>s0 s. os_start demo_config blank_memphy demo_swaps blank_sched = Some s0 \<and>
    os_steps demo_config quiet_files zeroed s0 s \<and> c_proc (o_cpus s ! 0) = 5 \<and>
    ld_step demo_config quiet_files demo_blocks 2 s \<noteq> None \<and> timer_step (p_timer (o_time s)) \<noteq> None"
proof -
  obtain s0 s x where s: "os_start demo_config blank_memphy demo_swaps blank_sched = Some s0"
    "os_steps demo_config quiet_files zeroed s0 s" "length (o_cpus s) = 2" "c_proc (o_cpus s ! 0) = 5" by (rule quiet_demo_run)
  from no_thread_stuck [OF s(1) demo_static demo_slot quiet_conf(3,4,2) s(2)] s show ?thesis by metis
qed

end
