(* ===== verification/Config.thy ===== *)
theory Config
  imports Os_Safety
begin

text \<open>
  The configuration file of \<open>src/os.c\<close> and the start of the simulator: \<open>read_config\<close> parses the file with
  \<open>fscanf\<close> (modelled in \<open>Loader\<close>), \<open>boot\<close> is \<open>main\<close> up to the creation of the threads.

  The results of \<open>fscanf\<close> are ignored by the code: a static variable whose conversion fails keeps the 0
  it started with, a block from \<open>malloc\<close> keeps what it held (\<open>prio0\<close>), and the use of an unassigned
  \<open>start_time\<close> or \<open>proc\<close> and the overflow of an array of 100 characters are undefined.
\<close>

subsection \<open>\<open>read_config\<close>\<close>

text \<open>\<open>n\<close> calls of \<open>fscanf\<close> with the format \<open>%d\<close>, each on a static variable that holds 0.\<close>

fun scan_each :: "nat \<Rightarrow> string \<Rightarrow> load_error + (cint list \<times> string)" where
  "scan_each 0 s = Inr ([], s)"
| "scan_each (Suc n) s = and_then (scan_ints fits_signed 1 s)
    (\<lambda>(vs, rest). and_then (scan_each n rest) (\<lambda>(ws, rest'). Inr ((case vs of v # _ \<Rightarrow> v | [] \<Rightarrow> 0) # ws, rest')))"

text \<open>A call with \<open>n\<close> times \<open>%d\<close> and a final white space directive.\<close>

definition scan_statics :: "nat \<Rightarrow> string \<Rightarrow> load_error + (cint list \<times> string)" where
  "scan_statics n s = and_then (scan_ints fits_signed n s)
    (\<lambda>(vs, rest). Inr (vs @ replicate (n - length vs) 0, if length vs = n then skip_space rest else rest))"

definition fits_ulong :: "int \<Rightarrow> bool" where
  "fits_ulong v \<longleftrightarrow> - (2 ^ 64) < v \<and> v < 2 ^ 64"

text \<open>The line of a process: start time, name and, if there is one, priority.\<close>

definition conf_line :: "string \<Rightarrow> load_error + (u64 \<times> string \<times> u64 option \<times> string)" where
  "conf_line s = and_then (scan_ints fits_ulong 1 s) (\<lambda>(vs, r). case vs of
     [] \<Rightarrow> Inl Undefined
   | st # _ \<Rightarrow>
       let t = skip_space r; proc = takeWhile (\<lambda>c. \<not> is_space c) t; r' = dropWhile (\<lambda>c. \<not> is_space c) t in
       if proc = [] \<or> length proc > 99 then Inl Undefined
       else and_then (scan_ints fits_ulong 1 r') (\<lambda>(ws, r''). case ws of
           [] \<Rightarrow> Inr (word_of_int st, proc, None, r'')
         | pr # _ \<Rightarrow> Inr (word_of_int st, proc, Some (word_of_int pr), skip_space r'')))"

fun conf_loop :: "(nat \<Rightarrow> u64) \<Rightarrow> nat \<Rightarrow> nat \<Rightarrow> string \<Rightarrow> load_error + (string \<times> u64 \<times> u64) list" where
  "conf_loop prio0 i 0 s = Inr []"
| "conf_loop prio0 i (Suc n) s = and_then (conf_line s) (\<lambda>(st, proc, pr, rest).
     let pth = ''input/proc/'' @ proc in
     if length pth > 99 then Inl Undefined
     else and_then (conf_loop prio0 (Suc i) n rest)
       (\<lambda>ps. Inr ((pth, st, case pr of Some p \<Rightarrow> p | None \<Rightarrow> prio0 i) # ps)))"

definition read_config :: "(string \<Rightarrow> string option) \<Rightarrow> (nat \<Rightarrow> u64) \<Rightarrow> string \<Rightarrow> load_error + os_config" where
  "read_config files prio0 pth =
    (case files pth of
       None \<Rightarrow> Inl Exit_failure
     | Some s \<Rightarrow>
         and_then (scan_statics 3 s) (\<lambda>(hdr, s1).
         and_then (scan_statics 1 s1) (\<lambda>(ram, s2).
         and_then (scan_each (nat PAGING_MAX_MMSWP) s2) (\<lambda>(swp, s3).
         and_then (conf_loop prio0 0 (nat (hdr ! 2)) (skip_space s3)) (\<lambda>ps.
           Inr \<lparr>time_slot = hdr ! 0, num_cpus = hdr ! 1, num_processes = hdr ! 2, memramsz = ram ! 0, memswpsz = swp,
             ld_path = map fst ps, ld_start_time = map (fst \<circ> snd) ps, ld_prio = map (snd \<circ> snd) ps\<rparr>)))))"

subsection \<open>\<open>main\<close>\<close>

definition boot ::
  "(string \<Rightarrow> string option) \<Rightarrow> string list \<Rightarrow> (nat \<Rightarrow> u64) \<Rightarrow> memphy \<Rightarrow> memphy list \<Rightarrow> sched \<Rightarrow>
   load_error + (os_config \<times> os)" where
  "boot files argv prio0 ram0 swp0 sched0 =
    (case argv of
       [_, arg] \<Rightarrow>
         if length (''input/'' @ arg) > 99 then Inl Undefined
         else and_then (read_config files prio0 (''input/'' @ arg)) (\<lambda>cfg.
           case os_start cfg ram0 swp0 sched0 of None \<Rightarrow> Inl Undefined | Some s \<Rightarrow> Inr (cfg, s))
     | _ \<Rightarrow> Inl Exit_failure)"

subsection \<open>The file format, and reading it back\<close>

fun show_line :: "nat list \<Rightarrow> string" where
  "show_line [] = [CHR 0x0A]"
| "show_line (n # ns) = show_nat n @ show_nats ns @ [CHR 0x0A]"

definition show_proc :: "string \<times> u64 \<times> u64 \<Rightarrow> string" where
  "show_proc p = (case p of (pth, st, pr) \<Rightarrow>
     show_nat (unat st) @ CHR '' '' # drop (length ''input/proc/'') pth @ CHR '' '' # show_nat (unat pr) @ [CHR 0x0A])"

definition conf_procs :: "os_config \<Rightarrow> (string \<times> u64 \<times> u64) list" where
  "conf_procs cfg = zip (ld_path cfg) (zip (ld_start_time cfg) (ld_prio cfg))"

definition show_header :: "os_config \<Rightarrow> string" where
  "show_header cfg = show_line (map nat [time_slot cfg, num_cpus cfg, num_processes cfg])"

definition show_config :: "os_config \<Rightarrow> string" where
  "show_config cfg = show_header cfg @
     show_line (map nat (memramsz cfg # memswpsz cfg)) @ concat (map show_proc (conf_procs cfg))"

text \<open>What a configuration file can express.\<close>

definition expressible_path :: "string \<Rightarrow> bool" where
  "expressible_path pth \<longleftrightarrow> (\<exists>name. pth = ''input/proc/'' @ name \<and> name \<noteq> [] \<and> length name \<le> 88 \<and>
     (\<forall>c \<in> set name. \<not> is_space c))"

definition expressible :: "os_config \<Rightarrow> bool" where
  "expressible cfg \<longleftrightarrow>
     (\<forall>v \<in> set (time_slot cfg # num_cpus cfg # num_processes cfg # memramsz cfg # memswpsz cfg). 0 \<le> v \<and> v < 2 ^ 31) \<and>
     length (memswpsz cfg) = 4 \<and> length (ld_path cfg) = nat (num_processes cfg) \<and>
     length (ld_start_time cfg) = length (ld_path cfg) \<and> length (ld_prio cfg) = length (ld_path cfg) \<and>
     (\<forall>pth \<in> set (ld_path cfg). expressible_path pth)"

lemma skip_space_simps [simp]:
  "skip_space [] = []" "is_space c \<Longrightarrow> skip_space (c # s) = skip_space s" "\<not> is_space c \<Longrightarrow> skip_space (c # s) = c # s"
  by (simp_all add: skip_space_def)

lemma newline_facts [simp]: "is_space (CHR 0x0A)" "is_space (CHR '' '')" "\<not> is_digit (CHR 0x0A)" "\<not> is_digit (CHR '' '')"
  by (simp_all add: is_space_def is_digit_def)

lemma scan_ints_space:
  assumes "0 < n" "is_space c"
  shows "scan_ints P n (c # s) = scan_ints P n s"
  using assms by (cases n) (simp_all add: scan_number_def)

lemma scan_each_skip: "0 < n \<Longrightarrow> scan_each n (skip_space s) = scan_each n s"
proof -
  have "scan_number (skip_space s) = scan_number s" by (simp add: scan_number_def skip_space_def)
  then show "0 < n \<Longrightarrow> scan_each n (skip_space s) = scan_each n s" by (cases n) simp_all
qed

lemma scan_ints_line:
  assumes "\<forall>m \<in> set (n # ns). P (int m)" "\<not> is_digit c"
  shows "scan_ints P (Suc (length ns)) (show_nat n @ show_nats ns @ c # rest) = Inr (map int (n # ns), c # rest)"
  using scan_ints_show [of "n # ns" P c rest] assms scan_ints_space [of "Suc (length ns)" "CHR '' ''"] by simp

lemma skip_show_nat: "skip_space (show_nat n @ s) = show_nat n @ s"
proof -
  obtain d ds where d: "show_nat n = d # ds" using show_nat_not_Nil [of n] by (cases "show_nat n") auto
  then have "is_digit d" using show_nat_digits [of n] by auto
  with d digit_not_space show ?thesis by simp
qed

lemma skip_show_procs: "skip_space (concat (map show_proc ps)) = concat (map show_proc ps)"
  by (cases ps) (simp_all add: show_proc_def skip_show_nat split: prod.split)

lemma conf_line_show:
  assumes "expressible_path pth"
  shows "\<exists>name. pth = ''input/proc/'' @ name \<and> length pth \<le> 99 \<and>
    conf_line (show_proc (pth, st, pr) @ rest) = Inr (st, name, Some pr, skip_space rest)"
proof -
  from assms obtain name where n: "pth = ''input/proc/'' @ name" "name \<noteq> []" "length name \<le> 88" "\<forall>c \<in> set name. \<not> is_space c"
    unfolding expressible_path_def by blast
  have "uint st < 2 ^ 64" "uint pr < 2 ^ 64" using unsigned_less [of st] unsigned_less [of pr] by simp_all
  then have f: "fits_ulong (int (unat st))" "fits_ulong (int (unat pr))" by (simp_all add: fits_ulong_def less_le_trans [of _ 0])
  let ?tail = "show_nat (unat pr) @ CHR 0x0A # rest"
  have a: "scan_ints fits_ulong 1 (show_nat (unat st) @ CHR '' '' # name @ CHR '' '' # ?tail) =
      Inr ([int (unat st)], CHR '' '' # name @ CHR '' '' # ?tail)"
    using scan_ints_line [of "unat st" "[]" fits_ulong "CHR '' ''"] f by simp
  have "skip_space (name @ CHR '' '' # ?tail) = name @ CHR '' '' # ?tail" using n(2,4) by (cases name) simp_all
  moreover have "takeWhile (\<lambda>c. \<not> is_space c) (name @ CHR '' '' # ?tail) = name"
    "dropWhile (\<lambda>c. \<not> is_space c) (name @ CHR '' '' # ?tail) = CHR '' '' # ?tail"
    using n(4) by (simp_all add: takeWhile_append dropWhile_append)
  moreover have "scan_ints fits_ulong 1 (CHR '' '' # ?tail) = Inr ([int (unat pr)], CHR 0x0A # rest)"
    using scan_ints_show [of "[unat pr]" fits_ulong "CHR 0x0A" rest] f by simp
  ultimately have "conf_line (show_proc (pth, st, pr) @ rest) = Inr (st, name, Some pr, skip_space rest)"
    using a n(1-3) by (simp add: conf_line_def show_proc_def Let_def)
  with n(1,3) show ?thesis by simp
qed

lemma conf_loop_show:
  assumes "\<forall>p \<in> set ps. expressible_path (fst p)"
  shows "conf_loop prio0 i (length ps) (concat (map show_proc ps)) = Inr ps"
  using assms
proof (induction ps arbitrary: i)
  case (Cons p ps)
  obtain pth st pr where p: "p = (pth, st, pr)" by (cases p)
  from conf_line_show [of pth st pr "concat (map show_proc ps)"] Cons.prems obtain name where
    "pth = ''input/proc/'' @ name" "length pth \<le> 99"
    "conf_line (concat (map show_proc (p # ps))) = Inr (st, name, Some pr, concat (map show_proc ps))"
    by (auto simp: p skip_show_procs)
  moreover have "conf_loop prio0 (Suc i) (length ps) (concat (map show_proc ps)) = Inr ps" using Cons by simp
  ultimately show ?case by (simp add: p Let_def del: list.map concat.simps)
qed simp

lemma scan_each_show:
  assumes "\<forall>n \<in> set ns. fits_signed (int n)" "\<not> is_digit c"
  shows "scan_each (length ns) (show_nats ns @ c # rest) = Inr (map int ns, c # rest)"
  using assms(1)
proof (induction ns)
  case (Cons n ns)
  obtain c' rest' where r: "show_nats ns @ c # rest = c' # rest'" "\<not> is_digit c'"
    using assms(2) by (cases ns) auto
  show ?case
    using scan_ints_show [of "[n]" fits_signed c' rest'] Cons r by simp
qed simp

lemma expressible_fits:
  assumes "expressible cfg" "v \<in> set (time_slot cfg # num_cpus cfg # num_processes cfg # memramsz cfg # memswpsz cfg)"
  shows "0 \<le> v" "fits_signed v"
  using assms unfolding expressible_def fits_signed_def by force+

text \<open>The header may announce any number of processes, whatever lines follow.\<close>

definition show_announcing :: "cint \<Rightarrow> os_config \<Rightarrow> string" where
  "show_announcing n cfg = show_line (map nat [time_slot cfg, num_cpus cfg, n])"

lemma scan_announcing:
  assumes "expressible cfg" "0 \<le> n" "n < 2 ^ 31"
  shows "scan_statics 3 (show_announcing n cfg @ rest) = Inr ([time_slot cfg, num_cpus cfg, n], skip_space rest)"
proof -
  note num = expressible_fits [OF assms(1), of "time_slot cfg"] expressible_fits [OF assms(1), of "num_cpus cfg"]
  have "fits_signed n" using assms(2,3) by (simp add: fits_signed_def)
  then have "scan_ints fits_signed 3 (show_announcing n cfg @ rest) = Inr ([time_slot cfg, num_cpus cfg, n], CHR 0x0A # rest)"
    using scan_ints_line [of "nat (time_slot cfg)" "[nat (num_cpus cfg), nat n]" fits_signed "CHR 0x0A" rest] num assms(2)
    by (simp add: show_announcing_def numeral_3_eq_3)
  then show ?thesis by (simp add: scan_statics_def)
qed

lemma show_header_announcing: "show_header cfg = show_announcing (num_processes cfg) cfg"
  by (simp add: show_header_def show_announcing_def)

lemma expressible_count: "expressible cfg \<Longrightarrow> 0 \<le> num_processes cfg \<and> num_processes cfg < 2 ^ 31"
  by (simp add: expressible_def)

lemma scan_header:
  assumes "expressible cfg"
  shows "scan_statics 3 (show_header cfg @ rest) = Inr ([time_slot cfg, num_cpus cfg, num_processes cfg], skip_space rest)"
  using scan_announcing [OF assms] expressible_count [OF assms] by (simp add: show_header_announcing)

lemma conf_procs_fields:
  assumes "expressible cfg"
  shows "length (conf_procs cfg) = nat (num_processes cfg)" "map fst (conf_procs cfg) = ld_path cfg"
    "map (fst \<circ> snd) (conf_procs cfg) = ld_start_time cfg" "map (snd \<circ> snd) (conf_procs cfg) = ld_prio cfg"
    "conf_loop prio0 0 (nat (num_processes cfg)) (concat (map show_proc (conf_procs cfg))) = Inr (conf_procs cfg)"
proof -
  have len: "length (ld_path cfg) = nat (num_processes cfg)" "length (ld_start_time cfg) = length (ld_path cfg)"
    "length (ld_prio cfg) = length (ld_path cfg)" using assms by (simp_all add: expressible_def)
  then show n: "length (conf_procs cfg) = nat (num_processes cfg)" "map fst (conf_procs cfg) = ld_path cfg"
    "map (fst \<circ> snd) (conf_procs cfg) = ld_start_time cfg" "map (snd \<circ> snd) (conf_procs cfg) = ld_prio cfg"
    by (simp_all add: conf_procs_def flip: map_map)
  have "\<forall>p \<in> set (conf_procs cfg). expressible_path (fst p)"
    using assms unfolding expressible_def conf_procs_def by (auto dest: set_zip_leftD)
  with conf_loop_show [of "conf_procs cfg" prio0 0] n(1)
  show "conf_loop prio0 0 (nat (num_processes cfg)) (concat (map show_proc (conf_procs cfg))) = Inr (conf_procs cfg)" by simp
qed

text \<open>The lines above those of the processes are read as stated; the rest is left to the loop.\<close>

lemma read_config_lines:
  assumes "expressible cfg" "0 \<le> n" "n < 2 ^ 31"
    and "files pth = Some (show_announcing n cfg @ show_line (map nat (memramsz cfg # memswpsz cfg)) @ body)"
  shows "read_config files prio0 pth = and_then (conf_loop prio0 0 (nat n) (skip_space body)) (\<lambda>ps.
    Inr \<lparr>time_slot = time_slot cfg, num_cpus = num_cpus cfg, num_processes = n, memramsz = memramsz cfg, memswpsz = memswpsz cfg,
      ld_path = map fst ps, ld_start_time = map (fst \<circ> snd) ps, ld_prio = map (snd \<circ> snd) ps\<rparr>)"
proof -
  obtain w0 w1 w2 w3 where w: "memswpsz cfg = [w0, w1, w2, w3]"
    using assms(1) by (auto simp: expressible_def length_Suc_conv numeral_eq_Suc)
  let ?swaps = "show_nats (map nat (memswpsz cfg)) @ CHR 0x0A # body"
  let ?mem = "show_line (map nat (memramsz cfg # memswpsz cfg)) @ body"
  note nonneg = expressible_fits [OF assms(1)]
  note num = nonneg [of "memramsz cfg"]
  have a: "scan_statics 3 (show_announcing n cfg @ ?mem) = Inr ([time_slot cfg, num_cpus cfg, n], ?mem)"
    using scan_announcing [OF assms(1-3), of ?mem] by (simp add: skip_show_nat)
  have "scan_ints fits_signed 1 ?mem = Inr ([memramsz cfg], ?swaps)"
    using scan_ints_line [of "nat (memramsz cfg)" "[]" fits_signed "CHR '' ''"] num by (simp add: w)
  then have b: "scan_statics 1 ?mem = Inr ([memramsz cfg], skip_space ?swaps)" by (simp add: scan_statics_def)
  have "map int (map nat (memswpsz cfg)) = memswpsz cfg" by (rule nth_equalityI) (use nonneg(1) in \<open>auto simp: w\<close>)
  moreover have four: "nat PAGING_MAX_MMSWP = length (map nat (memswpsz cfg))" by (simp add: w PAGING_MAX_MMSWP_def)
  have "scan_each (length (map nat (memswpsz cfg))) ?swaps = Inr (map int (map nat (memswpsz cfg)), CHR 0x0A # body)"
    by (rule scan_each_show) (use nonneg in auto)
  moreover have "0 < length (map nat (memswpsz cfg))" by (simp add: w)
  ultimately have c: "scan_each (nat PAGING_MAX_MMSWP) (skip_space ?swaps) = Inr (memswpsz cfg, CHR 0x0A # body)"
    by (simp only: four scan_each_skip)
  from a b c assms(4) show ?thesis by (simp add: read_config_def)
qed

lemma read_config_show:
  assumes "expressible cfg" "files pth = Some (show_config cfg)"
  shows "read_config files prio0 pth = Inr cfg"
proof -
  have "files pth = Some (show_announcing (num_processes cfg) cfg @ show_line (map nat (memramsz cfg # memswpsz cfg)) @
      concat (map show_proc (conf_procs cfg)))"
    using assms(2) by (simp only: show_config_def show_header_announcing)
  from read_config_lines [where files = files and pth = pth, OF assms(1) _ _ this] expressible_count [OF assms(1)]
  show ?thesis using conf_procs_fields [OF assms(1)] by (simp add: skip_show_procs)
qed

text \<open>
  C17. Round trip of the configuration: every configuration that a file can express (numbers within
  \<open>int\<close>, four swap sizes, one non-blank name of at most 88 characters, start time and priority for
  each process) is what \<open>read_config\<close> reads from the file that states it, whatever \<open>malloc\<close> returned.
\<close>

theorem read_config_roundtrip:
  assumes "expressible cfg" "files pth = Some (show_config cfg)"
  shows "read_config files prio0 pth = Inr cfg"
  using assms by (rule read_config_show)

text \<open>A file of the repository's format, with one process.\<close>

definition small_config :: os_config where
  "small_config = \<lparr>time_slot = 2, num_cpus = 1, num_processes = 1, memramsz = 1024, memswpsz = [512, 0, 0, 0],
     ld_path = [''input/proc/s0''], ld_start_time = [4], ld_prio = [15]\<rparr>"

definition small_file :: string where
  "small_file = ''2 1 1'' @ [CHR 0x0A] @ ''1024 512 0 0 0'' @ [CHR 0x0A] @ ''4 s0 15'' @ [CHR 0x0A]"

lemma small_file_shows: "show_config small_config = small_file"
  by code_simp

lemma small_config_expressible: "expressible small_config"
  by (simp add: expressible_def small_config_def expressible_path_def is_space_def)

theorem read_config_roundtrip_witness:
  "read_config [''input/sched'' \<mapsto> small_file] (\<lambda>_. 0) ''input/sched'' = Inr small_config"
  using read_config_roundtrip [OF small_config_expressible, of "[''input/sched'' \<mapsto> small_file]" "''input/sched''" "\<lambda>_. 0"]
  by (simp add: small_file_shows)

text \<open>
  A name of 89 to 99 characters passes the conversion into \<open>proc\<close> and overflows the array of 100
  characters that \<open>strcat\<close> appends it to.
\<close>

lemma long_name_overflows:
  assumes "conf_line s = Inr (st, name, pr, rest)" "88 < length name"
  shows "conf_loop prio0 i (Suc n) s = Inl Undefined"
  using assms by simp

lemma init_swaps_defined:
  "\<forall>sz \<in> set szs. 0 \<le> sz \<Longrightarrow> \<exists>ms. init_swaps szs mps = Some ms \<and> length ms = min (length szs) (length mps)"
proof (induction szs arbitrary: mps)
  case (Cons sz szs)
  show ?case
  proof (cases mps)
    case (Cons mp mps')
    with Cons.IH [of mps'] Cons.prems obtain ms where "init_swaps szs mps' = Some ms" "length ms = min (length szs) (length mps')"
      by auto
    with Cons Cons.prems show ?thesis by (simp add: init_memphy_cases)
  qed simp
qed simp

text \<open>
  C16. The simulator boots: started with a configuration file that states an expressible configuration,
  \<open>main\<close> reads it, initialises the devices and the scheduler, and creates the threads in a state that is
  well formed, with every CPU idle, no process ready and the clock at 0.
\<close>

theorem boot_starts:
  assumes "expressible cfg" "files (''input/'' @ arg) = Some (show_config cfg)" "length arg \<le> 93"
    and "0 < time_slot cfg" "swp0 \<noteq> []" "static_sched sched0"
  shows "\<exists>s. boot files [prog, arg] prio0 ram0 swp0 sched0 = Inr (cfg, s) \<and>
    length (o_cpus s) = nat (num_cpus cfg) \<and> (\<forall>c \<in> set (o_cpus s). c_loc c = C_top \<and> c_proc c = 0) \<and>
    ready_procs (k_sched (o_kernel s)) = {#} \<and> current_time (p_timer (o_time s)) = 0 \<and> os_inv cfg s"
proof -
  have sz: "0 \<le> memramsz cfg" "\<forall>sz \<in> set (memswpsz cfg). 0 \<le> sz" "length (memswpsz cfg) = 4"
    using assms(1) by (simp_all add: expressible_def)
  from init_swaps_defined [OF sz(2), of swp0] sz(3) assms(5) obtain ms where
    ms: "init_swaps (memswpsz cfg) swp0 = Some ms" "0 < length ms" by (cases swp0) fastforce+
  obtain sc where "init_scheduler sched0 = Some sc"
    using init_scheduler_spec [of sched0] assms(6) unfolding static_sched_def by blast
  with ms obtain s where s: "os_start cfg ram0 swp0 sched0 = Some s"
    using sz(1) by (simp add: os_start_def init_memphy_cases arr_get_def Let_def)
  have "boot files [prog, arg] prio0 ram0 swp0 sched0 = Inr (cfg, s)"
    using assms(3) s read_config_show [where files = files and ?prio0.0 = prio0 and pth = "''input/'' @ arg", OF assms(1,2)] by (simp add: boot_def)
  moreover have "current_time (p_timer (o_time s)) = 0"
    using s started_eq [of "Suc (nat (num_cpus cfg))"]
    by (auto simp: os_start_def bind_eq_Some_conv Let_def current_time_def)
  ultimately show ?thesis using os_start_inv [OF s assms(6,4)] by auto
qed

theorem boot_starts_witness:
  "\<exists>s. boot [''input/sched'' \<mapsto> small_file] [''./os'', ''sched''] (\<lambda>_. 0) blank_memphy demo_swaps blank_sched =
      Inr (small_config, s) \<and> length (o_cpus s) = 1 \<and> os_inv small_config s"
proof -
  have "0 < time_slot small_config" "demo_swaps \<noteq> []" "num_cpus small_config = 1"
    by (simp_all add: small_config_def demo_swaps_def)
  then show ?thesis
    using boot_starts [OF small_config_expressible, of "[''input/sched'' \<mapsto> small_file]" "''sched''" demo_swaps blank_sched
        "''./os''" "\<lambda>_. 0" blank_memphy] demo_static
    by (auto simp: small_file_shows)
qed

end
