(* ===== verification/Legacy.thy ===== *)
theory Legacy
  imports Config
begin

text \<open>
  The older format of configuration files, without a line of memory sizes: \<open>read_config\<close> of \<open>src/os.c\<close> as it
  is compiled with \<open>MM_FIXED_MEMSZ\<close>, which is for such files, and what the default build, in which
  \<open>os-cfg.h\<close> leaves that symbol undefined, makes of them; and, for both formats, files with fewer process lines than
  they announce.
\<close>

subsection \<open>\<open>read_config\<close> with \<open>MM_FIXED_MEMSZ\<close>\<close>

definition read_config_fixed :: "(string \<Rightarrow> string option) \<Rightarrow> (nat \<Rightarrow> u64) \<Rightarrow> string \<Rightarrow> load_error + os_config" where
  "read_config_fixed files prio0 pth =
    (case files pth of
       None \<Rightarrow> Inl Exit_failure
     | Some s \<Rightarrow>
         and_then (scan_statics 3 s) (\<lambda>(hdr, s1).
         and_then (conf_loop prio0 0 (nat (hdr ! 2)) s1) (\<lambda>ps.
           Inr \<lparr>time_slot = hdr ! 0, num_cpus = hdr ! 1, num_processes = hdr ! 2,
             memramsz = 0x100000, memswpsz = 0x1000000 # replicate (nat (PAGING_MAX_MMSWP - 1)) 0,
             ld_path = map fst ps, ld_start_time = map (fst \<circ> snd) ps, ld_prio = map (snd \<circ> snd) ps\<rparr>)))"

subsection \<open>Files of the older format\<close>

definition show_legacy :: "os_config \<Rightarrow> string" where
  "show_legacy cfg = show_header cfg @ concat (map show_proc (conf_procs cfg))"

definition fixed_sizes :: "os_config \<Rightarrow> bool" where
  "fixed_sizes cfg \<longleftrightarrow> memramsz cfg = 0x100000 \<and> memswpsz cfg = [0x1000000, 0, 0, 0]"

definition no_number :: "char \<Rightarrow> bool" where
  "no_number c \<longleftrightarrow> \<not> is_digit c \<and> c \<noteq> CHR ''+'' \<and> c \<noteq> CHR ''-''"

text \<open>Where no number starts a conversion assigns nothing and leaves the input where it is.\<close>

lemma scan_no_number:
  assumes "no_number c" "\<not> is_space c"
  shows "scan_number (c # s) = (None, c # s)"
  using assms by (simp add: scan_number_def no_number_def)

lemma scan_each_no_number:
  assumes "no_number c" "\<not> is_space c"
  shows "scan_each n (c # s) = Inr (replicate n 0, c # s)"
  by (induction n) (simp_all add: scan_no_number [OF assms])

lemma conf_line_no_number:
  assumes "no_number c" "\<not> is_space c"
  shows "conf_line (c # s) = Inl Undefined"
  by (simp add: conf_line_def scan_no_number [OF assms])

text \<open>The memory line the default build looks for is the first process line: its start time and name.\<close>

lemma scan_memory_of_process:
  assumes "scan_statics 1 (show_nat n @ CHR '' '' # c # s) = Inr (ram, rest)" "no_number c" "\<not> is_space c"
  shows "rest = c # s"
proof -
  have "scan_ints fits_signed 1 (show_nat n @ CHR '' '' # c # s) =
      (if fits_signed (int n) then Inr ([int n], CHR '' '' # c # s) else Inl Undefined)"
    using scan_ints_line [of n "[]" fits_signed "CHR '' ''" "c # s"] scan_ints_line [of n "[]" "\<lambda>_. True" "CHR '' ''" "c # s"]
    by (auto split: option.splits prod.splits sum.splits if_splits)
  with assms show ?thesis by (auto simp: scan_statics_def split: if_splits)
qed

lemma read_config_fixed_show:
  assumes "expressible cfg" "fixed_sizes cfg" "files pth = Some (show_legacy cfg)"
  shows "read_config_fixed files prio0 pth = Inr cfg"
  using assms conf_procs_fields [OF assms(1)] scan_header [OF assms(1), of "concat (map show_proc (conf_procs cfg))"]
  by (simp add: read_config_fixed_def show_legacy_def skip_show_procs fixed_sizes_def PAGING_MAX_MMSWP_def numeral_3_eq_3)

lemma read_config_legacy:
  assumes "expressible cfg" "files pth = Some (show_legacy cfg)" "ld_path cfg = (''input/proc/'' @ c # name) # ps" "no_number c"
  shows "read_config files prio0 pth = Inl Undefined"
proof -
  let ?procs = "concat (map show_proc (conf_procs cfg))"
  have n: "length (conf_procs cfg) = nat (num_processes cfg)" "map fst (conf_procs cfg) = ld_path cfg"
    using conf_procs_fields [OF assms(1)] by simp_all
  from n(2) assms(3) obtain st pr qs where ps: "conf_procs cfg = (''input/proc/'' @ c # name, st, pr) # qs"
    by (auto simp: map_eq_Cons_conv)
  with n(1) obtain k where k: "nat (num_processes cfg) = Suc k" by (cases "nat (num_processes cfg)") simp_all
  have c: "\<not> is_space c" using assms(1,3) by (auto simp: expressible_def expressible_path_def)
  obtain s where s: "?procs = show_nat (unat st) @ CHR '' '' # c # s" by (simp add: ps show_proc_def)
  have skip: "skip_space ?procs = ?procs" by (rule skip_show_procs)
  show ?thesis
  proof (cases "scan_statics 1 ?procs")
    case (Inl e)
    then have "e = Undefined" by (auto simp: s scan_statics_def split: prod.splits option.splits sum.splits if_splits)
    then show ?thesis using Inl assms(2) scan_header [OF assms(1), of ?procs] skip
      by (simp add: read_config_def show_legacy_def)
  next
    case (Inr x)
    then obtain ram where x: "scan_statics 1 ?procs = Inr (ram, c # s)"
      using scan_memory_of_process [OF _ assms(4) c, of "unat st" s ram for ram] by (cases x) (auto simp: s)
    then show ?thesis using assms(2) scan_header [OF assms(1), of ?procs] skip c k
      by (simp add: read_config_def show_legacy_def scan_each_no_number [OF assms(4) c] conf_line_no_number [OF assms(4) c])
  qed
qed

text \<open>
  C18. The older configuration files are for another build: compiled with \<open>MM_FIXED_MEMSZ\<close>, \<open>read_config\<close> reads
  from such a file exactly the configuration it states, with 1 MB of RAM and one swap device of 16 MB; in
  the build that \<open>os-cfg.h\<close> selects, every such file whose first process has a name that starts with a letter
  makes \<open>read_config\<close> use values that were never assigned.
\<close>

theorem legacy_config:
  assumes "expressible cfg" "fixed_sizes cfg" "files pth = Some (show_legacy cfg)"
    and "ld_path cfg = (''input/proc/'' @ c # name) # ps" "no_number c"
  shows "read_config_fixed files prio0 pth = Inr cfg \<and> read_config files prio0 pth = Inl Undefined"
  using read_config_fixed_show [where files = files, OF assms(1-3)] read_config_legacy [where files = files, OF assms(1,3-5)] by blast

subsection \<open>Files that announce too many processes\<close>

text \<open>Text in which \<open>fscanf\<close> finds no number: nothing but white space, or a word.\<close>

definition no_line :: "string \<Rightarrow> bool" where
  "no_line s \<longleftrightarrow> (case skip_space s of [] \<Rightarrow> True | c # _ \<Rightarrow> no_number c)"

lemma conf_line_no_line:
  assumes "no_line s"
  shows "conf_line (skip_space s) = Inl Undefined"
proof (cases "skip_space s")
  case Nil
  then show ?thesis by (simp add: conf_line_def scan_number_def)
next
  case (Cons c t)
  then have "\<not> is_space c" using hd_dropWhile [of is_space s] by (simp add: skip_space_def)
  with Cons assms show ?thesis by (simp add: no_line_def conf_line_no_number)
qed

lemma conf_loop_short:
  assumes "\<forall>p \<in> set ps. expressible_path (fst p)" "no_line tail"
  shows "conf_loop prio0 i (length ps + Suc k) (skip_space (concat (map show_proc ps) @ tail)) = Inl Undefined"
  using assms(1)
proof (induction ps arbitrary: i)
  case Nil
  then show ?case using conf_line_no_line [OF assms(2)] by simp
next
  case (Cons p ps)
  obtain pth st pr where p: "p = (pth, st, pr)" by (cases p)
  let ?rest = "concat (map show_proc ps) @ tail"
  from conf_line_show [of pth st pr ?rest] Cons.prems obtain name where
    "pth = ''input/proc/'' @ name" "length pth \<le> 99" "conf_line (show_proc p @ ?rest) = Inr (st, name, Some pr, skip_space ?rest)"
    by (auto simp: p)
  moreover have "skip_space (show_proc p @ ?rest) = show_proc p @ ?rest" by (simp add: p show_proc_def skip_show_nat)
  moreover have "conf_loop prio0 (Suc i) (length ps + Suc k) (skip_space ?rest) = Inl Undefined" using Cons by simp
  ultimately show ?case by (simp add: p Let_def)
qed

text \<open>
  C19. A configuration file whose header announces more processes than the file has lines for, where the
  file ends after the lines it has or goes on with a word that starts with neither a digit nor a sign: the results
  of \<open>fscanf\<close> are not tested, so \<open>read_config\<close> goes on and uses a start time and a name that were never
  assigned, in the format with the line of memory sizes and, compiled with \<open>MM_FIXED_MEMSZ\<close>, in the older one.
  It does not matter how many lines are missing. Up to their spacing, \<open>os_syscall\<close> and \<open>os_sc\<close> in \<open>src/input\<close> are
  such files: the first has one line for two processes, the second a system call as its second line (\<open>Inputs\<close>
  evaluates the two texts themselves).
\<close>

theorem missing_process_line:
  assumes "expressible cfg" "num_processes cfg < n" "n < 2 ^ 31" "no_line tail"
    and "files pth = Some (show_announcing n cfg @ show_line (map nat (memramsz cfg # memswpsz cfg)) @
      concat (map show_proc (conf_procs cfg)) @ tail)"
    and "files old = Some (show_announcing n cfg @ concat (map show_proc (conf_procs cfg)) @ tail)"
  shows "read_config files prio0 pth = Inl Undefined \<and> read_config_fixed files prio0 old = Inl Undefined"
proof -
  let ?ps = "conf_procs cfg"
  have n: "0 \<le> n" "length ?ps < nat n"
    using conf_procs_fields(1) [OF assms(1)] expressible_count [OF assms(1)] assms(2) by simp_all
  then obtain k where k: "nat n = length ?ps + Suc k" using less_imp_Suc_add by (metis add_Suc_right)
  have "\<forall>p \<in> set ?ps. expressible_path (fst p)"
    using assms(1) unfolding expressible_def conf_procs_def by (auto dest: set_zip_leftD)
  then have loop: "conf_loop prio0 0 (nat n) (skip_space (concat (map show_proc ?ps) @ tail)) = Inl Undefined"
    unfolding k by (rule conf_loop_short [OF _ assms(4)])
  then have "read_config files prio0 pth = Inl Undefined"
    using read_config_lines [where files = files and pth = pth, OF assms(1) n(1) assms(3,5)] by simp
  moreover have "read_config_fixed files prio0 old = Inl Undefined"
    using scan_announcing [OF assms(1) n(1) assms(3)] loop assms(6) by (simp add: read_config_fixed_def)
  ultimately show ?thesis ..
qed

text \<open>The file \<open>src/input/sched_0\<close>.\<close>

definition old_config :: os_config where
  "old_config = \<lparr>time_slot = 2, num_cpus = 1, num_processes = 2, memramsz = 0x100000, memswpsz = [0x1000000, 0, 0, 0],
     ld_path = [''input/proc/s0'', ''input/proc/s1''], ld_start_time = [0, 4], ld_prio = [4, 0]\<rparr>"

definition old_file :: string where
  "old_file = ''2 1 2'' @ [CHR 0x0A] @ ''0 s0 4'' @ [CHR 0x0A] @ ''4 s1 0'' @ [CHR 0x0A]"

lemma old_file_shows: "show_legacy old_config = old_file"
  by code_simp

lemma old_config_expressible: "expressible old_config" "fixed_sizes old_config"
  by (simp_all add: expressible_def old_config_def expressible_path_def is_space_def fixed_sizes_def)

theorem legacy_config_witness:
  "read_config_fixed [''input/sched_0'' \<mapsto> old_file] (\<lambda>_. 0) ''input/sched_0'' = Inr old_config \<and>
    read_config [''input/sched_0'' \<mapsto> old_file] (\<lambda>_. 0) ''input/sched_0'' = Inl Undefined"
proof -
  have "ld_path old_config = (''input/proc/'' @ CHR ''s'' # ''0'') # [''input/proc/s1'']" "no_number (CHR ''s'')"
    by (simp_all add: old_config_def no_number_def is_digit_def)
  from legacy_config [OF old_config_expressible _ this, of "[''input/sched_0'' \<mapsto> old_file]" "''input/sched_0''" "\<lambda>_. 0"]
  show ?thesis by (simp add: old_file_shows)
qed

text \<open>Files like \<open>src/input/os_sc\<close>: two processes announced, one line, then a system call.\<close>

definition short_file :: string where
  "short_file = ''2 1 2'' @ [CHR 0x0A] @ ''1024 512 0 0 0'' @ [CHR 0x0A] @ ''4 s0 15'' @ [CHR 0x0A] @ ''syscall 440 1''"

definition short_old_file :: string where
  "short_old_file = ''2 1 2'' @ [CHR 0x0A] @ ''4 s0 15'' @ [CHR 0x0A] @ ''syscall 440 1''"

lemma short_files_show:
  "show_announcing 2 small_config @ show_line (map nat (memramsz small_config # memswpsz small_config)) @
     concat (map show_proc (conf_procs small_config)) @ ''syscall 440 1'' = short_file"
  "show_announcing 2 small_config @ concat (map show_proc (conf_procs small_config)) @ ''syscall 440 1'' = short_old_file"
  by code_simp+

theorem missing_process_line_witness:
  "read_config [''input/os_sc'' \<mapsto> short_file, ''input/sched_0'' \<mapsto> short_old_file] (\<lambda>_. 0) ''input/os_sc'' = Inl Undefined \<and>
   read_config_fixed [''input/os_sc'' \<mapsto> short_file, ''input/sched_0'' \<mapsto> short_old_file] (\<lambda>_. 0) ''input/sched_0'' = Inl Undefined"
proof (rule missing_process_line [OF small_config_expressible])
  show "num_processes small_config < 2" by (simp add: small_config_def)
  show "no_line ''syscall 440 1''" by (simp add: no_line_def is_space_def no_number_def is_digit_def)
qed (simp_all only: short_files_show, simp_all)

end
