(* ===== verification/Inputs.thy ===== *)
theory Inputs
  imports Legacy "HOL-Library.Code_Target_Nat"
begin

text \<open>
  The input files that come with the program, \<open>src/input\<close>, character by character: 14 process files, eight
  configuration files with a line of memory sizes, two of which lack a process line, and four of the older
  format without one; and what the models of \<open>load\<close> and \<open>read_config\<close> read from them.
\<close>

subsection \<open>The texts\<close>

definition text_lines :: "string list \<Rightarrow> string" where
  "text_lines ls = concat (map (\<lambda>l. l @ [CHR 0x0A]) ls)"

definition m0s_text :: string where
  "m0s_text = text_lines [''1 6'', ''alloc 300 0'', ''alloc 100 1'', ''free 0'', ''alloc 100 2'', ''write 102 1 20'',
     ''write 1 2 1000'']"

definition m1s_text :: string where
  "m1s_text = text_lines [''1 6'', ''alloc 300 0'', ''alloc 100 1'', ''free 0'', ''alloc 100 2'', ''free 2'', ''free 1'']"

definition p0s_text :: string where
  "p0s_text = text_lines [''1 14'', ''calc'', ''alloc 300 0'', ''alloc 300 4'', ''free 0'', ''alloc 100 1'',
     ''write 100 1 20'', ''read 1 20 20'', ''write 102 2 20'', ''read 2 20 20'', ''write 103 3 20'',
     ''read 3 20 20'', ''calc'', ''free 4'', ''calc'']"

definition p1s_text :: string where
  "p1s_text = text_lines (''1 10'' # replicate 10 ''calc'')"

definition p2s_text :: string where
  "p2s_text = text_lines (''20 12'' # replicate 12 ''calc'')"

definition p3s_text :: string where
  "p3s_text = text_lines (''7 11'' # replicate 11 ''calc'')"

definition s0_text :: string where
  "s0_text = text_lines (''12 15'' # replicate 15 ''calc'')"

definition s1_text :: string where
  "s1_text = text_lines (''20 7'' # replicate 7 ''calc'')"

definition s2_text :: string where
  "s2_text = text_lines (''20 12'' # replicate 12 ''calc'')"

definition s3_text :: string where
  "s3_text = text_lines (''7 11'' # replicate 11 ''calc'')"

definition s4_text :: string where
  "s4_text = text_lines (''20 7'' # replicate 7 ''calc'')"

definition sc1_text :: string where
  "sc1_text = text_lines [''20 1'', ''syscall 0 '']"

definition sc2_text :: string where
  "sc2_text = text_lines [''20 5'', ''alloc 100 1'', ''write 80 1 0'', ''write 48 1 1'', ''write -1 1 2'', ''syscall 101 1'']"

definition sc3_text :: string where
  "sc3_text = text_lines [''20 1'', ''syscall 440 1'']"

definition os_0_mlq_paging_text :: string where
  "os_0_mlq_paging_text = text_lines [''6 2 4'', ''1048576 16777216 0 0 0'', ''0 p0s 0'', ''2 p1s 15'', ''4 p1s 0''] @ ''6 p1s 0''"

definition os_1_mlq_paging_text :: string where
  "os_1_mlq_paging_text = text_lines [''2 4 8'', ''1048576 16777216 0 0 0'', ''1 p0s  130'', ''2 s3  39'', ''4 m1s  15'',
     ''6 s2  120'', ''7 m0s  120'', ''9 p1s  15'', ''11 s0 38'', ''16 s1 0'']"

definition os_1_mlq_paging_small_1K_text :: string where
  "os_1_mlq_paging_small_1K_text = text_lines [''2 4 8'', ''2048 16777216 0 0 0'', ''1 p0s  130'', ''2 s3  39'', ''4 m1s  15'',
     ''6 s2  120'', ''7 m0s  120'', ''9 p1s  15'', ''11 s0 38'', ''16 s1 0'']"

definition os_1_mlq_paging_small_4K_text :: string where
  "os_1_mlq_paging_small_4K_text = text_lines [''2 4 8'', ''4096 16777216 0 0 0'', ''1 p0s  130'', ''2 s3   39'', ''4 m1s  15'',
     ''6 s2   120'', ''7 m0s  120'', ''9 p1s  15'', ''11 s0  38'', ''16 s1  0'']"

definition os_1_singleCPU_mlq_text :: string where
  "os_1_singleCPU_mlq_text = text_lines [''2 1  8'', ''1 s4   4'', ''2 s3   3'', ''4 m1s  2'', ''6 s2   3'', ''7 m0s  3'',
     ''9 p1s  2'', ''11 s0  1'', ''16 s1  0'']"

definition os_1_singleCPU_mlq_paging_text :: string where
  "os_1_singleCPU_mlq_paging_text = text_lines [''2 1  8'', ''1048576 16777216 0 0 0'', ''1 s4  4'', ''2 s3  3'', ''4 m1s  2'',
     ''6 s2  3'', ''7 m0s  3'', ''9 p1s  2'', ''11 s0 1'', ''16 s1 0'']"

definition os_sc_text :: string where
  "os_sc_text = text_lines [''2 1 2'', ''2048 16777216 0 0 0'', ''9 sc3  15''] @ ''syscall 440 1''"

definition os_syscall_text :: string where
  "os_syscall_text = text_lines [''2 1 2'', ''2048 16777216 0 0 0''] @ ''9 sc2  15''"

definition os_syscall_list_text :: string where
  "os_syscall_list_text = text_lines [''2 1 1'', ''2048 16777216 0 0 0'', ''9 sc1  15'']"

definition sched_text :: string where
  "sched_text = text_lines [''4 2 3'', ''0 p1s 1'', ''1 p2s 0'', ''2 p3s 0'']"

definition sched_0_text :: string where
  "sched_0_text = text_lines [''2 1 2'', ''0 s0 4'', ''4 s1 0'']"

definition sched_1_text :: string where
  "sched_1_text = text_lines [''2 1 4'', ''0 s0 4'', ''4 s1 0'', ''6 s2 0'', ''7 s3 0'']"

subsection \<open>What they say\<close>

text \<open>The name, text, priority and instructions of each process file, an instruction with the arguments it gives.\<close>

definition shipped_programs :: "(string \<times> string \<times> u32 \<times> (ins_opcode_t \<times> u32 list) list) list" where
  "shipped_programs = [
    (''m0s'', m0s_text, 1, [(ALLOC, [300, 0]), (ALLOC, [100, 1]), (FREE, [0]), (ALLOC, [100, 2]), (WRITE, [102, 1, 20]),
     (WRITE, [1, 2, 1000])]),
    (''m1s'', m1s_text, 1, [(ALLOC, [300, 0]), (ALLOC, [100, 1]), (FREE, [0]), (ALLOC, [100, 2]), (FREE, [2]), (FREE, [1])]),
    (''p0s'', p0s_text, 1, [(CALC, []), (ALLOC, [300, 0]), (ALLOC, [300, 4]), (FREE, [0]), (ALLOC, [100, 1]), (WRITE, [100, 1, 20]),
     (READ, [1, 20, 20]), (WRITE, [102, 2, 20]), (READ, [2, 20, 20]), (WRITE, [103, 3, 20]), (READ, [3, 20, 20]),
     (CALC, []), (FREE, [4]), (CALC, [])]),
    (''p1s'', p1s_text, 1, replicate 10 (CALC, [])),
    (''p2s'', p2s_text, 20, replicate 12 (CALC, [])),
    (''p3s'', p3s_text, 7, replicate 11 (CALC, [])),
    (''s0'', s0_text, 12, replicate 15 (CALC, [])),
    (''s1'', s1_text, 20, replicate 7 (CALC, [])),
    (''s2'', s2_text, 20, replicate 12 (CALC, [])),
    (''s3'', s3_text, 7, replicate 11 (CALC, [])),
    (''s4'', s4_text, 20, replicate 7 (CALC, [])),
    (''sc1'', sc1_text, 20, [(SYSCALL, [0])]),
    (''sc2'', sc2_text, 20, [(ALLOC, [100, 1]), (WRITE, [80, 1, 0]), (WRITE, [48, 1, 1]), (WRITE, [-1, 1, 2]), (SYSCALL, [101, 1])]),
    (''sc3'', sc3_text, 20, [(SYSCALL, [440, 1])])]"

definition paging_inputs :: "(string \<times> string \<times> os_config) list" where
  "paging_inputs = [
    (''os_0_mlq_paging'', os_0_mlq_paging_text,
     \<lparr>time_slot = 6, num_cpus = 2, num_processes = 4, memramsz = 1048576, memswpsz = [16777216, 0, 0, 0],
       ld_path = map (append ''input/proc/'') [''p0s'', ''p1s'', ''p1s'', ''p1s''],
       ld_start_time = [0, 2, 4, 6], ld_prio = [0, 15, 0, 0]\<rparr>),
    (''os_1_mlq_paging'', os_1_mlq_paging_text,
     \<lparr>time_slot = 2, num_cpus = 4, num_processes = 8, memramsz = 1048576, memswpsz = [16777216, 0, 0, 0],
       ld_path = map (append ''input/proc/'') [''p0s'', ''s3'', ''m1s'', ''s2'', ''m0s'', ''p1s'', ''s0'', ''s1''],
       ld_start_time = [1, 2, 4, 6, 7, 9, 11, 16], ld_prio = [130, 39, 15, 120, 120, 15, 38, 0]\<rparr>),
    (''os_1_mlq_paging_small_1K'', os_1_mlq_paging_small_1K_text,
     \<lparr>time_slot = 2, num_cpus = 4, num_processes = 8, memramsz = 2048, memswpsz = [16777216, 0, 0, 0],
       ld_path = map (append ''input/proc/'') [''p0s'', ''s3'', ''m1s'', ''s2'', ''m0s'', ''p1s'', ''s0'', ''s1''],
       ld_start_time = [1, 2, 4, 6, 7, 9, 11, 16], ld_prio = [130, 39, 15, 120, 120, 15, 38, 0]\<rparr>),
    (''os_1_mlq_paging_small_4K'', os_1_mlq_paging_small_4K_text,
     \<lparr>time_slot = 2, num_cpus = 4, num_processes = 8, memramsz = 4096, memswpsz = [16777216, 0, 0, 0],
       ld_path = map (append ''input/proc/'') [''p0s'', ''s3'', ''m1s'', ''s2'', ''m0s'', ''p1s'', ''s0'', ''s1''],
       ld_start_time = [1, 2, 4, 6, 7, 9, 11, 16], ld_prio = [130, 39, 15, 120, 120, 15, 38, 0]\<rparr>),
    (''os_1_singleCPU_mlq_paging'', os_1_singleCPU_mlq_paging_text,
     \<lparr>time_slot = 2, num_cpus = 1, num_processes = 8, memramsz = 1048576, memswpsz = [16777216, 0, 0, 0],
       ld_path = map (append ''input/proc/'') [''s4'', ''s3'', ''m1s'', ''s2'', ''m0s'', ''p1s'', ''s0'', ''s1''],
       ld_start_time = [1, 2, 4, 6, 7, 9, 11, 16], ld_prio = [4, 3, 2, 3, 3, 2, 1, 0]\<rparr>),
    (''os_syscall_list'', os_syscall_list_text,
     \<lparr>time_slot = 2, num_cpus = 1, num_processes = 1, memramsz = 2048, memswpsz = [16777216, 0, 0, 0],
       ld_path = map (append ''input/proc/'') [''sc1''],
       ld_start_time = [9], ld_prio = [15]\<rparr>)]"

definition legacy_inputs :: "(string \<times> string \<times> os_config) list" where
  "legacy_inputs = [
    (''os_1_singleCPU_mlq'', os_1_singleCPU_mlq_text,
     \<lparr>time_slot = 2, num_cpus = 1, num_processes = 8, memramsz = 1048576, memswpsz = [16777216, 0, 0, 0],
       ld_path = map (append ''input/proc/'') [''s4'', ''s3'', ''m1s'', ''s2'', ''m0s'', ''p1s'', ''s0'', ''s1''],
       ld_start_time = [1, 2, 4, 6, 7, 9, 11, 16], ld_prio = [4, 3, 2, 3, 3, 2, 1, 0]\<rparr>),
    (''sched'', sched_text,
     \<lparr>time_slot = 4, num_cpus = 2, num_processes = 3, memramsz = 1048576, memswpsz = [16777216, 0, 0, 0],
       ld_path = map (append ''input/proc/'') [''p1s'', ''p2s'', ''p3s''],
       ld_start_time = [0, 1, 2], ld_prio = [1, 0, 0]\<rparr>),
    (''sched_0'', sched_0_text,
     \<lparr>time_slot = 2, num_cpus = 1, num_processes = 2, memramsz = 1048576, memswpsz = [16777216, 0, 0, 0],
       ld_path = map (append ''input/proc/'') [''s0'', ''s1''],
       ld_start_time = [0, 4], ld_prio = [4, 0]\<rparr>),
    (''sched_1'', sched_1_text,
     \<lparr>time_slot = 2, num_cpus = 1, num_processes = 4, memramsz = 1048576, memswpsz = [16777216, 0, 0, 0],
       ld_path = map (append ''input/proc/'') [''s0'', ''s1'', ''s2'', ''s3''],
       ld_start_time = [0, 4, 6, 7], ld_prio = [4, 0, 0, 0]\<rparr>)]"

text \<open>Two files announce two processes and have the line of one.\<close>

definition short_inputs :: "(string \<times> string) list" where
  "short_inputs = [(''os_sc'', os_sc_text), (''os_syscall'', os_syscall_text)]"

definition repo_files :: "string \<Rightarrow> string option" where
  "repo_files = map_of (map (\<lambda>(name, text, _). (''input/proc/'' @ name, text)) shipped_programs @
     map (\<lambda>(name, text, _). (''input/'' @ name, text)) (paging_inputs @ legacy_inputs) @
     map (\<lambda>(name, text). (''input/'' @ name, text)) short_inputs)"

text \<open>The instructions in their blocks: what a line does not give stays as \<open>malloc\<close> left it.\<close>

definition written :: "(nat \<Rightarrow> inst_t) \<Rightarrow> (ins_opcode_t \<times> u32 list) list \<Rightarrow> inst_t list" where
  "written text0 prog = map (\<lambda>(i, op, vs). set_args ((text0 i)\<lparr>opcode := op\<rparr>) vs) (enumerate 0 prog)"

subsection \<open>Reading them\<close>

lemma paging_texts_read: "list_all (\<lambda>(_, text, cfg). read_config (\<lambda>_. Some text) prio0 [] = Inr cfg) paging_inputs"
  by code_simp

lemma legacy_texts_read:
  "list_all (\<lambda>(_, text, cfg). read_config (\<lambda>_. Some text) prio0 [] = Inl Undefined \<and>
     read_config_fixed (\<lambda>_. Some text) prio0 [] = Inr cfg) legacy_inputs"
  by code_simp

lemma short_texts_read: "list_all (\<lambda>(_, text). read_config (\<lambda>_. Some text) prio0 [] = Inl Undefined) short_inputs"
  by code_simp

text \<open>The header of a process file and the loop over its instructions, for blocks that hold anything.\<close>

definition reads_as :: "string \<Rightarrow> u32 \<Rightarrow> (ins_opcode_t \<times> u32 list) list \<Rightarrow> (nat \<Rightarrow> inst_t) \<Rightarrow> bool" where
  "reads_as text p prog text0 \<longleftrightarrow> (case scan_numbers fits_unsigned 2 text of
      Inl _ \<Rightarrow> False
    | Inr (vs, rest) \<Rightarrow> vs = [p, word_of_nat (length prog)] \<and>
        load_loop \<lparr>s_in = rest, s_opcode = None, s_buf = None\<rparr> (map text0 [0..<length prog]) = Inr (written text0 prog))"

lemma shipped_texts_read: "list_all (\<lambda>(_, text, p, prog). reads_as text p prog text0) shipped_programs"
  by (simp only: shipped_programs_def list.pred_inject prod.case, intro conjI TrueI; code_simp; simp)

subsection \<open>Reading them from the file system\<close>

lemma repo_files_programs: "list_all (\<lambda>(name, text, _). repo_files (''input/proc/'' @ name) = Some text) shipped_programs"
  by (simp add: repo_files_def shipped_programs_def paging_inputs_def legacy_inputs_def short_inputs_def)

lemma repo_files_configs:
  "list_all (\<lambda>(name, text, _). repo_files (''input/'' @ name) = Some text) (paging_inputs @ legacy_inputs)"
  "list_all (\<lambda>(name, text). repo_files (''input/'' @ name) = Some text) short_inputs"
  by (simp_all add: repo_files_def shipped_programs_def paging_inputs_def legacy_inputs_def short_inputs_def)

lemma list_all_mem: "list_all P xs \<Longrightarrow> x \<in> set xs \<Longrightarrow> P x"
  by (simp add: list_all_iff)

lemma read_config_text:
  "files pth = Some text \<Longrightarrow> read_config files prio0 pth = read_config (\<lambda>_. Some text) prio0 []"
  "files pth = Some text \<Longrightarrow> read_config_fixed files prio0 pth = read_config_fixed (\<lambda>_. Some text) prio0 []"
  by (simp_all add: read_config_def read_config_fixed_def)

lemma load_text:
  assumes "files pth = Some text" "reads_as text p prog text0" "length prog < 2 ^ 32"
  shows "load files block pt code0 text0 avail pth =
    Inr (block\<lparr>pid := avail, page_table := pt, bp := word_of_int PAGE_SIZE, pc := 0, path := take 16 pth, priority := p,
      code := \<lparr>cs_text = written text0 prog, cs_size = word_of_nat (length prog)\<rparr>\<rparr>, avail + 1)"
proof -
  have "unat (word_of_nat (length prog) :: u32) = length prog" using assms(3) by (simp add: unat_of_nat_u32)
  then show ?thesis using assms(1,2) by (auto simp: load_def reads_as_def and_then_def split: sum.splits prod.splits)
qed

lemma shipped_programs_short: "list_all (\<lambda>(_, _, _, prog). length prog < 2 ^ 32) shipped_programs"
  by (simp add: shipped_programs_def)

lemma shipped_program_loads:
  assumes "(name, text, p, prog) \<in> set shipped_programs"
  shows "load repo_files block pt code0 text0 avail (''input/proc/'' @ name) =
    Inr (block\<lparr>pid := avail, page_table := pt, bp := word_of_int PAGE_SIZE, pc := 0, path := take 16 (''input/proc/'' @ name),
      priority := p, code := \<lparr>cs_text = written text0 prog, cs_size = word_of_nat (length prog)\<rparr>\<rparr>, avail + 1)"
  using list_all_mem [OF repo_files_programs assms] list_all_mem [OF shipped_texts_read assms]
    list_all_mem [OF shipped_programs_short assms] by (intro load_text) simp_all

lemma configs_read:
  "list_all (\<lambda>(name, _, cfg). read_config repo_files prio0 (''input/'' @ name) = Inr cfg) paging_inputs"
  "list_all (\<lambda>(name, _, cfg). read_config repo_files prio0 (''input/'' @ name) = Inl Undefined \<and>
     read_config_fixed repo_files prio0 (''input/'' @ name) = Inr cfg) legacy_inputs"
  "list_all (\<lambda>(name, _). read_config repo_files prio0 (''input/'' @ name) = Inl Undefined) short_inputs"
proof -
  have f: "repo_files (''input/'' @ name) = Some t" if "(name, t, cfg) \<in> set (paging_inputs @ legacy_inputs)" for name t cfg
    using list_all_mem [OF repo_files_configs(1) that] by simp
  have "read_config repo_files prio0 (''input/'' @ name) = Inr cfg" if "(name, t, cfg) \<in> set paging_inputs" for name t cfg
    using read_config_text(1) [where files = repo_files, OF f [of name t cfg]] that list_all_mem [OF paging_texts_read that]
    by simp
  then show "list_all (\<lambda>(name, _, cfg). read_config repo_files prio0 (''input/'' @ name) = Inr cfg) paging_inputs"
    by (auto simp: list_all_iff)
  have "read_config repo_files prio0 (''input/'' @ name) = Inl Undefined \<and>
      read_config_fixed repo_files prio0 (''input/'' @ name) = Inr cfg" if "(name, t, cfg) \<in> set legacy_inputs" for name t cfg
    using read_config_text [where files = repo_files, OF f [of name t cfg]] that list_all_mem [OF legacy_texts_read that]
    by simp
  then show "list_all (\<lambda>(name, _, cfg). read_config repo_files prio0 (''input/'' @ name) = Inl Undefined \<and>
      read_config_fixed repo_files prio0 (''input/'' @ name) = Inr cfg) legacy_inputs"
    by (auto simp: list_all_iff)
  have "read_config repo_files prio0 (''input/'' @ name) = Inl Undefined" if "(name, t) \<in> set short_inputs" for name t
    using read_config_text(1) [where files = repo_files] list_all_mem [OF repo_files_configs(2) that]
      list_all_mem [OF short_texts_read that] by simp
  then show "list_all (\<lambda>(name, _). read_config repo_files prio0 (''input/'' @ name) = Inl Undefined) short_inputs"
    by (auto simp: list_all_iff)
qed

text \<open>
  The input files that come with the program: \<open>load\<close> reads each of the 14 process files as its
  priority and instructions, and leaves the arguments a line does not give as \<open>malloc\<close> returned them. The
  default build reads six of the twelve configuration files as they are meant. The four of the older
  format it cannot read: they need a build with \<open>MM_FIXED_MEMSZ\<close>. In two files, \<open>os_sc\<close> and \<open>os_syscall\<close>, the
  number of processes is one too large, and \<open>read_config\<close> goes on with unassigned values.
\<close>

lemma shipped_inputs:
  "list_all (\<lambda>(name, _, p, prog). load repo_files block pt code0 text0 avail (''input/proc/'' @ name) =
     Inr (block\<lparr>pid := avail, page_table := pt, bp := word_of_int PAGE_SIZE, pc := 0, path := take 16 (''input/proc/'' @ name),
       priority := p, code := \<lparr>cs_text = written text0 prog, cs_size = word_of_nat (length prog)\<rparr>\<rparr>, avail + 1))
     shipped_programs \<and>
   list_all (\<lambda>(name, _, cfg). read_config repo_files prio0 (''input/'' @ name) = Inr cfg) paging_inputs \<and>
   list_all (\<lambda>(name, _, cfg). read_config repo_files prio0 (''input/'' @ name) = Inl Undefined \<and>
     read_config_fixed repo_files prio0 (''input/'' @ name) = Inr cfg) legacy_inputs \<and>
   list_all (\<lambda>(name, _). read_config repo_files prio0 (''input/'' @ name) = Inl Undefined) short_inputs"
proof (intro conjI configs_read)
  show "list_all (\<lambda>(name, _, p, prog). load repo_files block pt code0 text0 avail (''input/proc/'' @ name) =
     Inr (block\<lparr>pid := avail, page_table := pt, bp := word_of_int PAGE_SIZE, pc := 0, path := take 16 (''input/proc/'' @ name),
       priority := p, code := \<lparr>cs_text = written text0 prog, cs_size = word_of_nat (length prog)\<rparr>\<rparr>, avail + 1))
     shipped_programs"
    unfolding list_all_iff using shipped_program_loads by (auto simp del: append.simps)
qed

end
