(* ===== verification/Demo.thy ===== *)
theory Demo
  imports Os_Quiet Inputs
begin

text \<open>
  The simulator on the configurations that come with the program: the six of \<open>src/input\<close> that
  \<open>read_config\<close> reads, with the process files they name, and what every run of them does. The first,
  \<open>./os os_0_mlq_paging\<close>, is the paging demonstration.
\<close>

subsection \<open>The programs are tame\<close>

definition tame_line :: "ins_opcode_t \<times> u32 list \<Rightarrow> bool" where
  "tame_line l \<longleftrightarrow> (case l of (op, vs) \<Rightarrow> \<forall>x. tame (set_args (x\<lparr>opcode := op\<rparr>) vs))"

lemma tame_written:
  assumes "list_all tame_line prog"
  shows "list_all tame (written text0 prog)"
proof -
  have "tame (set_args ((text0 i)\<lparr>opcode := op\<rparr>) vs)" if "(i, op, vs) \<in> set (enumerate 0 prog)" for i op vs
  proof -
    from that have "(op, vs) \<in> set prog" by (auto simp: in_set_enumerate_eq) (metis nth_mem)
    then show ?thesis using assms by (auto simp: list_all_iff tame_line_def)
  qed
  then show ?thesis by (auto simp: written_def list_all_iff)
qed

definition tame_names :: "string list" where
  "tame_names = [''m0s'', ''m1s'', ''p0s'', ''p1s'', ''p2s'', ''p3s'', ''s0'', ''s1'', ''s2'', ''s3'', ''s4'', ''sc1'']"

lemma list_all_replicate: "list_all P (replicate n x) \<longleftrightarrow> n = 0 \<or> P x"
  by (auto simp: list_all_iff)

lemma tame_programs:
  "list_all (\<lambda>(name, _, _, prog). name \<in> set tame_names \<longrightarrow> list_all tame_line prog) shipped_programs"
  "list_all (\<lambda>name. name \<in> fst ` set shipped_programs) tame_names"
  by (simp_all add: shipped_programs_def tame_names_def tame_line_def set_args_def tame_def tame_var_def tame_call_def
      int_of_u32_def PAGING_MAX_SYMTBL_SZ_def list_all_replicate)

lemma tame_name_loads:
  assumes "name \<in> set tame_names"
  shows "\<exists>x n. load repo_files block pt code0 text0 avail (''input/proc/'' @ name) = Inr (x, n) \<and> list_all tame (cs_text (code x))"
proof -
  from list_all_mem [OF tame_programs(2) assms] obtain t p prog where m: "(name, t, p, prog) \<in> set shipped_programs"
    by force
  then have "list_all tame_line prog" using list_all_mem [OF tame_programs(1) m] assms by simp
  then show ?thesis using shipped_program_loads [OF m] tame_written by simp
qed

lemma paging_inputs_ok:
  "list_all (\<lambda>(_, _, cfg). 0 < time_slot cfg \<and> is_cint (time_slot cfg) \<and> conf_prios cfg \<and> is_cint (num_processes cfg) \<and>
     num_processes cfg = int (length (ld_path cfg)) \<and> length (ld_start_time cfg) = length (ld_path cfg) \<and>
     length (ld_prio cfg) = length (ld_path cfg)) paging_inputs"
  "list_all (\<lambda>(_, _, cfg). set (ld_path cfg) \<subseteq> append ''input/proc/'' ` set tame_names) paging_inputs"
  by (simp_all add: paging_inputs_def is_cint_def conf_prios_def tame_names_def)

lemma paging_inputs_load:
  assumes "(name, t, cfg) \<in> set paging_inputs"
  shows "conf_loads tame heap cfg repo_files"
proof -
  have "\<exists>x n. load repo_files block pt code0 text0 avail pth = Inr (x, n) \<and> list_all tame (cs_text (code x))"
    if "pth \<in> set (ld_path cfg)" for block pt code0 text0 avail pth
    using list_all_mem [OF paging_inputs_ok(2) assms] that tame_name_loads by fastforce
  then show ?thesis using list_all_mem [OF paging_inputs_ok(1) assms] by (auto simp: conf_loads_def)
qed

subsection \<open>Running them\<close>

lemma boot_input:
  assumes "(name, t, cfg) \<in> set paging_inputs"
  shows "boot repo_files [prog, name] prio0 ram0 swp0 sched0 =
    (case os_start cfg ram0 swp0 sched0 of None \<Rightarrow> Inl Undefined | Some s \<Rightarrow> Inr (cfg, s))"
proof -
  have "list_all (\<lambda>(name, _, _). length (''input/'' @ name) \<le> 99) paging_inputs" by (simp add: paging_inputs_def)
  from list_all_mem [OF this assms] list_all_mem [OF configs_read(1) assms, of prio0] show ?thesis
    by (simp add: boot_def)
qed

lemma input_run:
  assumes "(name, t, cfg0) \<in> set paging_inputs" "boot repo_files [prog, name] prio0 ram0 swp0 sched0 = Inr (cfg, s0)"
    and "static_sched sched0" "os_steps cfg repo_files zeroed s0 s"
  shows "cfg = cfg0 \<and> k_devs (o_kernel s) = k_devs (o_kernel s0) \<and> (\<forall>i < length (o_cpus s). cpu_step cfg i s \<noteq> None) \<and>
    (\<forall>b. ld_step cfg repo_files b (length (o_cpus s)) s \<noteq> None) \<and> \<not> o_exit s \<and>
    (\<forall>p x m v. k_pcbs (o_kernel s) p = Some x \<and> mm x = Some m \<longrightarrow> \<not> present (pgd m) v)"
proof -
  from assms(2) have s0: "os_start cfg0 ram0 swp0 sched0 = Some s0" and cfg: "cfg = cfg0"
    by (auto simp: boot_input [OF assms(1)] split: option.splits)
  note steps = assms(4) [unfolded cfg] and loads = paging_inputs_load [OF assms(1)]
  from list_all_mem [OF paging_inputs_ok(1) assms(1)] have ok: "0 < time_slot cfg0" "is_cint (time_slot cfg0)" "conf_prios cfg0"
    by simp_all
  have "conf_loads (\<lambda>_. True) any_heap cfg0 repo_files" by (rule conf_loads_mono [OF loads]) simp
  from tame_run [OF s0 assms(3) ok loads _ steps] threads_progress [OF s0 assms(3) ok this _ steps]
  show ?thesis unfolding cfg using any_heap by blast
qed

text \<open>
  C7. No configuration that comes with the program ever pages. However \<open>./os\<close> is scheduled on one of the six
  files of \<open>src/input\<close> that \<open>read_config\<close> reads, on an operating system whose \<open>malloc\<close> returns zeroed blocks
  every CPU and the loader always have a next step, the simulator never gives up, and in every state it
  reaches RAM and the swap device, with their free frames, are exactly what they were at the start: no
  page is ever mapped, written or swapped.
\<close>

theorem shipped_configs_never_page:
  assumes "name \<in> fst ` set paging_inputs" "boot repo_files [prog, name] prio0 ram0 swp0 sched0 = Inr (cfg, s0)"
    and "static_sched sched0" "os_steps cfg repo_files zeroed s0 s"
  shows "k_devs (o_kernel s) = k_devs (o_kernel s0) \<and> (\<forall>i < length (o_cpus s). cpu_step cfg i s \<noteq> None) \<and>
    (\<forall>b. ld_step cfg repo_files b (length (o_cpus s)) s \<noteq> None) \<and> \<not> o_exit s \<and>
    (\<forall>p x m v. k_pcbs (o_kernel s) p = Some x \<and> mm x = Some m \<longrightarrow> \<not> present (pgd m) v)"
proof -
  from assms(1) obtain t cfg0 where "(name, t, cfg0) \<in> set paging_inputs" by force
  from input_run [OF this assms(2-4)] show ?thesis by blast
qed

text \<open>The paging demonstration is one of them.\<close>

definition paging_config :: os_config where
  "paging_config = snd (snd (hd paging_inputs))"

lemma paging_config_in: "(''os_0_mlq_paging'', os_0_mlq_paging_text, paging_config) \<in> set paging_inputs"
  by (simp add: paging_inputs_def paging_config_def)

lemma paging_demo_never_pages:
  assumes "boot repo_files [prog, ''os_0_mlq_paging''] prio0 ram0 swp0 sched0 = Inr (cfg, s0)" "static_sched sched0"
    and "os_steps cfg repo_files zeroed s0 s"
  shows "k_devs (o_kernel s) = k_devs (o_kernel s0) \<and> (\<forall>i < length (o_cpus s). cpu_step cfg i s \<noteq> None) \<and>
    (\<forall>b. ld_step cfg repo_files b (length (o_cpus s)) s \<noteq> None) \<and> \<not> o_exit s \<and>
    (\<forall>p x m v. k_pcbs (o_kernel s) p = Some x \<and> mm x = Some m \<longrightarrow> \<not> present (pgd m) v)"
  using input_run [OF paging_config_in assms] by blast

lemma paging_boots:
  obtains s0 where "boot repo_files [''./os'', ''os_0_mlq_paging''] (\<lambda>_. 0) blank_memphy demo_swaps blank_sched = Inr (paging_config, s0)"
    "length (o_cpus s0) = 2"
proof -
  have c: "memramsz paging_config = 1048576" "memswpsz paging_config = [16777216, 0, 0, 0]" "num_cpus paging_config = 2"
    "0 < time_slot paging_config" by (simp_all add: paging_config_def paging_inputs_def)
  obtain sc where "init_scheduler blank_sched = Some sc"
    using init_scheduler_spec [of blank_sched] demo_static unfolding static_sched_def by blast
  then obtain s0 where s0: "os_start paging_config blank_memphy demo_swaps blank_sched = Some s0"
    by (simp add: os_start_def c demo_swaps_def init_memphy_cases arr_get_def Let_def)
  from os_start_inv [OF s0 demo_static c(4)] have "length (o_cpus s0) = 2" by (simp add: c)
  with s0 that show thesis by (simp add: boot_input [OF paging_config_in])
qed

theorem shipped_configs_never_page_witness:
  "\<exists>s0. boot repo_files [''./os'', ''os_0_mlq_paging''] (\<lambda>_. 0) blank_memphy demo_swaps blank_sched = Inr (paging_config, s0) \<and>
    length (o_cpus s0) = 2 \<and> (\<forall>s. os_steps paging_config repo_files zeroed s0 s \<longrightarrow>
      k_devs (o_kernel s) = k_devs (o_kernel s0) \<and> \<not> o_exit s)"
proof -
  obtain s0 where s0: "boot repo_files [''./os'', ''os_0_mlq_paging''] (\<lambda>_. 0) blank_memphy demo_swaps blank_sched = Inr (paging_config, s0)"
    "length (o_cpus s0) = 2" by (rule paging_boots)
  have "''os_0_mlq_paging'' \<in> fst ` set paging_inputs" using paging_config_in by force
  from shipped_configs_never_page [OF this s0(1) demo_static] s0 show ?thesis by blast
qed

end
