(* ===== verification/Isolation.thy ===== *)
theory Isolation
  imports Cpu
begin

text \<open>
  Memory isolation between the processes of a kernel. What one step of a process may do to physical
  memory is a relation (\<open>frame_step\<close>: it keeps its mapping invariant, takes frames from the free ones
  only, and writes into its own frames only); every operation of the memory library short of a page
  fault is such a step, and such steps compose: another process keeps its frames and their contents
  (\<open>frame_step_other\<close>). A page fault is where isolation ends.
\<close>

subsection \<open>Steps of one process on physical memory\<close>

definition frame_step :: "u32 list \<Rightarrow> memphy \<Rightarrow> u32 list \<Rightarrow> memphy \<Rightarrow> bool" where
  "frame_step pd m pd' m' \<longleftrightarrow> vm_inv pd' m' \<and> maxsz m' = maxsz m \<and> set (free_frames m') \<subseteq> set (free_frames m) \<and>
    mapped_frames pd' \<subseteq> mapped_frames pd \<union> set (free_frames m) \<and>
    (\<forall>a. a div 256 \<notin> mapped_frames pd \<longrightarrow> mp_rd m' a = mp_rd m a)"

lemma frame_step_refl: "vm_inv pd m \<Longrightarrow> frame_step pd m pd m"
  by (auto simp: frame_step_def)

lemma pg_tr_frame:
  assumes "pg_tr pd a = Some x"
  shows "x div 256 \<in> mapped_frames pd"
proof -
  from pg_tr_SomeD [OF assms] have "present pd (nat (a div 256))" "x = frame_at pd (nat (a div 256)) * 256 + a mod 256"
    by simp_all
  then show ?thesis by (auto simp: mapped_frames_def)
qed

text \<open>A process whose frames are not those of the step keeps its invariant, its frames and its bytes.\<close>

lemma frame_step_other:
  assumes step: "frame_step pd m pd' m'" and other: "vm_inv qd m" "mapped_frames qd \<inter> mapped_frames pd = {}"
  shows "vm_inv qd m' \<and> mapped_frames qd \<inter> mapped_frames pd' = {} \<and>
    (\<forall>a. pgspace.vread qd m' a = pgspace.vread qd m a)"
proof -
  have sz: "maxsz m' = maxsz m" and free: "set (free_frames m') \<subseteq> set (free_frames m)"
    and map: "mapped_frames pd' \<subseteq> mapped_frames pd \<union> set (free_frames m)"
    and rd: "\<And>a. a div 256 \<notin> mapped_frames pd \<Longrightarrow> mp_rd m' a = mp_rd m a" and ok: "pool_frames_ok m'"
    using step by (simp_all add: frame_step_def vm_inv_def)
  have disj: "mapped_frames qd \<inter> set (free_frames m) = {}" using other(1) by (simp add: vm_inv_def)
  have "vm_inv qd m'" using other(1) sz free ok disj by (auto simp: vm_inv_def page_in_def)
  moreover have "mapped_frames qd \<inter> mapped_frames pd' = {}" using map disj other(2) by blast
  moreover have "pgspace.vread qd m' a = pgspace.vread qd m a" for a
  proof (cases "pg_tr qd a")
    case (Some x)
    with pg_tr_frame [OF Some] other(2) rd [of x] show ?thesis by (auto simp: pgspace.vread_def)
  qed (simp add: pgspace.vread_def)
  ultimately show ?thesis by blast
qed

text \<open>Writing a byte of a present page.\<close>

lemma frame_step_write:
  assumes "vm_inv pd m" "pgspace.vwrite pd m a v = Some m'"
  shows "frame_step pd m pd m'"
proof -
  have ok: "ram_ok m" using vm_inv_pd_wf [OF assms(1)] by simp
  from assms(2) obtain x where x: "pg_tr pd a = Some x" "mp_wr m x v = Some m'"
    by (auto simp: pgspace.vwrite_def bind_eq_Some_conv)
  then obtain st where st: "m' = m\<lparr>storage := st\<rparr>" using ok by (auto simp: mp_wr_random ram_ok_def)
  have "mp_rd m' b = mp_rd m b" if "b div 256 \<notin> mapped_frames pd" for b
  proof (rule mbytes.rd_wr_other [OF ok x(2)])
    show "b \<noteq> x" using that pg_tr_frame [OF x(1)] by blast
  qed
  then show ?thesis
    using vm_inv_vwrite [OF assms] st by (auto simp: frame_step_def free_frames_def)
qed

subsection \<open>Mapping frames\<close>

text \<open>
  Mapping frames that are not mapped yet, wherever they go: a page whose entry is overwritten loses its
  frame, and no frame is mapped twice.
\<close>

definition one_to_one :: "u32 list \<Rightarrow> bool" where
  "one_to_one pd \<longleftrightarrow> inj_on (frame_at pd) {k. present pd k}"

lemma set_fpn_at:
  assumes "j < length pd" "0 \<le> f" "f < 8192"
  shows "present (pd[j := snd (pte_set_fpn e f)]) k \<longleftrightarrow> k = j \<or> present pd k"
    and "frame_at (pd[j := snd (pte_set_fpn e f)]) k = (if k = j then f else frame_at pd k)"
  using assms by (auto simp: present_def frame_at_def nth_list_update PAGE_PRESENT_pte_set_fpn int_of_FPN_pte_set_fpn)

lemma set_fpn_maps:
  assumes "one_to_one pd" "j < length pd" "0 \<le> f" "f < 8192" "f \<notin> mapped_frames pd"
  shows "one_to_one (pd[j := snd (pte_set_fpn e f)])"
    and "mapped_frames (pd[j := snd (pte_set_fpn e f)]) \<subseteq> insert f (mapped_frames pd)"
proof -
  note at = set_fpn_at [OF assms(2-4), of e]
  have no: "frame_at pd k \<noteq> f" if "present pd k" for k
    using that assms(5) by (auto simp: mapped_frames_def)
  show "one_to_one (pd[j := snd (pte_set_fpn e f)])"
    using assms(1) no unfolding one_to_one_def
    by (intro inj_onI) (auto simp: at dest: inj_onD split: if_splits)
  show "mapped_frames (pd[j := snd (pte_set_fpn e f)]) \<subseteq> insert f (mapped_frames pd)"
    by (auto simp: mapped_frames_def at)
qed

lemma vmap_loop_maps:
  assumes "vmap_loop pd addr n i (list_fp fs) = Some pd'" "one_to_one pd" "distinct fs"
    "\<forall>f \<in> set fs. 0 \<le> f \<and> f < 8192 \<and> f \<notin> mapped_frames pd"
  shows "length pd' = length pd \<and> one_to_one pd' \<and> mapped_frames pd' \<subseteq> mapped_frames pd \<union> set fs"
  using assms
proof (induction fs arbitrary: pd i)
  case (Cons f fs)
  show ?case
  proof (cases "i < n")
    case True
    with Cons.prems(1) obtain z where z: "0 \<le> z" "z < int (length pd)"
      "vmap_loop (pd[nat z := snd (pte_set_fpn (pd ! nat z) f)]) addr n (i + 1) (list_fp fs) = Some pd'"
      by (auto simp: Let_def bind_eq_Some_conv arr_simps)
    then obtain j e where j: "j < length pd"
      "vmap_loop (pd[j := snd (pte_set_fpn e f)]) addr n (i + 1) (list_fp fs) = Some pd'"
      by (intro that [of "nat z" "pd ! nat z"]) auto
    let ?pd = "pd[j := snd (pte_set_fpn e f)]"
    have f: "0 \<le> f" "f < 8192" "f \<notin> mapped_frames pd" using Cons.prems(4) by simp_all
    note maps = set_fpn_maps [OF Cons.prems(2) j(1) f, of e]
    then have "\<forall>g \<in> set fs. 0 \<le> g \<and> g < 8192 \<and> g \<notin> mapped_frames ?pd" using Cons.prems(3,4) by auto
    from Cons.IH [OF j(2) maps(1) _ this] Cons.prems(3) maps(2) show ?thesis by auto
  next
    case False
    then show ?thesis using Cons.prems by auto
  qed
qed simp

text \<open>\<open>alloc_pages_range\<close> takes frames off the free list; when there are too few, all that are left.\<close>

lemma alloc_pages_range_cases:
  assumes "mram d = Some m" "pool_ok m" "alloc_pages_range d n = Some (r, out, d')"
  obtains (taken) l fs where "r = n" "out = Some (list_fp fs)" "d' = d\<lparr>mram := Some (m\<lparr>free_fp_list := l\<rparr>)\<rparr>"
      "free_frames m = fs @ fp_list l" "fp_ended l" "n < 0 \<longrightarrow> fs = []"
    | (full) "r = -3000" "out = None" "d' = d\<lparr>mram := Some (m\<lparr>free_fp_list := FpNull\<rparr>)\<rparr>"
proof (cases "nat n \<le> length (free_frames m)")
  case True
  from mpool.take_frames_Some [OF assms(2) True] obtain m' where
    t: "mpool.take_frames (nat n) m = Some (take (nat n) (free_frames m), m')"
      "free_frames m' = drop (nat n) (free_frames m)" "pool_ok m'" by auto
  from take_frames_only_list [OF t(1)] obtain l where l: "m' = m\<lparr>free_fp_list := l\<rparr>" ..
  show thesis
  proof (rule taken [of "take (nat n) (free_frames m)" l])
    show "free_frames m = take (nat n) (free_frames m) @ fp_list l"
      using t(2) l by (simp add: free_frames_def [of "m\<lparr>free_fp_list := l\<rparr>"])
    show "fp_ended l" using t(3) l by (simp add: pool_ok_def)
  qed (use assms t(1) l alloc_pages_loop_eq [OF assms(2), of "nat n" "[]"] in \<open>auto simp: alloc_pages_range_def\<close>)
next
  case False
  then show thesis using full alloc_pages_range_None [OF assms(1,2), of n] assms(3) by auto
qed

lemma frame_step_map:
  assumes inv: "vm_inv pd m" and free: "free_frames m = fs @ fp_list l" "fp_ended l"
    and map: "vmap_loop pd addr n 0 (list_fp fs) = Some pd'"
  shows "frame_step pd m pd' (m\<lparr>free_fp_list := l\<rparr>)"
proof -
  have pool: "pool_frames_ok m" and inj: "one_to_one pd" and disj: "mapped_frames pd \<inter> set (free_frames m) = {}"
    and len: "length pd = 16384" and pin: "\<And>f. f \<in> mapped_frames pd \<Longrightarrow> page_in m f"
    using inv by (auto simp: vm_inv_def one_to_one_def mapped_frames_def)
  have dist: "distinct (free_frames m)" "\<forall>f \<in> set (free_frames m). 0 \<le> f \<and> f < 8192 \<and> page_in m f"
    using pool by (auto simp: pool_frames_ok_def page_in_def)
  have "\<forall>f \<in> set fs. 0 \<le> f \<and> f < 8192 \<and> f \<notin> mapped_frames pd" "distinct fs"
    using dist disj free(1) by auto
  from vmap_loop_maps [OF map inj this(2,1)] have
    maps: "length pd' = length pd" "one_to_one pd'" "mapped_frames pd' \<subseteq> mapped_frames pd \<union> set fs" by simp_all
  have "page_in m (frame_at pd' k)" if "present pd' k" for k
  proof -
    have "frame_at pd' k \<in> mapped_frames pd \<union> set fs" using that maps(3) by (auto simp: mapped_frames_def)
    then show ?thesis using pin dist(2) free(1) by auto
  qed
  moreover have "pool_frames_ok (m\<lparr>free_fp_list := l\<rparr>)"
    using pool_frames_ok_drop [OF pool _ free(2), of "length fs"] free(1) by simp
  moreover have "set fs \<inter> set (fp_list l) = {}" using dist(1) free(1) by simp
  then have "mapped_frames pd' \<inter> set (fp_list l) = {}" using maps(3) disj free(1) by auto
  ultimately have "vm_inv pd' (m\<lparr>free_fp_list := l\<rparr>)"
    using maps(1,2) len by (simp add: vm_inv_def one_to_one_def free_frames_def)
  moreover have "mp_rd (m\<lparr>free_fp_list := l\<rparr>) a = mp_rd m a" for a
    using pool by (simp add: mp_rd_random pool_frames_ok_def ram_ok_def)
  ultimately show ?thesis using maps(3) free(1) by (auto simp: frame_step_def free_frames_def [of "m\<lparr>free_fp_list := l\<rparr>"])
qed

lemma frame_step_full:
  assumes "vm_inv pd m"
  shows "frame_step pd m pd (m\<lparr>free_fp_list := FpNull\<rparr>)"
proof -
  have "mp_rd (m\<lparr>free_fp_list := FpNull\<rparr>) a = mp_rd m a" for a
    using assms by (simp add: vm_inv_def mp_rd_random pool_frames_ok_def ram_ok_def)
  moreover have "vm_inv pd (m\<lparr>free_fp_list := FpNull\<rparr>)"
    using assms by (auto simp: vm_inv_def pool_frames_ok_def)
  ultimately show ?thesis by (auto simp: frame_step_def)
qed

text \<open>\<open>vm_map_ram\<close> and \<open>inc_vma_limit\<close>, for any arguments.\<close>

lemma vm_map_ram_frames:
  assumes "vm_map_ram c d as ae a n = Some (r, rg, c', d')" "mm c = Some m0" "mram d = Some m" "vm_inv (pgd m0) m"
  obtains m0' m' where "mm c' = Some m0'" "d' = d\<lparr>mram := Some m'\<rparr>" "frame_step (pgd m0) m (pgd m0') m'"
proof -
  have pool: "pool_ok m" using assms(4) by (simp add: vm_inv_def pool_frames_ok_def)
  from assms(1) obtain ra out d1 where al: "alloc_pages_range d n = Some (ra, out, d1)"
    by (auto simp: vm_map_ram_def bind_eq_Some_conv)
  from assms(3) pool al show thesis
  proof (cases rule: alloc_pages_range_cases)
    case (taken l fs)
    show thesis
    proof (cases "n < 0")
      case True
      then have "fs = []" "c' = c" "d' = d\<lparr>mram := Some (m\<lparr>free_fp_list := l\<rparr>)\<rparr>"
        using assms(1) al taken by (auto simp: vm_map_ram_def Let_def split: if_splits)
      with frame_step_map [OF assms(4) taken(4,5), of a n "pgd m0"] assms(2) that show thesis by simp
    next
      case False
      with assms(1) al taken(1-3) assms(2) obtain pd where
        "vmap_loop (pgd m0) a n 0 (list_fp fs) = Some pd"
        "\<exists>fi. c' = c\<lparr>mm := Some (m0\<lparr>pgd := pd, fifo_pgn := fi\<rparr>)\<rparr>" "d' = d\<lparr>mram := Some (m\<lparr>free_fp_list := l\<rparr>)\<rparr>"
        by (auto simp: vm_map_ram_def vmap_page_range_def enlist_pgn_node_def Let_def bind_eq_Some_conv split: if_splits)
      with frame_step_map [OF assms(4) taken(4,5)] that show thesis by fastforce
    qed
  next
    case full
    then show thesis using assms al frame_step_full [OF assms(4)] that by (auto simp: vm_map_ram_def)
  qed
qed

lemma inc_vma_limit_frames:
  assumes "inc_vma_limit c d v sz = Some (r, c', d')" "mm c = Some m0" "mram d = Some m" "vm_inv (pgd m0) m"
  obtains m0' m' where "mm c' = Some m0'" "d' = d\<lparr>mram := Some m'\<rparr>" "frame_step (pgd m0) m (pgd m0') m'"
proof -
  have same: "d\<lparr>mram := Some m\<rparr> = d" using assms(3) by simp
  from assms(1) obtain amt where amt: "PAGING_PAGE_ALIGNSZ sz = Some amt"
    by (auto simp: inc_vma_limit_def bind_eq_Some_conv)
  have "(\<exists>b. c' = c\<lparr>bp := b\<rparr> \<and> d' = d) \<or> (\<exists>b k w s e a n r' rg.
      vm_map_ram (c\<lparr>bp := b, mm := Some (vma_set m0 k w)\<rparr>) d s e a n = Some (r', rg, c', d'))"
  proof (cases "get_vma_by_num m0 v")
    case None
    then show ?thesis
      using assms(1,2) amt by (simp add: inc_vma_limit_def get_vm_area_node_at_brk_def Let_def) blast
  next
    case (Some k)
    then show ?thesis
      using assms(1,2) amt
      by (simp add: inc_vma_limit_def get_vm_area_node_at_brk_def validate_overlap_vm_area_def Let_def bind_eq_Some_conv
          split: if_splits) blast+
  qed
  then consider (refused) b where "c' = c\<lparr>bp := b\<rparr>" "d' = d"
    | (mapped) b k w s e a n r' rg where
        "vm_map_ram (c\<lparr>bp := b, mm := Some (vma_set m0 k w)\<rparr>) d s e a n = Some (r', rg, c', d')"
    by blast
  then show thesis
  proof cases
    case refused
    then show thesis using that [of m0 m] assms(2) same frame_step_refl [OF assms(4)] by simp
  next
    case mapped
    have m1: "mm (c\<lparr>bp := b, mm := Some (vma_set m0 k w)\<rparr>) = Some (vma_set m0 k w)" "vm_inv (pgd (vma_set m0 k w)) m"
      using assms(4) by (simp_all add: vma_set_fields)
    from vm_map_ram_frames [OF mapped m1(1) assms(3) m1(2)] that show thesis by (metis vma_set_fields(1))
  qed
qed

subsection \<open>The memory library\<close>

lemma get_free_vmrg_area_pgd:
  assumes "get_free_vmrg_area c v z = Some (e, w, c1)" "mm c = Some m0"
  obtains m1 where "mm c1 = Some m1" "pgd m1 = pgd m0"
  using assms
  by (auto simp: get_free_vmrg_area_def Let_def bind_eq_Some_conv split: if_splits dest!: free_vmrg_loop_keeps)

lemma liballoc_frames:
  assumes "liballoc c d sz v = Some (r, a, c', d')" "mm c = Some m0" "mram d = Some m" "vm_inv (pgd m0) m"
  obtains m0' m' where "mm c' = Some m0'" "d' = d\<lparr>mram := Some m'\<rparr>" "frame_step (pgd m0) m (pgd m0') m'"
proof -
  have same: "d\<lparr>mram := Some m\<rparr> = d" using assms(3) by simp
  from assms(1) obtain e w c1 where g: "get_free_vmrg_area c 0 (int_of_u32 sz) = Some (e, w, c1)"
    by (auto simp: liballoc_def alloc_region_def bind_eq_Some_conv)
  from get_free_vmrg_area_pgd [OF g assms(2)] obtain m1 where m1: "mm c1 = Some m1" "pgd m1 = pgd m0" .
  show thesis
  proof (cases "e = 0")
    case True
    then obtain tbl where "c' = c1\<lparr>mm := Some (m1\<lparr>symrgtbl := tbl\<rparr>)\<rparr>" "d' = d"
      using assms(1) g m1(1) by (auto simp: liballoc_def alloc_region_def bind_eq_Some_conv)
    then show thesis using that [of "m1\<lparr>symrgtbl := tbl\<rparr>" m] m1(2) same frame_step_refl [OF assms(4)] by simp
  next
    case False
    then have "\<exists>inc q c2. inc_vma_limit c1 d 0 inc = Some (q, c2, d') \<and>
        (c' = c2 \<or> (\<exists>m2 k x. mm c2 = Some m2 \<and> c' = c2\<lparr>mm := Some (vma_set m2 k x)\<rparr>))"
      using assms(1) g m1(1)
      by (simp add: liballoc_def alloc_region_def Let_def bind_eq_Some_conv split: if_splits) blast+
    then obtain inc q c2 where inc: "inc_vma_limit c1 d 0 inc = Some (q, c2, d')"
      and c': "c' = c2 \<or> (\<exists>m2 k x. mm c2 = Some m2 \<and> c' = c2\<lparr>mm := Some (vma_set m2 k x)\<rparr>)" by blast
    from inc_vma_limit_frames [OF inc m1(1) assms(3)] m1(2) assms(4) obtain m2 m' where
      "mm c2 = Some m2" "d' = d\<lparr>mram := Some m'\<rparr>" "frame_step (pgd m0) m (pgd m2) m'" by metis
    with c' that show thesis by (auto simp: vma_set_fields)
  qed
qed

lemma libfree_frames:
  assumes "libfree c v = Some (r, c')" "mm c = Some m0"
  obtains m1 where "mm c' = Some m1" "pgd m1 = pgd m0"
proof -
  have e: "pgd m1 = pgd m" if "enlist_vm_freerg_list m q = Some (z, m1)" for m q z m1
    using that by (auto simp: enlist_vm_freerg_list_def vma_set_fields Let_def bind_eq_Some_conv
        split: list.splits if_splits dest!: rg_store_fields(1))
  have *: "\<exists>m1. mm c' = Some m1 \<and> pgd m1 = pgd m0"
    if "(if b then Some (-1, c) else e) = Some (r, c')" "e = Some (r, c') \<Longrightarrow> \<exists>m1. mm c' = Some m1 \<and> pgd m1 = pgd m0" for b e
    using that assms(2) by (cases b) auto
  have "\<exists>m1. mm c' = Some m1 \<and> pgd m1 = pgd m0"
    using assms unfolding libfree_def free_region_def Let_def
    by (elim * bind_eq_Some_conv [THEN iffD1, elim_format] exE conjE)
      (auto simp: bind_eq_Some_conv split_def split: if_splits dest!: e rg_store_fields(1))
  with that show thesis by blast
qed

text \<open>The part of an address that the page table looks at.\<close>

definition virt :: "cint \<Rightarrow> int" where
  "virt a = uint (u32_of_int a) mod 2 ^ 22"

lemma virt_bounds: "0 \<le> virt a" "virt a < 2 ^ 22"
  by (simp_all add: virt_def)

lemma virt_fields:
  "int_of_u32 (PAGING_PGN (u32_of_int a)) = virt a div 256"
  "int_of_u32 (PAGING_OFFST (u32_of_int a)) = virt a mod 256"
proof -
  have "u mod 4194304 = 256 * (u div 256 mod 16384) + u mod 256" for u :: int
    using zmod_zmult2_eq [of 16384 u 256] by simp
  then have "(u div 256) mod 16384 = u mod 4194304 div 256" "u mod 256 = u mod 4194304 mod 256" for u :: int
    by simp_all
  then show "int_of_u32 (PAGING_PGN (u32_of_int a)) = virt a div 256" "int_of_u32 (PAGING_OFFST (u32_of_int a)) = virt a mod 256"
    by (simp_all add: int_of_PAGING_PGN int_of_PAGING_OFFST virt_def)
qed

lemma pg_access_virt: "pg_getval c d a = pg_getval c d (virt a)" "pg_setval c d a v = pg_setval c d (virt a) v"
  using address_split [OF virt_bounds, of a] by (simp_all add: pg_getval_def pg_setval_def virt_fields)

text \<open>An access that finds its page, or no page to replace, is no page fault.\<close>

definition no_fault :: "mm_struct \<Rightarrow> cint \<Rightarrow> bool" where
  "no_fault m a \<longleftrightarrow> present (pgd m) (nat (virt a div 256)) \<or> fifo_pgn m = PgNull"

lemma no_fault_cases:
  assumes "no_fault m0 a" "mm c = Some m0" "length (pgd m0) = 16384"
  obtains (hit) "pg_tr (pgd m0) (virt a) \<noteq> None"
    | (miss) "\<And>d. pg_getval c d a = Some (-1, None, c, d)" "\<And>d v. pg_setval c d a v = Some (-1, c, d)"
proof (cases "present (pgd m0) (nat (virt a div 256))")
  case True
  then show thesis using hit virt_bounds [of a] by (simp add: pg_tr_def)
next
  case False
  have "pg_getpage c d (virt a div 256) = Some (-1, None, c, d)" for d
    using pg_getpage_no_victim [OF assms(2) _ _ False] assms(1,3) False virt_bounds [of a] by (simp add: no_fault_def)
  then show thesis using miss by (simp add: pg_getval_def pg_setval_def virt_fields Let_def)
qed

lemma pg_getval_frames:
  assumes "no_fault m0 a" "mm c = Some m0" "mram d = Some m" "vm_inv (pgd m0) m"
  obtains r u where "pg_getval c d a = Some (r, u, c, d)"
proof -
  have len: "length (pgd m0) = 16384" using assms(4) by (simp add: vm_inv_def)
  have ok: "ram_ok m" using vm_inv_pd_wf [OF assms(4)] by simp
  from assms(1,2) len show thesis
  proof (cases rule: no_fault_cases)
    case hit
    from vm_inv_vread [OF assms(4) hit] obtain u where "pgspace.vread (pgd m0) m (virt a) = Some u" ..
    then show thesis using that pg_getval_eq [OF assms(2,3) ok hit] pg_access_virt(1) [of c d a] by simp
  qed (use that in blast)
qed

lemma pg_setval_frames:
  assumes "no_fault m0 a" "mm c = Some m0" "mram d = Some m" "vm_inv (pgd m0) m"
  obtains r m' where "pg_setval c d a v = Some (r, c, d\<lparr>mram := Some m'\<rparr>)" "frame_step (pgd m0) m (pgd m0) m'"
proof -
  have len: "length (pgd m0) = 16384" using assms(4) by (simp add: vm_inv_def)
  from assms(1,2) len show thesis
  proof (cases rule: no_fault_cases)
    case hit
    from pg_setval_present [OF assms(2-4) hit, of v] frame_step_write [OF assms(4)] that show thesis
      using pg_access_virt(2) [of c d a v] by metis
  next
    case miss
    then show thesis using that [of "-1" m] assms(3) frame_step_refl [OF assms(4)] by simp
  qed
qed

subsection \<open>One instruction\<close>

definition access_addr :: "mm_struct \<Rightarrow> u32 \<Rightarrow> u32 \<Rightarrow> cint option" where
  "access_addr m rg off =
    map_option (\<lambda>r. int_of_u64 (rg_start r + u64_of_int (int_of_u32 off))) (rg_load m (get_symrg_byid m (int_of_u32 rg)))"

definition calm_access :: "mm_struct \<Rightarrow> u32 \<Rightarrow> u32 \<Rightarrow> bool" where
  "calm_access m rg off = (case access_addr m rg off of None \<Rightarrow> True | Some a \<Rightarrow> no_fault m a)"

text \<open>
  Instructions without a page fault that keep away from physical memory: not \<open>killall\<close> (its own memory
  accesses are not looked at here) and not the operations 3 to 5 of \<open>memmap\<close>.
\<close>

definition calm_inst :: "mm_struct \<Rightarrow> inst_t \<Rightarrow> bool" where
  "calm_inst m ins = (case opcode ins of
     READ \<Rightarrow> calm_access m (arg_0 ins) (arg_1 ins)
   | WRITE \<Rightarrow> calm_access m (arg_1 ins) (arg_2 ins)
   | SYSCALL \<Rightarrow> arg_0 ins \<noteq> 101 \<and> (arg_0 ins = 17 \<longrightarrow> int_of_u32 (arg_1 ins) < 3 \<or> 5 < int_of_u32 (arg_1 ins))
   | _ \<Rightarrow> True)"

lemma calm_access_addr:
  assumes "calm_access m rg off" "rg_load m (get_symrg_byid m (int_of_u32 rg)) = Some r"
  shows "no_fault m (int_of_u64 (rg_start r + u64_of_int (int_of_u32 off)))"
  using assms by (simp add: calm_access_def access_addr_def)

lemma libread_frames:
  assumes "libread x d rg off = Some (r, x', d')" "calm_access m0 rg off" "mm x = Some m0" "mram d = Some m" "vm_inv (pgd m0) m"
  shows "x' = x \<and> d' = d"
proof -
  from assms(1,3) have "x' = x \<and> d' = d \<or> (\<exists>g e v. rg_load m0 (get_symrg_byid m0 (int_of_u32 rg)) = Some g \<and>
      pg_getval x d (int_of_u64 (rg_start g + u64_of_int (int_of_u32 off))) = Some (e, v, x', d'))"
    by (simp add: libread_def read_region_def Let_def bind_eq_Some_conv split: if_splits) blast
  then show ?thesis
    using calm_access_addr [OF assms(2)] pg_getval_frames [OF _ assms(3-5)] by (metis option.inject prod.inject)
qed

lemma libwrite_frames:
  assumes "libwrite x d b rg off = Some (r, x', d')" "calm_access m0 rg off" "mm x = Some m0" "mram d = Some m" "vm_inv (pgd m0) m"
  obtains m' where "x' = x" "d' = d\<lparr>mram := Some m'\<rparr>" "frame_step (pgd m0) m (pgd m0) m'"
proof -
  from assms(1,3) have "x' = x \<and> d' = d \<or> (\<exists>g e. rg_load m0 (get_symrg_byid m0 (int_of_u32 rg)) = Some g \<and>
      pg_setval x d (int_of_u64 (rg_start g + u64_of_int (int_of_u32 off))) b = Some (e, x', d'))"
    by (simp add: libwrite_def write_region_def Let_def bind_eq_Some_conv split: if_splits) blast
  then show thesis
  proof (elim disjE exE conjE)
    assume "x' = x" "d' = d"
    then show thesis using that [of m] assms(4) frame_step_refl [OF assms(5)] by simp
  next
    fix g e
    assume g: "rg_load m0 (get_symrg_byid m0 (int_of_u32 rg)) = Some g"
      "pg_setval x d (int_of_u64 (rg_start g + u64_of_int (int_of_u32 off))) b = Some (e, x', d')"
    from pg_setval_frames [OF calm_access_addr [OF assms(2) g(1)] assms(3-5)] g(2) that show thesis
      by (metis option.inject prod.inject)
  qed
qed

lemma libsyscall_frames:
  assumes "libsyscall k p nr x1 x2 x3 = Some (r, k')" "k_pcbs k p = Some x" "mm x = Some m0"
    and "mram (k_devs k) = Some m" "vm_inv (pgd m0) m" "nr \<noteq> 101" "nr = 17 \<longrightarrow> int_of_u32 x1 < 3 \<or> 5 < int_of_u32 x1"
  obtains x' m0' m' where "k_pcbs k' = (k_pcbs k)(p \<mapsto> x')" "mm x' = Some m0'" "mram (k_devs k') = Some m'"
    "frame_step (pgd m0) m (pgd m0') m'"
proof (cases "nr = 17 \<and> int_of_u32 x1 = 2")
  case True
  then obtain q x' d' where inc: "inc_vma_limit x (k_devs k) (int_of_u32 x2) (int_of_u32 x3) = Some (q, x', d')"
    and k': "k' = k\<lparr>k_pcbs := (k_pcbs k)(p \<mapsto> x'), k_devs := d'\<rparr>"
    using assms(1,2) by (auto simp: libsyscall_memmap sys_memmap_def Let_def bind_eq_Some_conv
        SYSMEM_MAP_OP_def SYSMEM_INC_OP_def)
  from inc_vma_limit_frames [OF inc assms(3-5)] k' that show thesis by (metis devs.select_convs(1) devs.surjective devs.update_convs(1) kernel.select_convs(1,3) kernel.surjective kernel.update_convs(1,3))
next
  case False
  then have "k' = k"
    using assms(1,6,7) by (auto simp: libsyscall_def syscall_def sys_listsyscall_def sys_xxxhandler_def sys_ni_syscall_def
        sys_memmap_def Let_def bind_eq_Some_conv SYSMEM_MAP_OP_def SYSMEM_INC_OP_def SYSMEM_SWP_OP_def SYSMEM_IO_READ_def
        SYSMEM_IO_WRITE_def split: if_splits)
  then show thesis using that [of x m0 m] assms(2-5) frame_step_refl [OF assms(5)] by (auto simp: fun_upd_idem)
qed

lemma exec_inst_frames:
  assumes "exec_inst k p ins = Some (r, k')" "k_pcbs k p = Some x" "mm x = Some m0"
    and "mram (k_devs k) = Some m" "vm_inv (pgd m0) m" "calm_inst m0 ins"
  obtains x' m0' m' where "k_pcbs k' = (k_pcbs k)(p \<mapsto> x')" "mm x' = Some m0'" "mram (k_devs k') = Some m'"
    "frame_step (pgd m0) m (pgd m0') m'"
proof -
  note goal = that
  have "(k_pcbs k)(p \<mapsto> x) = k_pcbs k" using assms(2) by (simp add: fun_upd_idem)
  with goal [of x m0 m] assms(3,4) frame_step_refl [OF assms(5)]
  have stay: thesis if "k_pcbs k' = k_pcbs k" "k_devs k' = k_devs k" using that by simp
  show thesis
  proof (cases "opcode ins")
    case CALC
    then show thesis using stay assms(1,2) by (simp add: exec_inst_def)
  next
    case ALLOC
    then obtain q a x' d' where al: "liballoc x (k_devs k) (arg_0 ins) (arg_1 ins) = Some (q, a, x', d')"
      "k' = k\<lparr>k_pcbs := (k_pcbs k)(p \<mapsto> x'), k_devs := d'\<rparr>"
      using assms(1,2) by (auto simp: exec_inst_def Let_def bind_eq_Some_conv)
    from liballoc_frames [OF al(1) assms(3-5)] al(2) goal show thesis by fastforce
  next
    case FREE
    then obtain q x' where fr: "libfree x (arg_0 ins) = Some (q, x')" "k' = k\<lparr>k_pcbs := (k_pcbs k)(p \<mapsto> x')\<rparr>"
      using assms(1,2) by (auto simp: exec_inst_def Let_def bind_eq_Some_conv)
    from libfree_frames [OF fr(1) assms(3)] obtain m1 where "mm x' = Some m1" "pgd m1 = pgd m0" .
    with goal [of x' m1 m] fr(2) assms(4) frame_step_refl [OF assms(5)] show thesis by simp
  next
    case READ
    then obtain q x' d' where rd: "libread x (k_devs k) (arg_0 ins) (arg_1 ins) = Some (q, x', d')"
      "k' = k\<lparr>k_pcbs := (k_pcbs k)(p \<mapsto> x'), k_devs := d'\<rparr>"
      using assms(1,2) by (auto simp: exec_inst_def Let_def bind_eq_Some_conv)
    have "calm_access m0 (arg_0 ins) (arg_1 ins)" using assms(6) READ by (simp add: calm_inst_def)
    from libread_frames [OF rd(1) this assms(3-5)] rd(2) stay assms(2) show thesis by (simp add: fun_upd_idem)
  next
    case WRITE
    then obtain q x' d' where wr: "libwrite x (k_devs k) (byte_of_u32 (arg_0 ins)) (arg_1 ins) (arg_2 ins) = Some (q, x', d')"
      "k' = k\<lparr>k_pcbs := (k_pcbs k)(p \<mapsto> x'), k_devs := d'\<rparr>"
      using assms(1,2) by (auto simp: exec_inst_def Let_def bind_eq_Some_conv)
    have "calm_access m0 (arg_1 ins) (arg_2 ins)" using assms(6) WRITE by (simp add: calm_inst_def)
    from libwrite_frames [OF wr(1) this assms(3-5)] wr(2) goal assms(3) show thesis by fastforce
  next
    case SYSCALL
    then have c: "arg_0 ins \<noteq> 101" "arg_0 ins = 17 \<longrightarrow> int_of_u32 (arg_1 ins) < 3 \<or> 5 < int_of_u32 (arg_1 ins)"
      using assms(6) by (simp_all add: calm_inst_def)
    have "libsyscall k p (arg_0 ins) (arg_1 ins) (arg_2 ins) (arg_3 ins) = Some (r, k')"
      using assms(1,2) SYSCALL by (simp add: exec_inst_def Let_def)
    from libsyscall_frames [OF this assms(2-5) c] goal show thesis by blast
  qed
qed

end
