(* ===== verification/Isolated_Runs.thy ===== *)
theory Isolated_Runs
  imports Isolation
begin

text \<open>
  Interleaved processes: as long as no instruction faults, any interleaving of instructions keeps the
  frames of the processes apart and leaves the memory of a process that does not run untouched. One page
  fault is enough to give a process a frame of another.
\<close>

subsection \<open>Frame ownership in a kernel\<close>

definition isolated :: "kernel \<Rightarrow> bool" where
  "isolated k \<longleftrightarrow> (\<exists>m. mram (k_devs k) = Some m \<and> pool_frames_ok m \<and>
    (\<forall>p x mp. k_pcbs k p = Some x \<and> mm x = Some mp \<longrightarrow> vm_inv (pgd mp) m) \<and>
    (\<forall>p q x y mp mq. p \<noteq> q \<and> k_pcbs k p = Some x \<and> mm x = Some mp \<and> k_pcbs k q = Some y \<and> mm y = Some mq \<longrightarrow>
      mapped_frames (pgd mp) \<inter> mapped_frames (pgd mq) = {}))"

text \<open>The next instruction of a process is calm (there is none at the end of its program).\<close>

definition calm :: "kernel \<Rightarrow> pcb_ptr \<Rightarrow> bool" where
  "calm k p \<longleftrightarrow> (case k_pcbs k p of None \<Rightarrow> True | Some x \<Rightarrow> (case mm x of None \<Rightarrow> False | Some m \<Rightarrow>
     cs_size (code x) \<le> pc x \<or> (case arr_get (cs_text (code x)) (uint (pc x)) of None \<Rightarrow> True | Some ins \<Rightarrow> calm_inst m ins)))"

text \<open>Calls of \<open>run\<close> for the processes of a list, in its order.\<close>

fun run_all :: "kernel \<Rightarrow> pcb_ptr list \<Rightarrow> kernel option" where
  "run_all k [] = Some k"
| "run_all k (p # ps) = do { (_, k1) \<leftarrow> run k p; run_all k1 ps }"

fun calm_all :: "kernel \<Rightarrow> pcb_ptr list \<Rightarrow> bool" where
  "calm_all k [] = True"
| "calm_all k (p # ps) = (calm k p \<and> (case run k p of None \<Rightarrow> True | Some (_, k1) \<Rightarrow> calm_all k1 ps))"

text \<open>\<open>unseen q k k'\<close>: process \<open>q\<close> and every byte of its present pages are the same in both kernels.\<close>

definition unseen :: "pcb_ptr \<Rightarrow> kernel \<Rightarrow> kernel \<Rightarrow> bool" where
  "unseen q k k' \<longleftrightarrow> k_pcbs k' q = k_pcbs k q \<and> (\<forall>y mq m m' a. k_pcbs k q = Some y \<and> mm y = Some mq \<and>
    mram (k_devs k) = Some m \<and> mram (k_devs k') = Some m' \<longrightarrow> pgspace.vread (pgd mq) m' a = pgspace.vread (pgd mq) m a)"

lemma unseen_refl: "unseen q k k"
  by (auto simp: unseen_def)

lemma unseen_trans:
  assumes "unseen q k k1" "unseen q k1 k2" "mram (k_devs k1) \<noteq> None"
  shows "unseen q k k2"
  using assms by (fastforce simp: unseen_def)

lemma isolated_step:
  assumes iso: "isolated k" and m: "mram (k_devs k) = Some m" and p: "k_pcbs k p = Some x" "mm x = Some mp"
    and k': "k_pcbs k' = (k_pcbs k)(p \<mapsto> x')" "mm x' = Some mp'" "mram (k_devs k') = Some m'"
    and step: "frame_step (pgd mp) m (pgd mp') m'"
  shows "isolated k' \<and> (\<forall>q. q \<noteq> p \<longrightarrow> unseen q k k')"
proof -
  have ok: "vm_inv (pgd my) m" if "k_pcbs k q = Some y" "mm y = Some my" for q y my
    using iso m that unfolding isolated_def by (metis option.inject)
  have disj: "mapped_frames (pgd my) \<inter> mapped_frames (pgd mz) = {}"
    if "q \<noteq> r" "k_pcbs k q = Some y" "mm y = Some my" "k_pcbs k r = Some z" "mm z = Some mz" for q r y z my mz
    using iso that unfolding isolated_def by metis
  have others: "vm_inv (pgd my) m' \<and> mapped_frames (pgd my) \<inter> mapped_frames (pgd mp') = {} \<and>
      (\<forall>a. pgspace.vread (pgd my) m' a = pgspace.vread (pgd my) m a)" if "q \<noteq> p" "k_pcbs k q = Some y" "mm y = Some my" for q y my
    using frame_step_other [OF step ok disj] that p by blast
  have self: "vm_inv (pgd mp') m'" "pool_frames_ok m'" using step by (simp_all add: frame_step_def vm_inv_def)
  have "vm_inv (pgd my) m'" if "k_pcbs k' q = Some y" "mm y = Some my" for q y my
    using that others [of q y my] self(1) k'(1,2) by (cases "q = p") auto
  moreover have "mapped_frames (pgd my) \<inter> mapped_frames (pgd mz) = {}"
    if "q \<noteq> r" "k_pcbs k' q = Some y" "mm y = Some my" "k_pcbs k' r = Some z" "mm z = Some mz" for q r y z my mz
  proof -
    consider "q = p" "r \<noteq> p" | "r = p" "q \<noteq> p" | "q \<noteq> p" "r \<noteq> p" using \<open>q \<noteq> r\<close> by blast
    then show ?thesis
    proof cases
      case 1
      then show ?thesis using others [of r z mz] that k'(1,2) by auto
    next
      case 2
      then show ?thesis using others [of q y my] that k'(1,2) by auto
    next
      case 3
      then show ?thesis using disj [OF that(1)] that k'(1) by auto
    qed
  qed
  ultimately have "isolated k'" unfolding isolated_def using self(2) k'(3) by blast
  moreover have "unseen q k k'" if "q \<noteq> p" for q
    using others [OF that] m k'(1,3) that by (auto simp: unseen_def)
  ultimately show ?thesis by blast
qed

lemma run_isolated:
  assumes "isolated k" "run k p = Some (r, k')" "calm k p"
  shows "isolated k' \<and> (\<forall>q. q \<noteq> p \<longrightarrow> unseen q k k')"
proof -
  from assms(1) obtain m where m: "mram (k_devs k) = Some m"
    and inv: "\<And>p x mp. k_pcbs k p = Some x \<Longrightarrow> mm x = Some mp \<Longrightarrow> vm_inv (pgd mp) m" unfolding isolated_def by blast
  from assms(2) obtain x where x: "k_pcbs k p = Some x" by (auto simp: run_def bind_eq_Some_conv)
  with assms(3) obtain mp where mp: "mm x = Some mp" by (auto simp: calm_def split: option.splits)
  show ?thesis
  proof (cases "cs_size (code x) \<le> pc x")
    case True
    then have "k' = k" using assms(2) x by (simp add: run_def)
    then show ?thesis using assms(1) unseen_refl by blast
  next
    case False
    let ?x = "x\<lparr>pc := pc x + 1\<rparr>"
    let ?k = "k\<lparr>k_pcbs := (k_pcbs k)(p \<mapsto> ?x)\<rparr>"
    from assms(2) x False obtain ins where ins: "arr_get (cs_text (code x)) (uint (pc x)) = Some ins"
      "exec_inst ?k p ins = Some (r, k')" by (auto simp: run_def bind_eq_Some_conv)
    then have calm: "calm_inst mp ins" using assms(3) x mp False by (simp add: calm_def)
    have "k_pcbs ?k p = Some ?x" "mm ?x = Some mp" "mram (k_devs ?k) = Some m" using mp m by simp_all
    from exec_inst_frames [OF ins(2) this inv [OF x mp] calm] obtain x' mp' m' where
      "k_pcbs k' = (k_pcbs k)(p \<mapsto> x')" "mm x' = Some mp'" "mram (k_devs k') = Some m'"
      "frame_step (pgd mp) m (pgd mp') m'" by auto
    from isolated_step [OF assms(1) m x mp this] show ?thesis .
  qed
qed

text \<open>The processes of a kernel are parties whose calm instructions are invisible to the others.\<close>

definition run_step :: "kernel \<Rightarrow> pcb_ptr \<Rightarrow> kernel option" where
  "run_step k p = map_option snd (run k p)"

lemma run_step_Some: "run_step k p = Some k' \<longleftrightarrow> (\<exists>r. run k p = Some (r, k'))"
  by (auto simp: run_step_def)

interpretation procs: bystanders run_step calm isolated unseen
proof
  show "isolated t" if "isolated s" "calm s p" "run_step s p = Some t" for s p t
    using run_isolated that by (auto simp: run_step_Some)
  show "unseen q s t" if "isolated s" "calm s p" "run_step s p = Some t" "q \<noteq> p" for s p t q
    using run_isolated that by (auto simp: run_step_Some)
  show "unseen q s u" if "unseen q s t" "unseen q t u" "isolated t" for q s t u
    using unseen_trans [OF that(1,2)] that(3) by (auto simp: isolated_def)
qed (rule unseen_refl)

lemma run_all_steps: "run_all k ps = procs.steps k ps"
  by (induction ps arbitrary: k) (auto simp: run_step_def map_option_case split: option.splits bind_splits)

lemma calm_all_steps: "calm_all k ps = procs.calm_steps k ps"
  by (induction ps arbitrary: k) (auto simp: run_step_def split: option.splits)

lemma unseen_getval:
  assumes "isolated k" "isolated k'" "unseen q k k'" "k_pcbs k q = Some y" "mm y = Some mq" "pg_tr (pgd mq) a \<noteq> None"
  shows "\<exists>u. pg_getval y (k_devs k) a = Some (0, Some u, y, k_devs k) \<and>
    pg_getval y (k_devs k') a = Some (0, Some u, y, k_devs k')"
proof -
  from assms(1,4,5) obtain m where m: "mram (k_devs k) = Some m" "vm_inv (pgd mq) m" unfolding isolated_def by blast
  have "k_pcbs k' q = Some y" using assms(3,4) by (simp add: unseen_def)
  with assms(2,5) obtain m' where m': "mram (k_devs k') = Some m'" "vm_inv (pgd mq) m'" unfolding isolated_def by blast
  from vm_inv_vread [OF m(2) assms(6)] obtain u where u: "pgspace.vread (pgd mq) m a = Some u" ..
  then have u': "pgspace.vread (pgd mq) m' a = Some u" using assms(3-5) m(1) m'(1) by (simp add: unseen_def)
  have "ram_ok m" "ram_ok m'" using vm_inv_pd_wf [OF m(2)] vm_inv_pd_wf [OF m'(2)] by simp_all
  with pg_getval_eq [OF assms(5) m(1) _ assms(6)] pg_getval_eq [OF assms(5) m'(1) _ assms(6)] u u' show ?thesis by simp
qed

text \<open>
  C2. Isolation under any interleaving: if the frames of the processes are separate, then after any
  sequence of instructions of any processes, allocations and system calls other than \<open>killall\<close> included,
  none of which faults or reaches for physical memory, they still are; and a process that was not among them finds
  itself and every byte of its present pages as they were.
\<close>

theorem interleaving_isolated:
  assumes "isolated k" "run_all k ps = Some k'" "calm_all k ps"
    and "k_pcbs k q = Some y" "mm y = Some mq" "q \<notin> set ps" "pg_tr (pgd mq) a \<noteq> None"
  shows "isolated k' \<and> k_pcbs k' q = Some y \<and>
    (\<exists>u. pg_getval y (k_devs k) a = Some (0, Some u, y, k_devs k) \<and>
      pg_getval y (k_devs k') a = Some (0, Some u, y, k_devs k'))"
proof -
  from procs.steps_keep [OF assms(1-3) [unfolded run_all_steps calm_all_steps]] assms(6) have k': "isolated k'" "unseen q k k'" by simp_all
  from unseen_getval [OF assms(1) k' assms(4,5,7)] k' assms(4) show ?thesis by (simp add: unseen_def)
qed

subsection \<open>A page fault\<close>

text \<open>
  C35. A page fault breaks isolation. A process writes to a page that is not present, and there is a
  page to replace: the number of that page is taken for a frame number and the write lands in the RAM
  frame of that number. If the frame holds a page of another process, the other process's byte is
  overwritten, by a write of its neighbour to its own memory.
\<close>

theorem page_fault_breaks_isolation:
  assumes "mm c = Some m0" "0 \<le> pn" "pn < 16384" "length (pgd m0) = 16384" "\<not> present (pgd m0) (nat pn)"
    and "fifo_pgn m0 = PgNode v nx" "t = int_of_u32 (PAGING_SWP (pgd m0 ! nat pn))"
    and "mram d = Some r" "active_mswp d = Some s" "ram_ok r" "ram_ok s"
    and "pool_ok s" "free_frames s = w # ws"
    and "page_in r v" "page_in r t" "page_in s w" "page_in s v" "v < 8192"
    and other: "mm y = Some my" "0 \<le> j" "j < 16384" "present (pgd my) (nat j)" "frame_at (pgd my) (nat j) = v"
    and off: "0 \<le> off" "off < PAGING_PAGESZ"
  shows "\<exists>c' d'. pg_setval c d (pn * PAGING_PAGESZ + off) b = Some (0, c', d') \<and>
    pg_getval y d' (j * PAGING_PAGESZ + off) = Some (0, Some b, y, d')"
proof -
  have pn': "pn < int (length (pgd m0))" using assms(3,4) by simp
  from page_fault [OF assms(1,2) pn' assms(5-18)] obtain c' m' s' where
    f: "pg_getpage c d pn = Some (0, Some v, c', d\<lparr>active_mswp := Some s'\<rparr>)" by blast
  let ?d = "d\<lparr>active_mswp := Some s'\<rparr>" and ?a = "pn * 256 + off" and ?b = "j * 256 + off" and ?x = "v * 256 + off"
  have o: "0 \<le> off" "off < 256" using off by (simp_all add: PAGING_PAGESZ_def)
  have a: "0 \<le> ?a" "?a < 2 ^ 22" "?a div 256 = pn" "?a mod 256 = off"
    and bb: "0 \<le> ?b" "?b < 2 ^ 22" "?b div 256 = j" "?b mod 256 = off"
    using assms(2,3) other(2,3) o by auto
  have v: "0 \<le> v" using assms(14) by (simp add: page_in_def)
  have cr: "c_ret (v * PAGING_PAGESZ) = Some (v * 256)" "c_ret (v * 256 + off) = Some ?x"
    using v assms(18) o by (simp_all add: PAGING_PAGESZ_def c_ret_def is_cint_def)
  have "0 \<le> ?x" "?x < maxsz r" using assms(14) o by (simp_all add: page_in_def PAGING_PAGESZ_def)
  then have "mp_rd r ?x \<noteq> None" using assms(10) by (simp add: mp_rd_random ram_ok_def arr_get_def)
  then obtain r' where w: "mp_wr r ?x b = Some r'" using mbytes.wr_succeeds [OF assms(10)] by fast
  have ok: "ram_ok r'" "mp_rd r' ?x = Some b"
    using mbytes.ok_wr [OF assms(10) w] mbytes.rd_wr_same [OF assms(10) w] by simp_all
  have "MEMPHY_write (Some r) ?x b = Some (0, Some r')"
    using w assms(10) by (cases "arr_set (storage r) ?x b") (auto simp: mp_wr_random MEMPHY_write_random ram_ok_def)
  then have "pg_setval c d ?a b = Some (0, c', ?d\<lparr>mram := Some r'\<rparr>)"
    using address_split(1,2) [OF a(1,2)] a(3,4) f cr assms(8) by (simp add: pg_setval_def Let_def)
  moreover have tr: "pg_tr (pgd my) ?b = Some ?x" using bb other(4,5) by (simp add: pg_tr_def)
  have "pg_getval y (?d\<lparr>mram := Some r'\<rparr>) ?b = Some (0, Some b, y, ?d\<lparr>mram := Some r'\<rparr>)"
    using pg_getval_eq [OF other(1) _ ok(1), of "?d\<lparr>mram := Some r'\<rparr>" ?b] tr ok(2) by (simp add: pgspace.vread_def)
  ultimately show ?thesis by (auto simp: PAGING_PAGESZ_def)
qed

subsection \<open>Concrete machines\<close>

text \<open>Process 1 of \<open>cpu_kernel\<close>, with a page in frame 1, beside a process 2 with a page in frame 0.\<close>

definition two_kernel :: kernel where
  "two_kernel = cpu_kernel\<lparr>k_pcbs := [2 \<mapsto> paged_pcb 0, 1 \<mapsto> cpu_pcb]\<rparr>"

lemma two_kernel_simps [simp]:
  "k_pcbs two_kernel = [2 \<mapsto> paged_pcb 0, 1 \<mapsto> cpu_pcb]" "k_devs two_kernel = paged_devs"
  by (simp_all add: two_kernel_def)

lemma two_kernel_isolated: "isolated two_kernel"
proof -
  have "pool_frames_ok paged_ram" using one_page_vm_inv [of 0] by (simp add: vm_inv_def)
  then show ?thesis
    by (auto simp: isolated_def one_page_vm_inv one_page_mapped split: if_splits)
qed

lemma two_kernel_access: "access_addr (paged_mm 1) 3 7 = Some 7"
proof -
  have i: "int_of_u32 3 = 3" "int_of_u32 7 = 7" "int_of_u64 (u64_of_int 7) = 7"
    using int_of_u64_of_int [of 7] by (simp_all add: int_of_u32_def is_cint_def)
  show ?thesis
    by (simp add: access_addr_def get_symrg_byid_def PAGING_MAX_SYMTBL_SZ_def i blank_mm_def)
qed

lemma two_kernel_calm: "ins \<in> set (cs_text small_program) \<Longrightarrow> calm_inst (paged_mm 1) ins"
proof -
  have "virt 7 div 256 = 0" by (simp add: virt_def u32_of_int_def)
  then have "no_fault (paged_mm 1) 7" by (simp add: no_fault_def one_page_present)
  then show "ins \<in> set (cs_text small_program) \<Longrightarrow> calm_inst (paged_mm 1) ins"
    using two_kernel_access by (auto simp: small_program_def inst_def calm_inst_def calm_access_def)
qed

lemma two_kernel_write:
  obtains r' where "run two_kernel 1 = Some (0, two_kernel\<lparr>k_pcbs := [2 \<mapsto> paged_pcb 0, 1 \<mapsto> cpu_pcb\<lparr>pc := 1\<rparr>], k_devs := paged_devs\<lparr>mram := Some r'\<rparr>\<rparr>)"
proof -
  let ?k = "two_kernel\<lparr>k_pcbs := [2 \<mapsto> paged_pcb 0, 1 \<mapsto> cpu_pcb\<lparr>pc := 1\<rparr>]\<rparr>"
  have "\<exists>ram'. exec_inst ?k 1 (inst WRITE 42 3 7) =
      Some (0, ?k\<lparr>k_devs := (k_devs ?k)\<lparr>mram := Some ram'\<rparr>\<rparr>) \<and> ram_step (pgd (paged_mm 1)) paged_ram ram'"
    by (rule exec_access [of _ 1 "cpu_pcb\<lparr>pc := 1\<rparr>" "paged_mm 1" paged_ram])
      (simp_all add: one_page_vm_inv cpu_program_ok small_program_def)
  then show thesis using that by (auto simp: run_def arr_get_def small_program_def)
qed

theorem interleaving_isolated_witness:
  "\<exists>k' u. run_all two_kernel [1, 1] = Some k' \<and> isolated k' \<and> k_pcbs k' 1 = Some (cpu_pcb\<lparr>pc := 2\<rparr>) \<and>
    pg_getval (paged_pcb 0) paged_devs 7 = Some (0, Some u, paged_pcb 0, paged_devs) \<and>
    pg_getval (paged_pcb 0) (k_devs k') 7 = Some (0, Some u, paged_pcb 0, k_devs k')"
proof -
  obtain r' where r: "run two_kernel 1 = Some (0, two_kernel\<lparr>k_pcbs := [2 \<mapsto> paged_pcb 0, 1 \<mapsto> cpu_pcb\<lparr>pc := 1\<rparr>], k_devs := paged_devs\<lparr>mram := Some r'\<rparr>\<rparr>)"
    (is "_ = Some (0, ?k1)") by (rule two_kernel_write)
  let ?k2 = "?k1\<lparr>k_pcbs := [2 \<mapsto> paged_pcb 0, 1 \<mapsto> cpu_pcb\<lparr>pc := 2\<rparr>]\<rparr>"
  have "\<not> (3 :: u32) \<le> 1" by code_simp
  then have two: "run ?k1 1 = Some (0, ?k2)"
    by (auto simp: run_def exec_inst_def calc_def arr_get_def small_program_def inst_def Let_def)
  have all: "run_all two_kernel [1, 1] = Some ?k2" using r two by simp
  have "calm two_kernel 1" "calm ?k1 1"
    using two_kernel_calm by (simp_all add: calm_def arr_get_def small_program_def)
  then have "calm_all two_kernel [1, 1]" using r two by simp
  from interleaving_isolated [OF two_kernel_isolated all this, of 2 "paged_pcb 0" "paged_mm 0" 7] all show ?thesis
    by (auto simp: one_page_tr)
qed

theorem page_fault_breaks_isolation_witness:
  "\<exists>c' d'. pg_setval ((paged_pcb 1)\<lparr>mm := Some (paged_mm 1\<lparr>fifo_pgn := PgNode 0 PgNull\<rparr>)\<rparr>) paged_devs 263 42 = Some (0, c', d') \<and>
    pg_getval (paged_pcb 0) d' 7 = Some (0, Some 42, paged_pcb 0, d')"
proof -
  let ?m = "paged_mm 1\<lparr>fifo_pgn := PgNode 0 PgNull\<rparr>"
  have e: "one_page 1 ! 1 = 0" "int_of_u32 (PAGING_SWP 0) = 0"
    by (simp_all add: one_page_def PAGING_SWP_def int_of_u32_def)
  show ?thesis
    using page_fault_breaks_isolation [of "(paged_pcb 1)\<lparr>mm := Some ?m\<rparr>" ?m 1 0 PgNull 0 paged_devs paged_ram sample_ram 0 "[1, 2, 3]"
        "paged_pcb 0" "paged_mm 0" 0 7 42] e
    by (simp add: one_page_present one_page_frame paged_ram_def page_in_def PAGING_PAGESZ_def)
qed

end
