(* ===== verification/Driver.thy ===== *)
theory Driver
  imports Os_Safety
begin

text \<open>
  The test driver \<open>src/paging.c\<close>: it loads the file \<open>input/p0\<close> twice, runs the two processes in turn and
  dumps the flat memory. It creates no memory structure, so \<open>mm\<close> of both control blocks is unassigned,
  and it never calls \<open>init_mem\<close>: the flat memory is the static one, all zero.
\<close>

definition static_flat :: flat_mem where
  "static_flat = \<lparr>mem_stat = replicate (nat NUM_PAGES) \<lparr>ms_proc = 0, ms_index = 0, ms_next = 0\<rparr>,
     flat_ram = replicate (nat RAM_SIZE) 0\<rparr>"

text \<open>\<open>n\<close> rounds of the loop; \<open>proc->code->size\<close> does not change while it runs.\<close>

fun drive :: "nat \<Rightarrow> kernel \<Rightarrow> pcb_ptr \<Rightarrow> pcb_ptr \<Rightarrow> kernel option" where
  "drive 0 k proc ld = Some k"
| "drive (Suc n) k proc ld = do {
     (_, k1) \<leftarrow> run k proc;
     (_, k2) \<leftarrow> run k1 ld;
     drive n k2 proc ld
   }"

text \<open>
  \<open>b1\<close> and \<open>b2\<close> are the fresh blocks of the two calls of \<open>load\<close>, \<open>sc\<close> the static queues, \<open>d\<close> the (unassigned)
  devices. The result is the kernel at the end and the lines that \<open>dump\<close> prints.
\<close>

definition paging_main ::
  "(string \<Rightarrow> string option) \<Rightarrow> ld_blocks \<Rightarrow> ld_blocks \<Rightarrow> sched \<Rightarrow> devs \<Rightarrow>
   load_error + (kernel \<times> (int \<times> mem_row \<times> (int \<times> u8) list) list)" where
  "paging_main files b1 b2 sc d =
    and_then (load files (lb_pcb b1) (lb_pt b1) (lb_code b1) (lb_text b1) 1 ''input/p0'') (\<lambda>(ld, pid1).
    and_then (load files (lb_pcb b2) (lb_pt b2) (lb_code b2) (lb_text b2) pid1 ''input/p0'') (\<lambda>(proc, _).
      let k = \<lparr>k_pcbs = [lb_ptr b1 \<mapsto> ld, lb_ptr b2 \<mapsto> proc], k_sched = sc, k_devs = d\<rparr> in
      case drive (unat (cs_size (code proc))) k (lb_ptr b2) (lb_ptr b1) of
        None \<Rightarrow> Inl Undefined
      | Some k' \<Rightarrow> (case dump_mem static_flat of None \<Rightarrow> Inl Undefined | Some out \<Rightarrow> Inr (k', out))))"

subsection \<open>What it prints\<close>

lemma dump_loop_free:
  assumes "\<forall>i \<in> set is. \<exists>row. arr_get (mem_stat fm) i = Some row \<and> ms_proc row = 0"
  shows "dump_loop fm is = Some []"
  using assms by (induction "is") auto

lemma dump_static: "dump_mem static_flat = Some []"
  unfolding dump_mem_def
  by (rule dump_loop_free) (auto simp: static_flat_def arr_get_def mem_consts)

subsection \<open>Programs that only compute\<close>

lemma run_calc:
  assumes "k_pcbs k p = Some x" "int (length (cs_text (code x))) = uint (cs_size (code x))"
    "\<forall>ins \<in> set (cs_text (code x)). opcode ins = CALC" "unat (pc x) < unat (cs_size (code x))"
  shows "run k p = Some (0, k\<lparr>k_pcbs := (k_pcbs k)(p \<mapsto> x\<lparr>pc := pc x + 1\<rparr>)\<rparr>)"
proof -
  have "pc x < cs_size (code x)" using assms(4) by (simp add: word_less_nat_alt)
  then have lt: "uint (pc x) < int (length (cs_text (code x)))" "\<not> cs_size (code x) \<le> pc x"
    using assms(2) by (simp_all add: word_less_def not_le)
  then have ins: "arr_get (cs_text (code x)) (uint (pc x)) = Some (cs_text (code x) ! nat (uint (pc x)))"
    by (simp add: arr_get_in)
  have "nat (uint (pc x)) < length (cs_text (code x))" using lt(1) by (simp only: nat_less_iff uint_ge_0)
  then have "opcode (cs_text (code x) ! nat (uint (pc x))) = CALC" using assms(3) by simp
  then show ?thesis using assms(1) ins lt(2) by (simp add: run_def exec_inst_def calc_def)
qed

definition calc_proc :: "nat \<Rightarrow> pcb_t \<Rightarrow> bool" where
  "calc_proc n x \<longleftrightarrow> int (length (cs_text (code x))) = uint (cs_size (code x)) \<and>
    (\<forall>ins \<in> set (cs_text (code x)). opcode ins = CALC) \<and> unat (pc x) + n = unat (cs_size (code x))"

lemma drive_calc:
  assumes "p \<noteq> q" "k_pcbs k p = Some x" "calc_proc n x" "k_pcbs k q = Some y" "calc_proc n y"
  shows "drive n k p q = Some (k\<lparr>k_pcbs := (k_pcbs k)(p \<mapsto> x\<lparr>pc := cs_size (code x)\<rparr>, q \<mapsto> y\<lparr>pc := cs_size (code y)\<rparr>)\<rparr>)"
  using assms
proof (induction n arbitrary: k x y)
  case 0
  then have "pc x = cs_size (code x)" "pc y = cs_size (code y)" by (simp_all add: calc_proc_def word_unat_eq_iff)
  then have "x\<lparr>pc := cs_size (code x)\<rparr> = x" "y\<lparr>pc := cs_size (code y)\<rparr> = y" by (metis pcb_t.surjective pcb_t.update_convs(6))+
  with 0 show ?case by (simp add: fun_upd_idem)
next
  case (Suc n)
  let ?x = "x\<lparr>pc := pc x + 1\<rparr>" and ?y = "y\<lparr>pc := pc y + 1\<rparr>"
  let ?k1 = "k\<lparr>k_pcbs := (k_pcbs k)(p \<mapsto> ?x)\<rparr>"
  let ?k2 = "k\<lparr>k_pcbs := (k_pcbs k)(p \<mapsto> ?x, q \<mapsto> ?y)\<rparr>"
  have lt: "unat (pc x) < unat (cs_size (code x))" "unat (pc y) < unat (cs_size (code y))"
    using Suc.prems(3,5) by (simp_all add: calc_proc_def)
  have "run k p = Some (0, ?k1)" using Suc.prems(2,3) lt(1) by (intro run_calc) (simp_all add: calc_proc_def)
  moreover have "run ?k1 q = Some (0, ?k1\<lparr>k_pcbs := (k_pcbs ?k1)(q \<mapsto> ?y)\<rparr>)"
    using Suc.prems(1,4,5) lt(2) by (intro run_calc) (auto simp: calc_proc_def)
  ultimately have "drive (Suc n) k p q = drive n ?k2 p q" by simp
  also have "\<dots> = Some (?k2\<lparr>k_pcbs := (k_pcbs ?k2)(p \<mapsto> ?x\<lparr>pc := cs_size (code ?x)\<rparr>, q \<mapsto> ?y\<lparr>pc := cs_size (code ?y)\<rparr>)\<rparr>)"
  proof (rule Suc.IH)
    show "calc_proc n ?x" "calc_proc n ?y"
      using Suc.prems(3,5) unat_Suc [OF lt(1)] unat_Suc [OF lt(2)] by (simp_all add: calc_proc_def)
  qed (use Suc.prems(1) in auto)
  also have "(k_pcbs ?k2)(p \<mapsto> ?x\<lparr>pc := cs_size (code ?x)\<rparr>, q \<mapsto> ?y\<lparr>pc := cs_size (code ?y)\<rparr>) =
      (k_pcbs k)(p \<mapsto> x\<lparr>pc := cs_size (code x)\<rparr>, q \<mapsto> y\<lparr>pc := cs_size (code y)\<rparr>)"
    by (simp add: fun_eq_iff)
  finally show ?case by (simp del: fun_upd_apply drive.simps)
qed

lemma same_calc:
  "list_all2 same_inst as bs \<Longrightarrow> \<forall>ins \<in> set bs. opcode ins = CALC \<Longrightarrow> \<forall>ins \<in> set as. opcode ins = CALC"
  by (metis in_set_conv_nth list_all2_conv_all_nth same_inst_def)

text \<open>
  The test driver with a program that only computes: both processes run to their end in turn,
  numbered 1 and 2, and the dump of the flat memory is empty.
\<close>

lemma paging_main_computes:
  assumes "files ''input/p0'' = Some (show_program pr prog)" "\<forall>ins \<in> set prog. opcode ins = CALC" "length prog < 2 ^ 32"
    and "lb_ptr b1 \<noteq> lb_ptr b2"
  shows "\<exists>k x y. paging_main files b1 b2 sc d = Inr (k, []) \<and>
    k_pcbs k (lb_ptr b1) = Some x \<and> pid x = 1 \<and> pc x = cs_size (code x) \<and>
    k_pcbs k (lb_ptr b2) = Some y \<and> pid y = 2 \<and> pc y = cs_size (code y) \<and> unat (pc y) = length prog"
proof -
  have pr: "\<forall>ins \<in> set prog. printable ins" using assms(2) by (simp add: printable_def)
  have calc: "calc_proc (length prog) x" if "list_all2 same_inst (cs_text (code x)) prog" "unat (cs_size (code x)) = length prog"
    "pc x = 0" for x
  proof -
    have "length (cs_text (code x)) = length prog" using that(1) by (rule list_all2_lengthD)
    moreover have "\<forall>ins \<in> set (cs_text (code x)). opcode ins = CALC"
      by (rule same_calc [OF that(1) assms(2)])
    moreover have "uint (cs_size (code x)) = int (length prog)" using that(2) [symmetric] by simp
    ultimately show ?thesis using that(2,3) by (simp add: calc_proc_def)
  qed
  note ld = load_show [where files = files, OF assms(1) pr assms(3)]
  from ld [of "lb_pcb b1" "lb_pt b1" "lb_code b1" "lb_text b1" 1] obtain x where
    x: "load files (lb_pcb b1) (lb_pt b1) (lb_code b1) (lb_text b1) 1 ''input/p0'' = Inr (x, 1 + 1)" "pid x = 1"
    "pc x = 0" "unat (cs_size (code x)) = length prog" "list_all2 same_inst (cs_text (code x)) prog" by blast
  from ld [of "lb_pcb b2" "lb_pt b2" "lb_code b2" "lb_text b2" "1 + 1"] obtain y where
    y: "load files (lb_pcb b2) (lb_pt b2) (lb_code b2) (lb_text b2) (1 + 1) ''input/p0'' = Inr (y, 1 + 1 + 1)" "pid y = 1 + 1"
    "pc y = 0" "unat (cs_size (code y)) = length prog" "list_all2 same_inst (cs_text (code y)) prog" by blast
  let ?k = "\<lparr>k_pcbs = [lb_ptr b1 \<mapsto> x, lb_ptr b2 \<mapsto> y], k_sched = sc, k_devs = d\<rparr>"
  have "drive (length prog) ?k (lb_ptr b2) (lb_ptr b1) = Some (?k\<lparr>k_pcbs := (k_pcbs ?k)
      (lb_ptr b2 \<mapsto> y\<lparr>pc := cs_size (code y)\<rparr>, lb_ptr b1 \<mapsto> x\<lparr>pc := cs_size (code x)\<rparr>)\<rparr>)"
    by (rule drive_calc) (use assms(4) calc [OF x(5,4,3)] calc [OF y(5,4,3)] in auto)
  then show ?thesis
    using x y assms(4) dump_static by (simp add: paging_main_def Let_def)
qed

text \<open>Without a memory structure any allocation or access is undefined, and without the file there is no run.\<close>

lemma run_without_mm:
  assumes "k_pcbs k p = Some x" "mm x = None" "pc x < cs_size (code x)" "arr_get (cs_text (code x)) (uint (pc x)) = Some ins"
    "opcode ins = ALLOC \<or> opcode ins = READ \<or> opcode ins = WRITE"
  shows "run k p = None"
  using assms by (auto simp: run_def exec_inst_def Let_def liballoc_def alloc_region_def get_free_vmrg_area_def
      libread_def read_region_def libwrite_def write_region_def)

lemma paging_main_no_file: "files ''input/p0'' = None \<Longrightarrow> paging_main files b1 b2 sc d = Inl Exit_failure"
  by (simp add: paging_main_def load_def)

lemma paging_main_computes_witness:
  "\<exists>k x y. paging_main [''input/p0'' \<mapsto> show_program 1 [inst CALC 0 0 0, inst CALC 0 0 0]]
      demo_blocks (demo_blocks\<lparr>lb_ptr := 6\<rparr>) blank_sched sample_devs = Inr (k, []) \<and>
    k_pcbs k 5 = Some x \<and> pc x = cs_size (code x) \<and> k_pcbs k 6 = Some y \<and> unat (pc y) = 2"
  using paging_main_computes [of "[''input/p0'' \<mapsto> show_program 1 [inst CALC 0 0 0, inst CALC 0 0 0]]" 1
      "[inst CALC 0 0 0, inst CALC 0 0 0]" demo_blocks "demo_blocks\<lparr>lb_ptr := 6\<rparr>" blank_sched sample_devs]
  by (auto simp: inst_def demo_blocks_def)

end
