(* ===== verification/Race.thy ===== *)
theory Race
  imports Memphy
begin

text \<open>
  \<open>MEMPHY_get_freefp\<close> of \<open>src/mm-memphy.c\<close> statement by statement, for threads that run it at the same
  time on one device. The CPUs of the simulator do: \<open>mmvm_lock\<close> of \<open>src/libmem.c\<close> is only ever unlocked.
  The rest of the development takes a call as one step (\<open>Memphy\<close>); alone, a thread does just that
  (\<open>pop_alone\<close>), together two threads can take the same frame.
\<close>

subsection \<open>Threads and the shared list\<close>

text \<open>The nodes of the free list at their addresses (0 is \<open>NULL\<close>), and \<open>mp->free_fp_list\<close>.\<close>

record fp_node =
  n_fpn :: cint
  n_next :: nat

record fp_shared =
  f_heap :: "nat \<Rightarrow> fp_node option"
  f_head :: nat

text \<open>Where a thread is in the function, and its \<open>fp\<close>, the value it read of \<open>fp->fp_next\<close>, and \<open>*retfpn\<close>.\<close>

datatype pop_loc = P_read | P_fpn | P_next | P_set | P_free | P_ret cint

record popper =
  w_loc :: pop_loc
  w_fp :: nat
  w_nx :: nat
  w_out :: "cint option"

text \<open>
  One access to shared memory. Reading or freeing a node that has been freed is undefined (\<open>None\<close>).
\<close>

definition pop_step :: "fp_shared \<Rightarrow> popper \<Rightarrow> (fp_shared \<times> popper) option" where
  "pop_step s w = (case w_loc w of
     P_read \<Rightarrow> let fp = f_head s in Some (s, w\<lparr>w_fp := fp, w_loc := if fp = 0 then P_ret (-1) else P_fpn\<rparr>)
   | P_fpn \<Rightarrow> do { x \<leftarrow> f_heap s (w_fp w); Some (s, w\<lparr>w_out := Some (n_fpn x), w_loc := P_next\<rparr>) }
   | P_next \<Rightarrow> do { x \<leftarrow> f_heap s (w_fp w); Some (s, w\<lparr>w_nx := n_next x, w_loc := P_set\<rparr>) }
   | P_set \<Rightarrow> Some (s\<lparr>f_head := w_nx w\<rparr>, w\<lparr>w_loc := P_free\<rparr>)
   | P_free \<Rightarrow> do { _ \<leftarrow> f_heap s (w_fp w); Some (s\<lparr>f_heap := (f_heap s)(w_fp w := None)\<rparr>, w\<lparr>w_loc := P_ret 0\<rparr>) }
   | P_ret r \<Rightarrow> Some (s, w))"

text \<open>The steps of several threads, in the order of a schedule of thread numbers.\<close>

fun race :: "nat list \<Rightarrow> fp_shared \<Rightarrow> popper list \<Rightarrow> (fp_shared \<times> popper list) option" where
  "race [] s ws = Some (s, ws)"
| "race (i # is) s ws = (if i < length ws then do {
     (s', w) \<leftarrow> pop_step s (ws ! i);
     race is s' (ws[i := w])
   } else None)"

definition entering :: "popper \<Rightarrow> bool" where
  "entering w \<longleftrightarrow> w_loc w = P_read"

subsection \<open>The list in memory\<close>

fun fp_chain :: "(nat \<Rightarrow> fp_node option) \<Rightarrow> nat \<Rightarrow> nat list \<Rightarrow> cint list \<Rightarrow> bool" where
  "fp_chain h p [] [] \<longleftrightarrow> p = 0"
| "fp_chain h p (a # as) (f # fs) \<longleftrightarrow> p = a \<and> a \<noteq> 0 \<and>
    (case h a of None \<Rightarrow> False | Some x \<Rightarrow> n_fpn x = f \<and> fp_chain h (n_next x) as fs)"
| "fp_chain h p _ _ \<longleftrightarrow> False"

lemma fp_chain_free: "a \<notin> set as \<Longrightarrow> fp_chain (h(a := None)) p as fs = fp_chain h p as fs"
proof (induction "as" arbitrary: p fs)
  case Nil
  then show ?case by (cases fs) simp_all
next
  case (Cons b bs)
  then show ?case by (cases fs) (auto split: option.split)
qed

definition holds_frames :: "fp_shared \<Rightarrow> cint list \<Rightarrow> bool" where
  "holds_frames s fs \<longleftrightarrow> (\<exists>as. distinct as \<and> fp_chain (f_heap s) (f_head s) as fs)"

lemma holds_frames_Nil: "holds_frames s [] \<Longrightarrow> f_head s = 0"
proof -
  assume "holds_frames s []"
  then obtain "as" where "fp_chain (f_heap s) (f_head s) as []" by (auto simp: holds_frames_def)
  then show ?thesis by (cases "as") simp_all
qed

lemma holds_frames_Cons:
  assumes "holds_frames s (f # fs)"
  obtains x where "f_head s \<noteq> 0" "f_heap s (f_head s) = Some x" "n_fpn x = f"
    "holds_frames \<lparr>f_heap = (f_heap s)(f_head s := None), f_head = n_next x\<rparr> fs"
proof -
  from assms obtain as' where as': "distinct as'" "fp_chain (f_heap s) (f_head s) as' (f # fs)"
    by (auto simp: holds_frames_def)
  then obtain a "as" where a: "as' = a # as" by (cases as') auto
  with as' obtain x where x: "f_head s = a" "a \<noteq> 0" "f_heap s a = Some x" "n_fpn x = f" "fp_chain (f_heap s) (n_next x) as fs"
    by (auto split: option.splits)
  moreover have "distinct as" "a \<notin> set as" using as'(1) a by simp_all
  ultimately show thesis using that fp_chain_free [of a "as"] unfolding holds_frames_def by auto
qed

subsection \<open>Alone\<close>

lemma pop_alone_empty:
  assumes "entering w" "f_head s = 0"
  shows "race [0] s [w] = Some (s, [w\<lparr>w_fp := 0, w_loc := P_ret (-1)\<rparr>])"
  using assms by (simp add: pop_step_def entering_def Let_def)

lemma pop_alone_frame:
  assumes "entering w" "f_head s \<noteq> 0" "f_heap s (f_head s) = Some x"
  shows "race [0, 0, 0, 0, 0] s [w] = Some (\<lparr>f_heap = (f_heap s)(f_head s := None), f_head = n_next x\<rparr>,
    [w\<lparr>w_fp := f_head s, w_nx := n_next x, w_out := Some (n_fpn x), w_loc := P_ret 0\<rparr>])"
  using assms by (cases s) (simp add: pop_step_def entering_def Let_def)

text \<open>
  C26. Alone, a thread inside \<open>MEMPHY_get_freefp\<close> does what the function does in one step: on a list in
  memory that holds the free frames of a device it returns, after at most five accesses, with the same
  code and the same frame, and the list holds the frames that are left.
\<close>

theorem get_freefp_alone:
  assumes "holds_frames s (free_frames m)" "pool_ok m" "entering w"
  shows "\<exists>n s' w' r f m'. n \<le> 5 \<and> race (replicate n 0) s [w] = Some (s', [w']) \<and> w_loc w' = P_ret r \<and>
    MEMPHY_get_freefp (Some m) = Some (r, f, Some m') \<and> (r = 0 \<longrightarrow> w_out w' = f) \<and> holds_frames s' (free_frames m')"
proof (cases "free_frames m")
  case Nil
  then have "MEMPHY_get_freefp (Some m) = Some (-1, None, Some m)" using get_freefp_cases [OF assms(2)] by simp
  moreover have "race (replicate 1 0) s [w] = Some (s, [w\<lparr>w_fp := 0, w_loc := P_ret (-1)\<rparr>])"
    using pop_alone_empty [OF assms(3)] holds_frames_Nil assms(1) Nil by simp
  ultimately show ?thesis using assms(1) by (intro exI [of _ 1] exI conjI) (assumption | simp)+
next
  case (Cons f fs)
  from holds_frames_Cons [OF assms(1) [unfolded Cons]] obtain x where x: "f_head s \<noteq> 0" "f_heap s (f_head s) = Some x"
    "n_fpn x = f" "holds_frames \<lparr>f_heap = (f_heap s)(f_head s := None), f_head = n_next x\<rparr> fs" .
  let ?m = "m\<lparr>free_fp_list := list_fp fs\<rparr>"
  have "MEMPHY_get_freefp (Some m) = Some (0, Some f, Some ?m)" "free_frames ?m = fs"
    using get_freefp_cases [OF assms(2)] Cons by simp_all
  moreover have "replicate 5 0 = [0, 0, 0, 0, 0 :: nat]" by (simp add: numeral_eq_Suc)
  ultimately show ?thesis
    using pop_alone_frame [OF assms(3) x(1,2)] x(3,4) by (intro exI [of _ 5] exI conjI) (assumption | simp)+
qed

subsection \<open>Together\<close>

text \<open>
  C25. Two threads inside \<open>MEMPHY_get_freefp\<close> at once, with a frame left: they can both have been given the
  same frame, with only one frame gone from the list; and once the first has freed the node, the
  second's \<open>free\<close> is undefined.
\<close>

theorem get_freefp_race:
  assumes "holds_frames s (f # fs)" "entering v" "entering w"
  shows "\<exists>s' v' w'. race [0, 1, 0, 1, 0, 1, 0, 1, 0] s [v, w] = Some (s', [v', w']) \<and>
    w_loc v' = P_ret 0 \<and> w_out v' = Some f \<and> w_out w' = Some f \<and> holds_frames s' fs \<and> pop_step s' w' = None"
proof -
  from holds_frames_Cons [OF assms(1)] obtain x where x: "f_head s \<noteq> 0" "f_heap s (f_head s) = Some x"
    "n_fpn x = f" "holds_frames \<lparr>f_heap = (f_heap s)(f_head s := None), f_head = n_next x\<rparr> fs" .
  let ?s = "\<lparr>f_heap = (f_heap s)(f_head s := None), f_head = n_next x\<rparr>"
  have "race [0, 1, 0, 1, 0, 1, 0, 1, 0] s [v, w] = Some (?s,
      [v\<lparr>w_fp := f_head s, w_nx := n_next x, w_out := Some f, w_loc := P_ret 0\<rparr>,
       w\<lparr>w_fp := f_head s, w_nx := n_next x, w_out := Some f, w_loc := P_free\<rparr>])"
    using x assms(2,3) by (cases s) (simp add: pop_step_def entering_def Let_def)
  with x(4) show ?thesis by (intro exI conjI) (assumption | simp add: pop_step_def)+
qed

definition two_frames :: fp_shared where
  "two_frames = \<lparr>f_heap = [8 \<mapsto> \<lparr>n_fpn = 0, n_next = 16\<rparr>, 16 \<mapsto> \<lparr>n_fpn = 1, n_next = 0\<rparr>], f_head = 8\<rparr>"

definition new_popper :: popper where
  "new_popper = \<lparr>w_loc = P_read, w_fp = 0, w_nx = 0, w_out = None\<rparr>"

lemma two_frames_hold: "holds_frames two_frames [0, 1]" "entering new_popper"
  unfolding holds_frames_def by (rule exI [of _ "[8, 16]"]) (simp add: two_frames_def, simp add: entering_def new_popper_def)

theorem get_freefp_alone_witness:
  "\<exists>n s' w'. race (replicate n 0) two_frames [new_popper] = Some (s', [w']) \<and> w_loc w' = P_ret 0 \<and> holds_frames s' [1]"
proof -
  let ?m = "blank_memphy\<lparr>free_fp_list := list_fp [0, 1]\<rparr>"
  have m: "free_frames ?m = [0, 1]" "pool_ok ?m" by (simp_all add: free_frames_def pool_ok_def)
  then have "MEMPHY_get_freefp (Some ?m) = Some (0, Some 0, Some (?m\<lparr>free_fp_list := list_fp [1]\<rparr>))"
    using get_freefp_cases [OF m(2)] by simp
  then show ?thesis
    using get_freefp_alone [of two_frames ?m new_popper] two_frames_hold m by (auto simp: free_frames_def)
qed

theorem get_freefp_race_witness:
  "\<exists>s' v' w'. race [0, 1, 0, 1, 0, 1, 0, 1, 0] two_frames [new_popper, new_popper] = Some (s', [v', w']) \<and>
    w_out v' = Some 0 \<and> w_out w' = Some 0 \<and> pop_step s' w' = None"
  using get_freefp_race [OF two_frames_hold(1) two_frames_hold(2) two_frames_hold(2)] by blast

end
