(* ===== verification/Locking.thy ===== *)
theory Locking
  imports Sched
begin

text \<open>
  The lock regions of the scheduler (\<open>src/sched.c\<close>): \<open>put_proc\<close> and \<open>add_proc\<close> take \<open>queue_lock\<close> twice, once
  for \<open>running_list\<close> and once for the ready queue. What other threads do in between, region by region, and
  when a call can be taken as one step.
\<close>

subsection \<open>Regions\<close>

datatype region = In_running pcb_ptr | In_ready pcb_ptr | In_get

definition put_running :: "pcbs \<Rightarrow> sched \<Rightarrow> pcb_ptr \<Rightarrow> (pcbs \<times> sched) option" where
  "put_running st s proc = do {
     x \<leftarrow> st proc;
     rl \<leftarrow> enqueue (s_running s) proc;
     Some (st(proc \<mapsto> link_queues x), s\<lparr>s_running := rl\<rparr>)
   }"

text \<open>A region gives the processes it takes out of the queues, and the new state.\<close>

definition region_step :: "region \<Rightarrow> sched_state \<Rightarrow> (pcb_ptr list \<times> sched_state) option" where
  "region_step r x = (case r of
     In_running p \<Rightarrow> do { y \<leftarrow> put_running (fst x) (snd x) p; Some ([], y) }
   | In_ready p \<Rightarrow> do { s \<leftarrow> put_mlq_proc (fst x) (snd x) p; Some ([], (fst x, s)) }
   | In_get \<Rightarrow> do { (p, s) \<leftarrow> get_mlq_proc (fst x) (snd x); Some ([p], (fst x, s)) })"

fun in_turn :: "region list \<Rightarrow> sched_state \<Rightarrow> (pcb_ptr list \<times> sched_state) option" where
  "in_turn [] x = Some ([], x)"
| "in_turn (r # rs) x = do {
     (ps, y) \<leftarrow> region_step r x;
     (qs, z) \<leftarrow> in_turn rs y;
     Some (ps @ qs, z)
   }"

text \<open>\<open>put_proc\<close> is its two regions in turn, and so is \<open>add_proc\<close>.\<close>

lemma put_proc_regions:
  "in_turn [In_running p, In_ready p] x = map_option (Pair []) (put_proc (fst x) (snd x) p)"
  by (auto simp: region_step_def put_running_def put_proc_def Let_def split: Option.bind_split option.splits)

subsection \<open>When a call is one step\<close>

text \<open>The functions of the ready queues read nothing that the first region writes.\<close>

lemma best_loop_cong:
  assumes "\<And>p. map_option priority (st p) = map_option priority (st' p)"
  shows "best_loop st ps b is = best_loop st' ps b is"
proof (induction "is" arbitrary: b)
  case (Cons i "is")
  have eq: "st p = None \<and> st' p = None \<or> (\<exists>x x'. st p = Some x \<and> st' p = Some x' \<and> priority x = priority x')" for p
    using assms [of p] by (cases "st p"; cases "st' p") simp_all
  show ?case
  proof (cases "arr_get ps i")
    case i: (Some x)
    show ?thesis
    proof (cases "arr_get ps b")
      case b: (Some y)
      show ?thesis using eq [of x] eq [of y] i b Cons.IH by auto
    qed (use eq [of x] i in auto)
  qed simp
qed simp

lemma get_mlq_proc_cong:
  assumes "\<And>p. map_option priority (st p) = map_option priority (st' p)"
  shows "get_mlq_proc st s = get_mlq_proc st' s"
proof -
  have "dequeue st = dequeue st'" by (rule ext) (simp add: dequeue_def best_loop_cong [OF assms])
  then have "get_mlq_loop st qs is = get_mlq_loop st' qs is" for qs "is"
    by (induction "is") (simp_all cong: if_cong)
  then show ?thesis by (simp add: get_mlq_proc_def)
qed

lemma get_mlq_proc_running:
  "get_mlq_proc st (s\<lparr>s_running := rl\<rparr>) = map_option (\<lambda>(p, s'). (p, s'\<lparr>s_running := rl\<rparr>)) (get_mlq_proc st s)"
  by (auto simp: get_mlq_proc_def split: Option.bind_split option.split)

lemma put_mlq_proc_running:
  assumes "map_option prio (st p) = map_option prio (st' p)"
  shows "put_mlq_proc st (s\<lparr>s_running := rl\<rparr>) p = map_option (s_running_update (\<lambda>_. rl)) (put_mlq_proc st' s p)"
  using assms by (cases "st p"; cases "st' p") (auto simp: put_mlq_proc_def split: Option.bind_split option.split)

lemma s_running_kept:
  "get_mlq_proc st s = Some (p, s') \<Longrightarrow> s_running s' = s_running s"
  "put_mlq_proc st s q = Some s' \<Longrightarrow> s_running s' = s_running s"
  by (auto simp: get_mlq_proc_def put_mlq_proc_def bind_eq_Some_conv)

definition no_running :: "region \<Rightarrow> bool" where
  "no_running r \<longleftrightarrow> (\<forall>p. r \<noteq> In_running p)"

lemma region_swap:
  assumes "no_running r"
  shows "in_turn (In_running p # r # rs) x = in_turn (r # In_running p # rs) x"
proof -
  obtain st s where x: "x = (st, s)" by (cases x)
  show ?thesis
  proof (cases "st p = None \<or> enqueue (s_running s) p = None")
    case True
    then have "region_step (In_running p) x = None" by (auto simp: x region_step_def put_running_def)
    moreover have "region_step (In_running p) y = None" if "region_step r x = Some (ps, y)" for ps y
      using that True assms s_running_kept
      by (cases r) (auto simp: x region_step_def put_running_def no_running_def bind_eq_Some_conv)
    ultimately show ?thesis by (auto simp: split: Option.bind_split option.split)
  next
    case False
    then obtain a rl where a: "st p = Some a" "enqueue (s_running s) p = Some rl" by auto
    let ?st = "st(p \<mapsto> link_queues a)"
    have "map_option priority (st q) = map_option priority (?st q)" "map_option prio (?st q) = map_option prio (st q)" for q
      using a(1) by (simp_all add: link_queues_def)
    then have get: "get_mlq_proc ?st (s\<lparr>s_running := rl\<rparr>) = map_option (\<lambda>(p, s'). (p, s'\<lparr>s_running := rl\<rparr>)) (get_mlq_proc st s)"
      and put: "put_mlq_proc ?st (s\<lparr>s_running := rl\<rparr>) q = map_option (s_running_update (\<lambda>_. rl)) (put_mlq_proc st s q)" for q
      using get_mlq_proc_cong [of st ?st s] get_mlq_proc_running [of ?st rl s] put_mlq_proc_running by metis+
    show ?thesis
    proof (cases r)
      case (In_ready q)
      then show ?thesis using a put [of q] s_running_kept(2) [where st = st and s = s and q = q]
        by (cases "put_mlq_proc st s q") (auto simp: x region_step_def put_running_def Let_def)
    next
      case In_get
      then show ?thesis using a get s_running_kept(1) [where st = st and s = s]
        by (cases "get_mlq_proc st s") (auto simp: x region_step_def put_running_def Let_def)
    qed (use assms in \<open>simp add: no_running_def\<close>)
  qed
qed

text \<open>
  C29. A call of \<open>put_proc\<close> or \<open>add_proc\<close> can be taken as one step, in the place of its second lock region, as
  long as no other thread enqueues into \<open>running_list\<close> in between: whatever processes other threads take
  from the ready queues or put into them between the two regions, in whatever order, the processes they
  get and the state afterwards are the same.
\<close>

theorem put_proc_one_step:
  assumes "list_all no_running rs"
  shows "in_turn (In_running p # rs @ [In_ready p]) x =
    (case in_turn rs x of None \<Rightarrow> None | Some (ps, y) \<Rightarrow> map_option (Pair ps) (put_proc (fst y) (snd y) p))"
proof -
  have "in_turn (In_running p # rs @ [In_ready p]) x = in_turn (rs @ [In_running p, In_ready p]) x"
    using assms
  proof (induction rs arbitrary: x)
    case (Cons r rs)
    then have "in_turn (In_running p # r # rs @ [In_ready p]) x = in_turn (r # In_running p # rs @ [In_ready p]) x"
      by (intro region_swap) simp
    moreover have "in_turn (In_running p # rs @ [In_ready p]) y = in_turn (rs @ [In_running p, In_ready p]) y" for y
      using Cons by simp
    ultimately show ?case by (simp only: append_Cons in_turn.simps(2) [of r])
  qed simp
  moreover have "in_turn (rs @ ts) x = (case in_turn rs x of None \<Rightarrow> None
      | Some (ps, y) \<Rightarrow> map_option (\<lambda>(qs, z). (ps @ qs, z)) (in_turn ts y))" for ts
  proof (induction rs arbitrary: x)
    case Nil
    then show ?case by (cases "in_turn ts x") simp_all
  next
    case (Cons r rs)
    then show ?case by (auto simp: option.map_comp comp_def split: Option.bind_split option.splits)
  qed
  ultimately show ?thesis
    by (auto simp: put_proc_regions option.map_comp comp_def simp del: in_turn.simps(2) split: option.split)
qed

subsection \<open>When it is not\<close>

text \<open>The processes that the first and the second regions of a sequence enqueue.\<close>

fun firsts :: "region list \<Rightarrow> pcb_ptr list" where
  "firsts [] = []"
| "firsts (In_running p # rs) = p # firsts rs"
| "firsts (_ # rs) = firsts rs"

fun seconds :: "region list \<Rightarrow> pcb_ptr list" where
  "seconds [] = []"
| "seconds (In_ready p # rs) = p # seconds rs"
| "seconds (_ # rs) = seconds rs"

definition puts_at :: "pcbs \<Rightarrow> nat \<Rightarrow> region \<Rightarrow> bool" where
  "puts_at st l r \<longleftrightarrow> (\<exists>p x. (r = In_running p \<or> r = In_ready p) \<and> st p = Some x \<and> uint (prio x) = int l)"

lemma puts_at_link: "st p = Some x \<Longrightarrow> puts_at st l r \<Longrightarrow> puts_at (st(p \<mapsto> link_queues x)) l r"
  by (auto simp: puts_at_def link_queues_def)

lemma put_running_spec:
  assumes "sched_ok st s" "st p = Some x" "length (q_elems (s_running s)) < 10"
  shows "\<exists>s'. put_running st s p = Some (st(p \<mapsto> link_queues x), s') \<and> sched_ok (st(p \<mapsto> link_queues x)) s' \<and>
    q_elems (s_running s') = q_elems (s_running s) @ [p] \<and> s_mlq s' = s_mlq s"
proof -
  from enqueue_room [of "s_running s" p] assms obtain rl where rl: "enqueue (s_running s) p = Some rl" "queue_ok rl"
    "q_elems rl = q_elems (s_running s) @ [p]" by (auto simp: sched_ok_def)
  have "mlq_ok (st(p \<mapsto> link_queues x)) (s_mlq s)" using assms(1) by (auto simp: sched_ok_def mlq_ok_def live_queue_upd)
  with rl assms(2) show ?thesis by (simp add: put_running_def sched_ok_def)
qed

text \<open>
  C30. When calls of \<open>put_proc\<close> and \<open>add_proc\<close> overlap, \<open>running_list\<close> grows in the order of their first
  lock regions and the ready queue in the order of their second ones: two calls whose regions cross leave
  the two lists in different orders, which no sequence of whole calls does.
\<close>

theorem put_regions_order:
  assumes "sched_ok st s" "list_all (puts_at st l) rs" "l < 140"
    and "length (q_elems (s_running s)) + length rs \<le> 10" "length (level s l) + length rs \<le> 10"
  shows "\<exists>st' s'. in_turn rs (st, s) = Some ([], (st', s')) \<and>
    q_elems (s_running s') = q_elems (s_running s) @ firsts rs \<and> level s' l = level s l @ seconds rs"
  using assms
proof (induction rs arbitrary: st s)
  case (Cons r rs)
  from Cons.prems(2) obtain p x where r: "r = In_running p \<or> r = In_ready p" and x: "st p = Some x" "uint (prio x) = int l"
    by (auto simp: puts_at_def)
  from r show ?case
  proof
    assume r: "r = In_running p"
    from put_running_spec [OF Cons.prems(1) x(1)] Cons.prems(4) obtain s1 where
      s1: "put_running st s p = Some (st(p \<mapsto> link_queues x), s1)" "sched_ok (st(p \<mapsto> link_queues x)) s1"
        "q_elems (s_running s1) = q_elems (s_running s) @ [p]" "s_mlq s1 = s_mlq s" by auto
    have "list_all (puts_at (st(p \<mapsto> link_queues x)) l) rs" using Cons.prems(2) puts_at_link [of st p x l, OF x(1)] by (simp add: list_all_iff)
    moreover have "level s1 l = level s l" using s1(4) by (simp add: level_def)
    ultimately show ?thesis
      using Cons.IH [of "st(p \<mapsto> link_queues x)" s1, OF s1(2) _ Cons.prems(3)] Cons.prems(4,5) s1(1,3) r
      by (auto simp: region_step_def simp del: fun_upd_apply)
  next
    assume r: "r = In_ready p"
    have "mlq_ok st (s_mlq s)" "uint (prio x) < 140" "l = nat (uint (prio x))" using Cons.prems(1,3) x(2) by (simp_all add: sched_ok_def)
    from put_mlq_spec [OF this(1) x(1) this(2,3)] Cons.prems(5) obtain s1 where
      s1: "put_mlq_proc st s p = Some s1" "mlq_ok st (s_mlq s1)" "s_running s1 = s_running s" "level s1 l = level s l @ [p]" by auto
    then have "sched_ok st s1" using Cons.prems(1) by (simp add: sched_ok_def)
    then show ?thesis using Cons.IH [of st s1] Cons.prems s1(1,3,4) r by (auto simp: region_step_def)
  qed
qed simp

text \<open>Two processes of one level, and an idle scheduler.\<close>

definition twins :: pcbs where
  "twins = [5 \<mapsto> proc_of 3, 6 \<mapsto> proc_of 3]"

lemma twins_ok: "sched_ok twins blank_sched" "puts_at twins 3 (In_running p) = (p = 5 \<or> p = 6)" "puts_at twins 3 (In_ready p) = (p = 5 \<or> p = 6)"
  by (auto simp: sched_ok_def mlq_ok_def live_queue_def blank_sched_def puts_at_def twins_def proc_of_def)

theorem put_regions_order_witness:
  "\<exists>st' s'. in_turn [In_running 5, In_running 6, In_ready 6, In_ready 5] (twins, blank_sched) = Some ([], (st', s')) \<and>
    q_elems (s_running s') = [5, 6] \<and> level s' 3 = [6, 5]"
proof -
  have "list_all (puts_at twins 3) [In_running 5, In_running 6, In_ready 6, In_ready 5]" by (simp add: twins_ok)
  from put_regions_order [OF twins_ok(1) this] show ?thesis by (simp add: blank_sched_def level_def del: in_turn.simps)
qed

theorem put_proc_one_step_witness:
  "in_turn [In_running 5, In_get, In_ready 6, In_ready 5] (twins, blank_sched) =
    (case in_turn [In_get, In_ready 6] (twins, blank_sched) of None \<Rightarrow> None
     | Some (ps, y) \<Rightarrow> map_option (Pair ps) (put_proc (fst y) (snd y) 5))"
proof -
  have "list_all no_running [In_get, In_ready 6]" by (simp add: no_running_def)
  from put_proc_one_step [OF this] show ?thesis by (simp del: in_turn.simps)
qed

end
