(* ===== verification/Nomem.thy ===== *)
theory Nomem
  imports Vm
begin

text \<open>
  What the extension of a virtual memory area (\<open>inc_vma_limit\<close> of \<open>src/mm-vm.c\<close> and what it calls in
  \<open>src/mm.c\<close>) and \<open>init_mm\<close> do when \<open>malloc\<close> returns \<open>NULL\<close>. In \<open>Vm\<close> it never does. Here \<open>mal i\<close> says whether
  the \<open>i\<close>-th call succeeds, and a function takes and returns the number of calls made so far. Where the code
  does not test the pointer it got, the null pointer is dereferenced, which is undefined (\<open>None\<close>).
\<close>

subsection \<open>The functions\<close>

text \<open>The first result is 0 when the loop ends, else the error code it returns.\<close>

fun alloc_pages_loop_m ::
  "(nat \<Rightarrow> bool) \<Rightarrow> nat \<Rightarrow> nat \<Rightarrow> memphy option \<Rightarrow> framephy \<Rightarrow> (cint \<times> framephy \<times> memphy option \<times> nat) option" where
  "alloc_pages_loop_m mal t 0 mp hd0 = Some (0, hd0, mp, t)"
| "alloc_pages_loop_m mal t (Suc k) mp hd0 = do {
     (r, f, mp') \<leftarrow> MEMPHY_get_freefp mp;
     if r = 0 then
       if \<not> mal t then Some (-1, hd0, mp', Suc t)
       else do {
         n \<leftarrow> f;
         let temp = FpNode n FpNull;
         alloc_pages_loop_m mal (Suc t) k mp' (if hd0 = FpNull then temp else fp_link_tail hd0 temp)
       }
     else Some (-3000, hd0, mp', t)
   }"

definition alloc_pages_range_m ::
  "(nat \<Rightarrow> bool) \<Rightarrow> nat \<Rightarrow> devs \<Rightarrow> cint \<Rightarrow> (cint \<times> framephy option \<times> devs \<times> nat) option" where
  "alloc_pages_range_m mal t d req_pgnum = do {
     (e, lst, mp, t') \<leftarrow> alloc_pages_loop_m mal t (nat req_pgnum) (mram d) FpNull;
     let d' = d\<lparr>mram := mp\<rparr>;
     if e = 0 then Some (req_pgnum, Some lst, d', t') else Some (e, None, d', t')
   }"

text \<open>\<open>enlist_pgn_node\<close>, at the end of \<open>vmap_page_range\<close>, writes to the block it gets.\<close>

definition vmap_page_range_m ::
  "(nat \<Rightarrow> bool) \<Rightarrow> nat \<Rightarrow> pcb_t \<Rightarrow> cint \<Rightarrow> cint \<Rightarrow> framephy \<Rightarrow> (cint \<times> (u64 \<times> u64) \<times> pcb_t \<times> nat) option" where
  "vmap_page_range_m mal t caller addr pgnum frames = do {
     (r, rg, caller') \<leftarrow> vmap_page_range caller addr pgnum frames;
     if mal t then Some (r, rg, caller', Suc t) else None
   }"

definition vm_map_ram_m ::
  "(nat \<Rightarrow> bool) \<Rightarrow> nat \<Rightarrow> pcb_t \<Rightarrow> devs \<Rightarrow> cint \<Rightarrow> cint \<Rightarrow> cint \<Rightarrow> cint \<Rightarrow>
   (cint \<times> (u64 \<times> u64) option \<times> pcb_t \<times> devs \<times> nat) option" where
  "vm_map_ram_m mal t caller d astart aend mapstart incpgnum = do {
     (ret_alloc, out, d', t1) \<leftarrow> alloc_pages_range_m mal t d incpgnum;
     let frm_lst = (case out of Some l \<Rightarrow> l | None \<Rightarrow> FpNull);
     if ret_alloc < 0 \<and> ret_alloc \<noteq> -3000 then Some (-1, None, caller, d', t1)
     else if ret_alloc = -3000 then Some (-1, None, caller, d', t1)
     else do {
       (_, rg, caller', t2) \<leftarrow> vmap_page_range_m mal t1 caller mapstart incpgnum frm_lst;
       Some (0, Some rg, caller', d', t2)
     }
   }"

definition get_vm_area_node_at_brk_m ::
  "(nat \<Rightarrow> bool) \<Rightarrow> nat \<Rightarrow> pcb_t \<Rightarrow> cint \<Rightarrow> cint \<Rightarrow> cint \<Rightarrow> vm_rg_struct option \<times> pcb_t \<times> nat" where
  "get_vm_area_node_at_brk_m mal t caller vmaid sz alignedsz =
    (if \<not> mal t then (None, caller, Suc t)
     else let (area, caller') = get_vm_area_node_at_brk caller vmaid sz alignedsz in (Some area, caller', Suc t))"

definition inc_vma_limit_m ::
  "(nat \<Rightarrow> bool) \<Rightarrow> nat \<Rightarrow> pcb_t \<Rightarrow> devs \<Rightarrow> cint \<Rightarrow> cint \<Rightarrow> (cint \<times> pcb_t \<times> devs \<times> nat) option" where
  "inc_vma_limit_m mal t caller d vmaid inc_sz =
    (if \<not> mal t then Some (-1, caller, d, Suc t)
     else do {
       inc_amt \<leftarrow> PAGING_PAGE_ALIGNSZ inc_sz;
       let incnumpage = inc_amt sdiv PAGING_PAGESZ;
       let (area0, caller1, t1) = get_vm_area_node_at_brk_m mal (Suc t) caller vmaid inc_sz inc_amt;
       (case area0 of
          None \<Rightarrow> Some (-1, caller1, d, t1)
        | Some area \<Rightarrow> do {
            m \<leftarrow> mm caller1;
            (case get_vma_by_num m vmaid of
               None \<Rightarrow> Some (-1, caller1, d, t1)
             | Some k \<Rightarrow> do {
                 let cur_vma = mmap m ! k;
                 let old_end = int_of_u64 (vm_end cur_vma);
                 ov \<leftarrow> validate_overlap_vm_area caller1 vmaid
                         (int_of_u64 (rg_start area)) (int_of_u64 (rg_end area));
                 if ov < 0 then Some (-1, caller1, d, t1)
                 else do {
                   let caller2 = caller1\<lparr>mm := Some (vma_set m k (cur_vma\<lparr>vm_end := rg_end area\<rparr>))\<rparr>;
                   (r, _, caller3, d', t2) \<leftarrow> vm_map_ram_m mal t1 caller2 d (int_of_u64 (rg_start area))
                         (int_of_u64 (rg_end area)) old_end incnumpage;
                   if r < 0 then Some (-1, caller3, d', t2) else Some (0, caller3, d', t2)
                 }
               })
          })
     })"

text \<open>\<open>init_mm\<close>: a page directory that is \<open>NULL\<close> has no entry that can be accessed.\<close>

definition init_mm_m ::
  "(nat \<Rightarrow> bool) \<Rightarrow> nat \<Rightarrow> mm_struct \<Rightarrow> u32 list \<Rightarrow> rg_ptr \<Rightarrow> (cint \<times> mm_struct \<times> nat) option" where
  "init_mm_m mal t m pgd0 freerg0 =
    (if \<not> mal t then Some (-1, m, Suc t)
     else if \<not> mal (Suc t) then Some (-1, m\<lparr>pgd := []\<rparr>, t + 2)
     else if \<not> mal (t + 2) then None
     else do {
       (r, m') \<leftarrow> init_mm m pgd0 freerg0;
       Some (r, m', t + 3)
     })"

subsection \<open>When every call succeeds\<close>

lemma alloc_pages_loop_m_ok:
  assumes "\<forall>i. mal i"
  shows "\<exists>u. alloc_pages_loop_m mal t k mp l =
    map_option (\<lambda>(okay, l', mp'). (if okay then 0 else -3000, l', mp', u)) (alloc_pages_loop k mp l)"
proof (induction k arbitrary: t mp l)
  case (Suc k)
  show ?case
  proof (cases "MEMPHY_get_freefp mp")
    case (Some x)
    obtain r f mp' where x: "x = (r, f, mp')" by (cases x)
    show ?thesis
    proof (cases f)
      case None
      then show ?thesis using Some x assms by simp
    next
      case f: (Some n)
      show ?thesis using Some x f assms Suc.IH [of "Suc t" mp'] by (cases "r = 0") (simp_all add: Let_def)
    qed
  qed simp
qed simp

lemma alloc_pages_range_m_ok:
  assumes "\<forall>i. mal i"
  shows "\<exists>u. alloc_pages_range_m mal t d n = map_option (\<lambda>(r, l, d'). (r, l, d', u)) (alloc_pages_range d n)"
proof -
  from alloc_pages_loop_m_ok [OF assms, of t "nat n" "mram d" FpNull] obtain u where
    "alloc_pages_loop_m mal t (nat n) (mram d) FpNull =
      map_option (\<lambda>(okay, l', mp'). (if okay then 0 else -3000, l', mp', u)) (alloc_pages_loop (nat n) (mram d) FpNull)" ..
  then show ?thesis
    by (intro exI [of _ u], cases "alloc_pages_loop (nat n) (mram d) FpNull")
      (auto simp: alloc_pages_range_m_def alloc_pages_range_def Let_def)
qed

lemma vm_map_ram_m_ok:
  assumes "\<forall>i. mal i"
  shows "\<exists>u. vm_map_ram_m mal t c d as ae a n = map_option (\<lambda>(r, rg, c', d'). (r, rg, c', d', u)) (vm_map_ram c d as ae a n)"
proof -
  from alloc_pages_range_m_ok [OF assms, of t d n] obtain u where
    u: "alloc_pages_range_m mal t d n = map_option (\<lambda>(r, l, d'). (r, l, d', u)) (alloc_pages_range d n)" ..
  show ?thesis
  proof (cases "alloc_pages_range d n")
    case (Some x)
    obtain r l d' where x: "x = (r, l, d')" by (cases x)
    show ?thesis
    proof (cases "r < 0")
      case True
      then show ?thesis using u Some x by (auto simp: vm_map_ram_m_def vm_map_ram_def Let_def)
    next
      case False
      then show ?thesis using u Some x assms
        by (intro exI [of _ "Suc u"])
          (cases "vmap_page_range c a n (case l of Some l \<Rightarrow> l | None \<Rightarrow> FpNull)",
            auto simp: vm_map_ram_m_def vm_map_ram_def Let_def vmap_page_range_m_def)
    qed
  qed (use u in \<open>simp add: vm_map_ram_m_def vm_map_ram_def\<close>)
qed

text \<open>Then the functions are those of \<open>Vm\<close>.\<close>

lemma inc_vma_limit_m_ok:
  assumes "\<forall>i. mal i"
  shows "map_option (\<lambda>(r, c', d', _). (r, c', d')) (inc_vma_limit_m mal t c d vmaid sz) = inc_vma_limit c d vmaid sz"
proof (cases "PAGING_PAGE_ALIGNSZ sz")
  case (Some amt)
  define area c1 where "area = fst (get_vm_area_node_at_brk c vmaid sz amt)" and "c1 = snd (get_vm_area_node_at_brk c vmaid sz amt)"
  then have a: "get_vm_area_node_at_brk c vmaid sz amt = (area, c1)" by simp
  show ?thesis
  proof (cases "mm c1")
    case m: (Some m)
    show ?thesis
    proof (cases "get_vma_by_num m vmaid")
      case k: (Some k)
      let ?c2 = "c1\<lparr>mm := Some (vma_set m k ((mmap m ! k)\<lparr>vm_end := rg_end area\<rparr>))\<rparr>"
      from vm_map_ram_m_ok [OF assms, of "Suc (Suc t)" ?c2 d "int_of_u64 (rg_start area)" "int_of_u64 (rg_end area)"
          "int_of_u64 (vm_end (mmap m ! k))" "amt sdiv PAGING_PAGESZ"] obtain u where
        u: "vm_map_ram_m mal (Suc (Suc t)) ?c2 d (int_of_u64 (rg_start area)) (int_of_u64 (rg_end area))
            (int_of_u64 (vm_end (mmap m ! k))) (amt sdiv PAGING_PAGESZ) =
          map_option (\<lambda>(r, rg, c', d'). (r, rg, c', d', u)) (vm_map_ram ?c2 d (int_of_u64 (rg_start area))
            (int_of_u64 (rg_end area)) (int_of_u64 (vm_end (mmap m ! k))) (amt sdiv PAGING_PAGESZ))" ..
      show ?thesis
        using assms Some a m k u
        by (cases "vm_map_ram ?c2 d (int_of_u64 (rg_start area)) (int_of_u64 (rg_end area))
            (int_of_u64 (vm_end (mmap m ! k))) (amt sdiv PAGING_PAGESZ)")
          (auto simp: inc_vma_limit_m_def inc_vma_limit_def get_vm_area_node_at_brk_m_def Let_def
            validate_overlap_vm_area_def)
    qed (use assms Some a m in \<open>simp add: inc_vma_limit_m_def inc_vma_limit_def get_vm_area_node_at_brk_m_def Let_def\<close>)
  qed (use assms Some a in \<open>simp add: inc_vma_limit_m_def inc_vma_limit_def get_vm_area_node_at_brk_m_def Let_def\<close>)
qed (use assms in \<open>simp add: inc_vma_limit_m_def inc_vma_limit_def\<close>)

subsection \<open>When a call fails\<close>

lemma alloc_pages_loop_m_run:
  assumes "pool_ok m" "\<forall>i < k. mal (t + i)" "k \<le> length (free_frames m)"
  shows "alloc_pages_loop_m mal t (k + n) (Some m) (list_fp ns) = alloc_pages_loop_m mal (t + k) n
    (Some (m\<lparr>free_fp_list := list_fp (drop k (free_frames m))\<rparr>)) (list_fp (ns @ take k (free_frames m)))"
  using assms
proof (induction k arbitrary: t m ns)
  case 0
  then have "list_fp (free_frames m) = free_fp_list m" using list_fp_fp_list by (simp add: pool_ok_def free_frames_def)
  then show ?case by simp
next
  case (Suc k)
  then obtain f fs where fs: "free_frames m = f # fs" by (cases "free_frames m") auto
  let ?m = "m\<lparr>free_fp_list := list_fp fs\<rparr>"
  have g: "MEMPHY_get_freefp (Some m) = Some (0, Some f, Some ?m)" using get_freefp_cases [OF Suc.prems(1)] fs by simp
  have "mal t" "\<forall>i < k. mal (Suc t + i)" using Suc.prems(2) [rule_format, of 0] Suc.prems(2) [rule_format, of "Suc i" for i] by auto
  moreover have "pool_ok ?m" "free_frames ?m = fs" by (simp_all add: pool_ok_def free_frames_def)
  ultimately show ?case using Suc.IH [of ?m "Suc t" "ns @ [f]"] Suc.prems(3) fs g list_fp_snoc [of ns f] by (simp add: Let_def)
qed

text \<open>Call number \<open>j\<close> of the loop fails: the frame taken for it and those taken before are on no list any more.\<close>

lemma alloc_pages_range_m_fails:
  assumes "mram d = Some m" "pool_ok m" "\<forall>i < j. mal (t + i)" "\<not> mal (t + j)" "j < nat n" "j < length (free_frames m)"
  shows "alloc_pages_range_m mal t d n =
    Some (-1, None, d\<lparr>mram := Some (m\<lparr>free_fp_list := list_fp (drop (Suc j) (free_frames m))\<rparr>)\<rparr>, t + Suc j)"
proof -
  let ?m = "m\<lparr>free_fp_list := list_fp (drop j (free_frames m))\<rparr>"
  obtain k where k: "nat n = j + Suc k" using assms(5) less_imp_Suc_add by fastforce
  have m: "pool_ok ?m" "free_frames ?m = free_frames m ! j # drop (Suc j) (free_frames m)"
    using assms(6) by (simp_all add: pool_ok_def free_frames_def Cons_nth_drop_Suc)
  have "alloc_pages_loop_m mal t (nat n) (Some m) FpNull =
      Some (-1, list_fp (take j (free_frames m)), Some (m\<lparr>free_fp_list := list_fp (drop (Suc j) (free_frames m))\<rparr>), t + Suc j)"
    using alloc_pages_loop_m_run [of m j mal t "Suc k" "[]"] assms get_freefp_cases [OF m(1)] m(2) unfolding k by simp
  then show ?thesis using assms(1) by (simp add: alloc_pages_range_m_def)
qed

lemma alloc_pages_range_m_all:
  assumes "mram d = Some m" "pool_ok m" "\<forall>i < nat n. mal (t + i)" "0 \<le> n" "nat n \<le> length (free_frames m)"
  shows "alloc_pages_range_m mal t d n = map_option (\<lambda>(r, l, d'). (r, l, d', t + nat n)) (alloc_pages_range d n)"
proof -
  have r: "alloc_pages_loop_m mal t (nat n) (Some m) FpNull = Some (0, list_fp (take (nat n) (free_frames m)),
      Some (m\<lparr>free_fp_list := list_fp (drop (nat n) (free_frames m))\<rparr>), t + nat n)"
    using alloc_pages_loop_m_run [of m "nat n" mal t 0 "[]"] assms by simp
  from alloc_pages_range_Some [OF assms(1,2,4,5)] obtain l where
    l: "alloc_pages_range d n = Some (n, Some (list_fp (take (nat n) (free_frames m))), d\<lparr>mram := Some (m\<lparr>free_fp_list := l\<rparr>)\<rparr>)"
      "fp_list l = drop (nat n) (free_frames m)" "fp_ended l" by blast
  then have "l = list_fp (drop (nat n) (free_frames m))" using list_fp_fp_list [of l] by simp
  then show ?thesis using r l(1) assms(1) by (simp add: alloc_pages_range_m_def)
qed

lemma vm_map_ram_m_fails:
  assumes "mram d = Some m" "pool_ok m" "\<forall>i < j. mal (t + i)" "\<not> mal (t + j)" "j < nat n" "j < length (free_frames m)"
  shows "vm_map_ram_m mal t c d as ae a n =
    Some (-1, None, c, d\<lparr>mram := Some (m\<lparr>free_fp_list := list_fp (drop (Suc j) (free_frames m))\<rparr>)\<rparr>, t + Suc j)"
  using alloc_pages_range_m_fails [OF assms] by (simp add: vm_map_ram_m_def)

lemma vm_map_ram_m_all:
  assumes "mram d = Some m" "pool_ok m" "\<forall>i < nat n. mal (t + i)" "0 \<le> n" "nat n \<le> length (free_frames m)"
  shows "vm_map_ram_m mal t c d as ae a n = (if mal (t + nat n)
    then map_option (\<lambda>(r, rg, c', d'). (r, rg, c', d', t + nat n + 1)) (vm_map_ram c d as ae a n) else None)"
proof -
  from alloc_pages_range_Some [OF assms(1,2,4,5)] obtain l d' where l: "alloc_pages_range d n = Some (n, Some l, d')" by blast
  then show ?thesis using alloc_pages_range_m_all [OF assms] assms(4)
    by (cases "vmap_page_range c a n l") (auto simp: vm_map_ram_m_def vm_map_ram_def Let_def vmap_page_range_m_def)
qed

text \<open>The call up to the mapping, once its first two blocks are there.\<close>

lemma inc_vma_limit_m_eq:
  assumes ok: "mal t" "mal (Suc t)" and m0: "mm c = Some m0" and v: "mmap m0 = v # vs" "int_of_u64 (vm_id v) = 0"
    and sz: "0 \<le> sz" "sz + 256 < 2 ^ 31" and amt: "amt = (sz + 255) div 256 * 256" and b: "uint (bp c) + amt < 2 ^ 31"
    and le: "vm_end v \<le> u64_of_u32 (bp c)"
  shows "inc_vma_limit_m mal t c d 0 sz =
    (let c2 = c\<lparr>bp := bp c + u32_of_int amt, mm := Some (m0\<lparr>mmap := v\<lparr>vm_end := u64_of_u32 (bp c + u32_of_int amt)\<rparr> # vs\<rparr>)\<rparr>
     in do {
          (r, _, c3, d', t2) \<leftarrow> vm_map_ram_m mal (t + 2) c2 d (uint (bp c)) (uint (bp c) + amt)
             (int_of_u64 (vm_end v)) (amt div 256);
          if r < 0 then Some (-1, c3, d', t2) else Some (0, c3, d', t2)
        })"
proof -
  have pos: "0 \<le> amt" using sz(1) by (simp add: amt)
  then have bp: "uint (bp c) < 2 ^ 31" "uint (bp c + u32_of_int amt) = uint (bp c) + amt"
    using b uint_bp_add [OF pos b] uint_ge_0 [of "bp c"] by linarith+
  then have i: "int_of_u64 (u64_of_u32 (bp c)) = uint (bp c)"
    "int_of_u64 (u64_of_u32 (bp c + u32_of_int amt)) = uint (bp c) + amt"
    using b by (simp_all add: int_of_u64_of_u32)
  have div: "amt sdiv PAGING_PAGESZ = amt div 256" using pos by (simp add: PAGING_PAGESZ_def sdiv_256)
  have "get_vma_by_num m 0 = Some 0" if "mmap m = v # vs" for m
    using that v(2) by (simp add: get_vma_by_num_def)
  then show ?thesis
    using ok m0 v pos PAGING_PAGE_ALIGNSZ_eq [OF sz] i div le
    by (simp add: inc_vma_limit_m_def amt [symmetric] get_vm_area_node_at_brk_m_def get_vm_area_node_at_brk_def Let_def
        validate_overlap_vm_area_def u64_of_int_uint vma_set_def not_less [symmetric])
qed

text \<open>
  C22. Out of memory while an area is extended by \<open>n\<close> pages, with frames left: which of the \<open>n + 3\<close> calls of
  \<open>malloc\<close> fails first decides what happens. If it is one of the first two, \<open>inc_vma_limit\<close> returns -1 and
  nothing has changed. If it is one of the next \<open>n\<close>, it returns -1 with no page mapped, but the break
  pointer and the end of the area have moved, and the frame it was for and those taken before are lost.
  If it is the last, the code dereferences the null pointer. If all succeed the call does what it does in
  \<open>Vm\<close>.
\<close>

theorem extension_out_of_memory:
  assumes "mm c = Some m0" "mmap m0 = v # vs" "int_of_u64 (vm_id v) = 0"
    and "mram d = Some m" "pool_ok m" "vm_end v \<le> u64_of_u32 (bp c)"
    and "0 < sz" "sz \<le> n * PAGING_PAGESZ" "n * PAGING_PAGESZ < sz + PAGING_PAGESZ" "nat n \<le> length (free_frames m)"
    and "uint (bp c) + n * PAGING_PAGESZ < 2 ^ 31" "sz + 256 < 2 ^ 31"
    and "\<forall>i < j. mal (t + i)" "j < nat n + 3 \<longrightarrow> \<not> mal (t + j)"
  shows "inc_vma_limit_m mal t c d 0 sz =
    (if j < 2 then Some (-1, c, d, t + j + 1)
     else if j < nat n + 2 then
       let b = bp c + u32_of_int (n * PAGING_PAGESZ) in
       Some (-1, c\<lparr>bp := b, mm := Some (m0\<lparr>mmap := v\<lparr>vm_end := u64_of_u32 b\<rparr> # vs\<rparr>)\<rparr>,
         d\<lparr>mram := Some (m\<lparr>free_fp_list := list_fp (drop (j - 1) (free_frames m))\<rparr>)\<rparr>, t + j + 1)
     else if j = nat n + 2 then None
     else map_option (\<lambda>(r, c', d'). (r, c', d', t + nat n + 3)) (inc_vma_limit c d 0 sz))"
proof (cases "j < 2")
  case True
  then have "j = 0 \<or> j = 1" by linarith
  moreover obtain amt where "PAGING_PAGE_ALIGNSZ sz = Some amt" using PAGING_PAGE_ALIGNSZ_eq [of sz] assms(7,12) by auto
  ultimately show ?thesis using assms(13,14)
    by (auto simp: inc_vma_limit_m_def get_vm_area_node_at_brk_m_def Let_def)
next
  case False
  define amt where "amt = (sz + 255) div 256 * 256"
  have n: "amt = n * 256" "amt div 256 = n" "0 < n" using assms(7-9) by (auto simp: amt_def PAGING_PAGESZ_def)
  have b: "uint (bp c) + amt < 2 ^ 31" using assms(11) n by (simp add: PAGING_PAGESZ_def)
  have sz: "0 \<le> sz" "sz + 256 < 2 ^ 31" using assms(7,12) by simp_all
  have ok: "mal t" "mal (Suc t)" "\<forall>i < j - 2. mal (t + 2 + i)"
    using False assms(13) [rule_format, of 0] assms(13) [rule_format, of 1] assms(13) [rule_format, of "2 + i" for i] by (auto simp: less_diff_conv)
  note eq = inc_vma_limit_m_eq [OF ok(1,2) assms(1-3) sz amt_def b assms(6), of d, unfolded n(2)]
  note full = inc_vma_limit_eq [OF assms(1-3) sz amt_def b, of d, unfolded n(2)]
  show ?thesis
  proof (cases "j < nat n + 2")
    case j: True
    have e: "t + 2 + (j - 2) = t + j" using False by simp
    have "\<not> mal (t + 2 + (j - 2))" unfolding e using j assms(14) by simp
    moreover have "j - 2 < nat n" "j - 2 < length (free_frames m)" "Suc (j - 2) = j - 1"
      using j False assms(10) by (simp_all add: less_diff_conv)
    ultimately show ?thesis using vm_map_ram_m_fails [OF assms(4,5) ok(3)] j False n(1)
      by (simp add: eq Let_def PAGING_PAGESZ_def)
  next
    case j: False
    have all: "\<forall>i < nat n. mal (t + 2 + i)" using ok(3) j by auto
    have "mal (t + 2 + nat n) \<longleftrightarrow> j \<noteq> nat n + 2"
      using j assms(13) [rule_format, of "nat n + 2"] assms(14) by (auto simp: ac_simps)
    with vm_map_ram_m_all [OF assms(4,5) all _ assms(10)] n(3) j False assms(6) show ?thesis
      by (auto simp: eq full Let_def map_option_bind option.map_comp not_less bind_map_option comp_def
          intro!: arg_cong [where f = "Option.bind _"])
  qed
qed

text \<open>Two pages for 300 bytes, and a third call of \<open>malloc\<close> that fails: one of the four free frames is lost.\<close>

theorem extension_out_of_memory_witness:
  "\<exists>c' d' m'. inc_vma_limit_m (\<lambda>i. i \<noteq> 2) 0 sample_pcb sample_devs 0 300 = Some (-1, c', d', 3) \<and>
    bp c' \<noteq> bp sample_pcb \<and> mram d' = Some m' \<and> free_frames m' = drop 1 (free_frames sample_ram)"
proof -
  let ?v = "\<lparr>vm_id = 0, vm_start = 0, vm_end = 0, sbrk = 0, vm_freerg_list = RgNull\<rparr>"
  have "mm sample_pcb = Some sample_mm" "mmap sample_mm = ?v # []" "int_of_u64 (vm_id ?v) = 0"
    "mram sample_devs = Some sample_ram" "pool_ok sample_ram" "vm_end ?v \<le> u64_of_u32 (bp sample_pcb)"
    "(0::int) < 300" "300 \<le> 2 * PAGING_PAGESZ" "2 * PAGING_PAGESZ < 300 + PAGING_PAGESZ"
    "nat 2 \<le> length (free_frames sample_ram)" "uint (bp sample_pcb) + 2 * PAGING_PAGESZ < 2 ^ 31" "(300::int) + 256 < 2 ^ 31"
    "\<forall>i < 2. 0 + i \<noteq> (2::nat)" "2 < nat 2 + 3 \<longrightarrow> \<not> 0 + 2 \<noteq> (2::nat)"
    using sample_vm_inv by (simp_all add: int_of_u64_def u64_of_int_def PAGING_PAGESZ_def vm_inv_def pool_frames_ok_def)
  from extension_out_of_memory [where mal = "\<lambda>i. i \<noteq> 2", OF this] show ?thesis
    by (simp add: Let_def PAGING_PAGESZ_def u32_of_int_def free_frames_def)
qed

subsection \<open>\<open>init_mm\<close>\<close>

text \<open>
  \<open>init_mm\<close> reports the failure of its first two calls, leaving the structure unassigned or with a null
  page directory, and dereferences a null pointer when the third fails; \<open>ld_routine\<close> ignores its result.
\<close>

lemma init_mm_out_of_memory:
  "\<not> mal t \<Longrightarrow> init_mm_m mal t m pgd0 freerg0 = Some (-1, m, t + 1)"
  "mal t \<Longrightarrow> \<not> mal (t + 1) \<Longrightarrow> init_mm_m mal t m pgd0 freerg0 = Some (-1, m\<lparr>pgd := []\<rparr>, t + 2)"
  "mal t \<Longrightarrow> mal (t + 1) \<Longrightarrow> \<not> mal (t + 2) \<Longrightarrow> init_mm_m mal t m pgd0 freerg0 = None"
  "mal t \<Longrightarrow> mal (t + 1) \<Longrightarrow> mal (t + 2) \<Longrightarrow> init_mm_m mal t m pgd0 freerg0 =
    map_option (\<lambda>(r, m'). (r, m', t + 3)) (init_mm m pgd0 freerg0)"
  by (auto simp: init_mm_m_def map_option_case split: option.split)

end
