(* ===== verification/Print.thy ===== *)
theory Print
  imports Regions Loader
begin

text \<open>
  The printing functions of \<open>src/mm.c\<close>: each returns its C result and the text it writes. They walk the
  same lists and tables as the memory management, so a wild pointer, an endless list or an index
  outside the page directory is \<open>None\<close>. \<open>libread\<close> and \<open>libwrite\<close> call \<open>print_pgtbl\<close> on the whole table
  of the process; the lemmas here show that this call is always defined for a process with an area, so
  that leaving it out of \<open>Libmem\<close> loses nothing but output.
\<close>

subsection \<open>Conversions\<close>

definition show_int :: "int \<Rightarrow> string" where
  "show_int v = (if v < 0 then CHR ''-'' # show_nat (nat (- v)) else show_nat (nat v))"

definition hex_digit :: "nat \<Rightarrow> char" where
  "hex_digit d = (if d < 10 then char_of (48 + d) else char_of (87 + d))"

fun show_hex :: "nat \<Rightarrow> string" where
  "show_hex n = (if n < 16 then [hex_digit n] else show_hex (n div 16) @ [hex_digit (n mod 16)])"

declare show_hex.simps [simp del]

text \<open>Padding with zeros to a width of 8.\<close>

definition pad8 :: "string \<Rightarrow> string" where
  "pad8 s = replicate (8 - length s) (CHR ''0'') @ s"

definition newline :: string where
  "newline = [CHR 0x0A]"

subsection \<open>Lists\<close>

fun fp_lines :: "framephy \<Rightarrow> string option" where
  "fp_lines FpNull = Some []"
| "fp_lines FpWild = None"
| "fp_lines (FpNode n nx) = do {
     rest \<leftarrow> fp_lines nx;
     Some (''fp['' @ show_int n @ '']'' @ newline @ rest)
   }"

definition print_list_fp :: "framephy \<Rightarrow> (cint \<times> string) option" where
  "print_list_fp ifp =
    (if ifp = FpNull then Some (-1, ''print_list_fp: NULL list'' @ newline)
     else do {
       body \<leftarrow> fp_lines ifp;
       Some (0, ''print_list_fp: '' @ newline @ body @ newline)
     })"

partial_function (option) rg_lines :: "mm_struct \<Rightarrow> rg_ptr \<Rightarrow> string option" where
  "rg_lines m rg =
    (if rg = RgNull then Some []
     else do {
       r \<leftarrow> rg_load m rg;
       rest \<leftarrow> rg_lines m (rg_next r);
       Some (''rg['' @ show_int (sint (rg_start r)) @ ''->'' @ show_int (sint (rg_end r)) @ '']'' @ newline @ rest)
     })"

definition print_list_rg :: "mm_struct \<Rightarrow> rg_ptr \<Rightarrow> (cint \<times> string) option" where
  "print_list_rg m irg =
    (if irg = RgNull then Some (-1, ''print_list_rg: NULL list'' @ newline)
     else do {
       body \<leftarrow> rg_lines m irg;
       Some (0, ''print_list_rg: '' @ newline @ body @ newline)
     })"

fun vma_lines :: "vm_area_struct list \<Rightarrow> string" where
  "vma_lines [] = []"
| "vma_lines (v # vs) =
    ''va['' @ show_int (sint (vm_start v)) @ ''->'' @ show_int (sint (vm_end v)) @ '']'' @ newline @ vma_lines vs"

definition print_list_vma :: "vm_area_struct list \<Rightarrow> cint \<times> string" where
  "print_list_vma ivma =
    (if ivma = [] then (-1, ''print_list_vma: NULL list'' @ newline)
     else (0, ''print_list_vma: '' @ newline @ vma_lines ivma @ newline))"

fun pgn_lines :: "pgn_list \<Rightarrow> string option" where
  "pgn_lines PgNull = Some []"
| "pgn_lines PgWild = None"
| "pgn_lines (PgNode n nx) = do {
     rest \<leftarrow> pgn_lines nx;
     Some (''va['' @ show_int n @ '']-'' @ newline @ rest)
   }"

text \<open>The last \<open>printf\<close> writes the letter n where the others write a newline.\<close>

definition print_list_pgn :: "pgn_list \<Rightarrow> (cint \<times> string) option" where
  "print_list_pgn ip =
    (if ip = PgNull then Some (-1, ''print_list_pgn: NULL list'' @ newline)
     else do {
       body \<leftarrow> pgn_lines ip;
       Some (0, ''print_list_pgn: '' @ newline @ body @ ''n'')
     })"

subsection \<open>The page table\<close>

fun pgtbl_lines :: "mm_struct option \<Rightarrow> int list \<Rightarrow> string option" where
  "pgtbl_lines m0 [] = Some []"
| "pgtbl_lines m0 (pgit # is) = do {
     m \<leftarrow> m0;
     pte \<leftarrow> arr_get (pgd m) pgit;
     rest \<leftarrow> pgtbl_lines m0 is;
     Some (pad8 (show_int (pgit * 4)) @ '': '' @ pad8 (show_hex (unat pte)) @ newline @ rest)
   }"

text \<open>The caller is dereferenced before it is compared with a null pointer.\<close>

definition print_pgtbl :: "pcb_t option \<Rightarrow> u32 \<Rightarrow> u32 \<Rightarrow> (cint \<times> string) option" where
  "print_pgtbl caller start end0 = do {
     e \<leftarrow> (if end0 = -1 then do {
             c \<leftarrow> caller;
             m \<leftarrow> mm c;
             k \<leftarrow> get_vma_by_num m 0;
             Some (ucast (vm_end (mmap m ! k)))
           }
           else Some end0);
     let hdr = ''print_pgtbl: '' @ show_int (sint start) @ '' - '' @ show_int (sint e);
     case caller of
       None \<Rightarrow> Some (-1, hdr @ ''NULL caller'' @ newline)
     | Some c \<Rightarrow> do {
         body \<leftarrow> pgtbl_lines (mm c) [int_of_u32 (PAGING_PGN start)..int_of_u32 (PAGING_PGN e) - 1];
         Some (0, hdr @ newline @ body)
       }
   }"

subsection \<open>What they print\<close>

definition pte_line :: "mm_struct \<Rightarrow> int \<Rightarrow> string" where
  "pte_line m n = pad8 (show_nat (nat (n * 4))) @ '': '' @ pad8 (show_hex (unat (pgd m ! nat n))) @ newline"

lemma pgtbl_lines_eq:
  assumes "\<forall>i \<in> set is. 0 \<le> i \<and> i < int (length (pgd m))"
  shows "pgtbl_lines (Some m) is = Some (concat (map (pte_line m) is))"
  using assms by (induction "is") (auto simp: pte_line_def show_int_def arr_get_in)

lemma rg_lines_chain:
  "rg_path m p qs RgNull \<Longrightarrow>
   rg_lines m p = Some (concat (map (\<lambda>(s, e). ''rg['' @ show_int (sint s) @ ''->'' @ show_int (sint e) @ '']'' @ newline)
     (regions m qs)))"
proof (induction qs arbitrary: p)
  case Nil
  then show ?case by (subst rg_lines.simps) (simp add: regions_def)
next
  case (Cons q qs)
  then obtain r where r: "p = q" "rg_load m q = Some r" "rg_path m (rg_next r) qs RgNull" by (auto split: option.splits)
  then have "q \<noteq> RgNull" by auto
  with Cons r show ?case by (subst rg_lines.simps) (simp add: regions_def region_of_def)
qed

text \<open>
  Whatever the two addresses are, the walk over the page directory stays inside it; it prints a line
  for each page from that of \<open>start\<close> up to that of the end. \<open>libread\<close> and \<open>libwrite\<close> pass -1 for the end,
  which stands for the end of area 0.
\<close>

lemma print_pgtbl_in_bounds:
  assumes "mm c = Some m" "get_vma_by_num m 0 = Some k" "length (pgd m) = 16384"
    and "e = (if end0 = -1 then ucast (vm_end (mmap m ! k)) else end0)"
  shows "print_pgtbl (Some c) start end0 = Some (0,
    ''print_pgtbl: '' @ show_int (sint start) @ '' - '' @ show_int (sint e) @ newline @
    concat (map (pte_line m) [int_of_u32 (PAGING_PGN start)..int_of_u32 (PAGING_PGN e) - 1]))"
proof -
  have "0 \<le> i \<and> i < int (length (pgd m))"
    if "i \<in> set [int_of_u32 (PAGING_PGN start)..int_of_u32 (PAGING_PGN e) - 1]" for i
  proof -
    have "int_of_u32 (PAGING_PGN e) < 16384" "0 \<le> int_of_u32 (PAGING_PGN start)"
      unfolding int_of_PAGING_PGN by (rule pos_mod_bound, simp) (rule pos_mod_sign, simp)
    with that assms(3) show ?thesis by simp
  qed
  then have "pgtbl_lines (Some m) [int_of_u32 (PAGING_PGN start)..int_of_u32 (PAGING_PGN e) - 1] =
      Some (concat (map (pte_line m) [int_of_u32 (PAGING_PGN start)..int_of_u32 (PAGING_PGN e) - 1]))"
    by (intro pgtbl_lines_eq ballI)
  note body = this
  show ?thesis
  proof (cases "end0 = -1")
    case True
    then have "e = ucast (vm_end (mmap m ! k))" using assms(4) by simp
    with True body assms(1,2) show ?thesis by (simp add: print_pgtbl_def)
  next
    case False
    then have "end0 = e" using assms(4) by simp
    with False body assms(1) show ?thesis by (simp add: print_pgtbl_def)
  qed
qed

text \<open>The free list that \<open>get_free_vmrg_area\<close> searches is printed interval by interval.\<close>

lemma print_list_rg_regions:
  assumes "rg_chain m p qs" "qs \<noteq> []"
  shows "print_list_rg m p = Some (0, ''print_list_rg: '' @ newline @
    concat (map (\<lambda>(s, e). ''rg['' @ show_int (sint s) @ ''->'' @ show_int (sint e) @ '']'' @ newline) (regions m qs)) @ newline)"
proof -
  have "p \<noteq> RgNull" using assms by (cases qs) (auto simp: rg_chain_def split: option.splits)
  then show ?thesis
    using rg_lines_chain [of m p qs] assms(1) by (simp add: print_list_rg_def rg_chain_def)
qed

text \<open>
  Free frames are printed in the order in which \<open>MEMPHY_get_freefp\<close> hands them out.
\<close>

lemma print_list_fp_frames:
  assumes "pool_ok mp" "free_frames mp \<noteq> []"
  shows "print_list_fp (free_fp_list mp) = Some (0, ''print_list_fp: '' @ newline @
    concat (map (\<lambda>n. ''fp['' @ show_int n @ '']'' @ newline) (free_frames mp)) @ newline)"
proof -
  have "fp_ended l \<Longrightarrow> fp_lines l = Some (concat (map (\<lambda>n. ''fp['' @ show_int n @ '']'' @ newline) (fp_list l)))" for l
    by (induction l) simp_all
  from this [of "free_fp_list mp"] assms show ?thesis
    by (auto simp: print_list_fp_def pool_ok_def free_frames_def)
qed

end
