(* ===== verification/Macros.thy ===== *)
theory Macros
  imports Bitops
begin

text \<open>
  The macros of \<open>include/bitops.h\<close> and \<open>include/mm.h\<close> that the headers offer and no function uses yet.
  \<open>BIT_ULL_MASK\<close> and \<open>BIT_ULL_WORD\<close> refer to \<open>BITS_PER_LONG_LONG\<close>, which nothing defines, and have no
  expansion.
\<close>

subsection \<open>Bits\<close>

definition BITS_PER_BYTE :: nat where
  "BITS_PER_BYTE = 8"

definition BIT_ULL :: "nat \<Rightarrow> u64" where
  "BIT_ULL nr = push_bit nr 1"

definition BIT_MASK :: "nat \<Rightarrow> u64" where
  "BIT_MASK nr = push_bit (nr mod BITS_PER_LONG) 1"

definition BIT_WORD :: "nat \<Rightarrow> nat" where
  "BIT_WORD nr = nr div BITS_PER_LONG"

text \<open>\<open>sizeof(long)\<close> is 8.\<close>

definition BITS_TO_LONGS :: "nat \<Rightarrow> nat" where
  "BITS_TO_LONGS nr = (nr + BITS_PER_BYTE * 8 - 1) div (BITS_PER_BYTE * 8)"

definition EXTRACT_NBITS :: "u32 \<Rightarrow> nat \<Rightarrow> nat \<Rightarrow> u32" where
  "EXTRACT_NBITS nr h l = drop_bit l (nr AND GENMASK h l)"

subsection \<open>Sizes and fields\<close>

definition PAGING_MEMRAMSZ :: u32 where
  "PAGING_MEMRAMSZ = BIT 21"

definition PAGING_MEMSWPSZ :: u32 where
  "PAGING_MEMSWPSZ = BIT 29"

definition PAGING_SBRK_INIT_SZ :: cint where
  "PAGING_SBRK_INIT_SZ = PAGING_PAGESZ"

definition PAGING_PTE_RESERVE_MASK :: u32 where
  "PAGING_PTE_RESERVE_MASK = BIT 29"

definition PAGING_PTE_EMPTY01_MASK :: u32 where
  "PAGING_PTE_EMPTY01_MASK = BIT 14"

definition PAGING_PTE_EMPTY02_MASK :: u32 where
  "PAGING_PTE_EMPTY02_MASK = BIT 13"

definition PAGING_PTE_SET_PRESENT :: "u32 \<Rightarrow> u32" where
  "PAGING_PTE_SET_PRESENT pte = pte OR PAGING_PTE_PRESENT_MASK"

definition PAGING_PTE_USRNUM_LOBIT :: nat where "PAGING_PTE_USRNUM_LOBIT = 15"
definition PAGING_PTE_USRNUM_HIBIT :: nat where "PAGING_PTE_USRNUM_HIBIT = 27"

definition PAGING_PTE_USRNUM_MASK :: u32 where
  "PAGING_PTE_USRNUM_MASK = GENMASK PAGING_PTE_USRNUM_HIBIT PAGING_PTE_USRNUM_LOBIT"

definition PAGING_ADDR_FPN_LOBIT :: nat where
  "PAGING_ADDR_FPN_LOBIT = NBITS (u32_of_int PAGING_PAGESZ)"

definition PAGING_ADDR_FPN_HIBIT :: nat where
  "PAGING_ADDR_FPN_HIBIT = NBITS PAGING_MEMRAMSZ - 1"

definition PAGING_SWP_LOBIT :: nat where
  "PAGING_SWP_LOBIT = NBITS (u32_of_int PAGING_PAGESZ)"

definition PAGING_SWP_HIBIT :: nat where
  "PAGING_SWP_HIBIT = NBITS PAGING_MEMSWPSZ - 1"

definition PAGING_FPN_MASK :: u32 where
  "PAGING_FPN_MASK = GENMASK PAGING_ADDR_FPN_HIBIT PAGING_ADDR_FPN_LOBIT"

definition PAGING_SWP_MASK :: u32 where
  "PAGING_SWP_MASK = GENMASK PAGING_SWP_HIBIT PAGING_SWP_LOBIT"

subsection \<open>Laws\<close>

lemma EXTRACT_NBITS_take_bit:
  assumes "l \<le> h" "h < 32"
  shows "EXTRACT_NBITS nr h l = take_bit (Suc h - l) (drop_bit l nr)"
  by (rule bit_word_eqI) (use assms in \<open>auto simp: EXTRACT_NBITS_def GENMASK_def BITS_PER_LONG_def bit_simps\<close>)

lemma present_after_set: "PAGING_PAGE_PRESENT (PAGING_PTE_SET_PRESENT pte) \<noteq> 0"
proof -
  have "PAGING_PAGE_PRESENT (PAGING_PTE_SET_PRESENT pte) = PAGING_PTE_PRESENT_MASK"
    by (simp add: PAGING_PAGE_PRESENT_def PAGING_PTE_SET_PRESENT_def bit.conj_disj_distrib2)
  moreover have "PAGING_PTE_PRESENT_MASK \<noteq> 0" by code_simp
  ultimately show ?thesis by simp
qed

text \<open>The fields of an entry: the masks are pairwise disjoint and cover all 32 bits.\<close>

definition pte_masks :: "u32 list" where
  "pte_masks = [PAGING_PTE_PRESENT_MASK, PAGING_PTE_SWAPPED_MASK, PAGING_PTE_RESERVE_MASK, PAGING_PTE_DIRTY_MASK,
     PAGING_PTE_USRNUM_MASK, PAGING_PTE_EMPTY01_MASK, PAGING_PTE_EMPTY02_MASK, PAGING_PTE_FPN_MASK]"

lemma pte_masks_partition:
  "foldr (OR) pte_masks 0 = - 1 \<and> (\<forall>i < 8. \<forall>j < i. pte_masks ! i AND pte_masks ! j = 0)"
  by code_simp

text \<open>The offset of a swapped page shares bits with the user number.\<close>

lemma swap_offset_overlaps: "PAGING_PTE_SWPOFF_MASK AND PAGING_PTE_USRNUM_MASK \<noteq> 0"
  by code_simp

text \<open>
  The frame number of a physical address has 13 bits, as many as the field of an entry; the swap
  frame number has 21, as many as the offset field.
\<close>

lemma frame_widths:
  "PAGING_ADDR_FPN_HIBIT - PAGING_ADDR_FPN_LOBIT = PAGING_PTE_FPN_HIBIT - PAGING_PTE_FPN_LOBIT"
  "PAGING_SWP_HIBIT - PAGING_SWP_LOBIT = PAGING_PTE_SWPOFF_HIBIT - PAGING_PTE_SWPOFF_LOBIT"
  by code_simp+

end
