(* ===== verification/Plain_Sched.thy ===== *)
theory Plain_Sched
  imports Sched
begin

text \<open>
  The scheduler of \<open>src/sched.c\<close> in the configuration without \<open>MLQ_SCHED\<close>: one \<open>ready_queue\<close> for new
  processes and a \<open>run_queue\<close> for those whose slice is used up. The queues are the same static
  variables as in \<open>Sched\<close>.
\<close>

definition plain_get_proc :: "pcbs \<Rightarrow> sched \<Rightarrow> (pcb_ptr \<times> sched) option" where
  "plain_get_proc st s =
    (if empty_q (Some (s_ready s)) = 0 then do {
       (p, q) \<leftarrow> dequeue st (s_ready s);
       Some (p, s\<lparr>s_ready := q\<rparr>)
     }
     else Some (0, s))"

definition plain_link :: "pcb_t \<Rightarrow> pcb_t" where
  "plain_link x = x\<lparr>ready_queue := Q_ready, running_list := Q_running\<rparr>"

definition plain_put_proc :: "pcbs \<Rightarrow> sched \<Rightarrow> pcb_ptr \<Rightarrow> (pcbs \<times> sched) option" where
  "plain_put_proc st s proc = do {
     x \<leftarrow> st proc;
     rl \<leftarrow> enqueue (s_running s) proc;
     rn \<leftarrow> enqueue (s_run s) proc;
     Some (st(proc \<mapsto> plain_link x), s\<lparr>s_running := rl, s_run := rn\<rparr>)
   }"

definition plain_add_proc :: "pcbs \<Rightarrow> sched \<Rightarrow> pcb_ptr \<Rightarrow> (pcbs \<times> sched) option" where
  "plain_add_proc st s proc = do {
     x \<leftarrow> st proc;
     rl \<leftarrow> enqueue (s_running s) proc;
     rd \<leftarrow> enqueue (s_ready s) proc;
     Some (st(proc \<mapsto> plain_link x), s\<lparr>s_running := rl, s_ready := rd\<rparr>)
   }"

subsection \<open>Runs of the scheduler\<close>

text \<open>What the CPUs do between two additions by the loader; the result lists what \<open>get_proc\<close> returned.\<close>

datatype plain_op = Get_proc | Put_proc pcb_ptr

fun plain_run :: "pcbs \<Rightarrow> sched \<Rightarrow> plain_op list \<Rightarrow> (pcb_ptr list \<times> pcbs \<times> sched) option" where
  "plain_run st s [] = Some ([], st, s)"
| "plain_run st s (Get_proc # ops) = do {
     (p, s1) \<leftarrow> plain_get_proc st s;
     (ps, st', s') \<leftarrow> plain_run st s1 ops;
     Some (p # ps, st', s')
   }"
| "plain_run st s (Put_proc p # ops) = do {
     (st1, s1) \<leftarrow> plain_put_proc st s p;
     plain_run st1 s1 ops
   }"

definition plain_ok :: "pcbs \<Rightarrow> sched \<Rightarrow> bool" where
  "plain_ok st s \<longleftrightarrow> live_queue st (s_ready s) \<and> queue_ok (s_running s) \<and> queue_ok (s_run s) \<and> st 0 = None"

lemma live_queue_dom: "live_queue st q \<Longrightarrow> dom st \<subseteq> dom st' \<Longrightarrow> live_queue st' q"
  unfolding live_queue_def by (metis domIff subsetD)

lemma plain_ok_null: "plain_ok st s \<Longrightarrow> st p \<noteq> None \<Longrightarrow> p \<noteq> 0"
  by (rule notI) (simp add: plain_ok_def)

lemma plain_get:
  assumes "plain_ok st s"
  obtains (empty) "q_elems (s_ready s) = []" "plain_get_proc st s = Some (0, s)"
  | (found) p s' where "plain_get_proc st s = Some (p, s')" "p \<noteq> 0" "plain_ok st s'"
      "mset (q_elems (s_ready s)) = add_mset p (mset (q_elems (s_ready s')))"
proof (cases "q_elems (s_ready s) = []")
  case True
  then have "plain_get_proc st s = Some (0, s)"
    using assms empty_q_iff [of "s_ready s"] by (auto simp: plain_get_proc_def plain_ok_def live_queue_def)
  then show thesis using True empty by blast
next
  case False
  have live: "live_queue st (s_ready s)" "empty_q (Some (s_ready s)) = 0"
    using assms False empty_q_iff [of "s_ready s"] by (auto simp: plain_ok_def live_queue_def)
  from dequeue_spec [OF live(1) False] obtain xs p ys q' where d: "dequeue st (s_ready s) = Some (p, q')"
    "q_elems (s_ready s) = xs @ p # ys" "q_elems q' = xs @ ys" "live_queue st q'" by blast
  have "st p \<noteq> None" using live(1) d(2) by (simp add: live_queue_def)
  then have "p \<noteq> 0" using plain_ok_null assms by blast
  then show thesis using found [of p "s\<lparr>s_ready := q'\<rparr>"] d live(2) assms by (simp add: plain_get_proc_def plain_ok_def)
qed

lemma plain_put:
  assumes "plain_ok st s" "st p \<noteq> None"
  shows "\<exists>st' s'. plain_put_proc st s p = Some (st', s') \<and> plain_ok st' s' \<and> s_ready s' = s_ready s \<and> dom st' = dom st"
proof -
  from assms(2) obtain x where x: "st p = Some x" by blast
  obtain rl where rl: "enqueue (s_running s) p = Some rl" "queue_ok rl"
    using enqueue_total [of "s_running s" p] assms(1) by (auto simp: plain_ok_def)
  obtain rn where rn: "enqueue (s_run s) p = Some rn" "queue_ok rn"
    using enqueue_total [of "s_run s" p] assms(1) by (auto simp: plain_ok_def)
  have "p \<noteq> 0" "dom (st(p \<mapsto> plain_link x)) = dom st" using plain_ok_null [OF assms] x by auto
  then show ?thesis
    using x rl rn assms(1) live_queue_dom [of st "s_ready s" "st(p \<mapsto> plain_link x)"]
    by (simp add: plain_put_proc_def plain_ok_def)
qed

text \<open>
  Without \<open>MLQ_SCHED\<close> a process gets one slice: until the loader adds a process again, the CPUs are
  given every ready process at most once, and a process that was put back is never given out, because
  \<open>get_proc\<close> does not look at the queue \<open>put_proc\<close> fills.
\<close>

lemma plain_one_slice:
  assumes "plain_ok st s" "\<forall>p. Put_proc p \<in> set ops \<longrightarrow> st p \<noteq> None"
  shows "\<exists>ps st' s'. plain_run st s ops = Some (ps, st', s') \<and>
    mset (filter (\<lambda>p. p \<noteq> 0) ps) + mset (q_elems (s_ready s')) = mset (q_elems (s_ready s))"
  using assms
proof (induction ops arbitrary: st s)
  case (Cons opn ops)
  show ?case
  proof (cases opn)
    case Get_proc
    from Cons.prems(1) show ?thesis
    proof (cases rule: plain_get)
      case empty
      with Cons.IH [OF Cons.prems(1)] Cons.prems(2) Get_proc show ?thesis by fastforce
    next
      case (found p s')
      with Cons.IH [of st s'] Cons.prems(2) Get_proc show ?thesis by fastforce
    qed
  next
    case (Put_proc p)
    then have "st p \<noteq> None" using Cons.prems(2) by simp
    from plain_put [OF Cons.prems(1) this] obtain st' s' where
      p: "plain_put_proc st s p = Some (st', s')" "plain_ok st' s'" "s_ready s' = s_ready s" "dom st' = dom st" by blast
    have "\<forall>q. Put_proc q \<in> set ops \<longrightarrow> st' q \<noteq> None"
      using Cons.prems(2) p(4) by (metis domIff list.set_intros(2))
    from Cons.IH [OF p(2) this] p(1,3) Put_proc show ?thesis by simp
  qed
qed simp

end
