(* ===== verification/Spec2Isabelle.thy ===== *)
theory Spec2Isabelle
  imports Demo Isolated_Runs Driver Race Locking Nomem Print Macros Plain_Sched
begin

text \<open>
  A model of mini_os, a simulator of a small operating system in C (\<open>src/src\<close>, \<open>src/include\<close>): CPU
  threads run processes whose instructions compute, allocate, free, read and write paged memory and make
  system calls; a loader thread brings processes in; a timer keeps all threads in lock-step.

  \<^bold>\<open>Parts and theories.\<close>
  \<^item> \<open>Prelude\<close>: C integers, checked array accesses, collections of facts. \<open>Interfaces\<close>: the locales by
    which components rely on each other.
  \<^item> \<open>Bitops\<close>, \<open>Macros\<close> (\<open>bitops.h\<close>, \<open>mm.h\<close>) and \<open>Pte\<close> (\<open>mm.c\<close>): masks, fields of addresses and page
    table entries.
  \<^item> \<open>Memphy\<close> (\<open>mm-memphy.c\<close>, \<open>__swap_cp_page\<close>): memory devices and their frame pools. Interprets
    \<open>byte_store\<close> and \<open>frame_pool\<close>.
  \<^item> \<open>Common\<close> (\<open>common.h\<close>, \<open>os-mm.h\<close>): instructions, regions, areas, the process control block.
  \<^item> \<open>Vm\<close> (\<open>mm.c\<close>, \<open>mm-vm.c\<close>): page mapping, frame allocation, growth of an area; \<open>Nomem\<close>: when \<open>malloc\<close> fails
    there. \<open>Libmem\<close>
    (\<open>libmem.c\<close>): regions, page faults, byte access. \<open>Regions\<close>: the free list of regions and its
    refinement of first fit. \<open>Access\<close>: paged memory as an \<open>address_space\<close>. \<open>Print\<close> (\<open>mm.c\<close>): the dumps.
  \<^item> \<open>Mem\<close> and \<open>Flat\<close> (\<open>mem.c\<close>): the flat memory with two-level page tables, the other client of
    \<open>address_space\<close>.
  \<^item> \<open>Queue\<close> (\<open>queue.c\<close>), \<open>Sched\<close> (\<open>sched.c\<close>, multi-level queues), \<open>Plain_Sched\<close> (the same file without
    \<open>MLQ_SCHED\<close>), \<open>Locking\<close> (the same file lock region by lock region), \<open>Killall\<close> (\<open>sys_killall.c\<close>), \<open>Syscall\<close> (\<open>syscall.c\<close>, \<open>syscalltbl.lst\<close>, \<open>sys_mem.c\<close>,
    \<open>sys_listsyscall.c\<close>, \<open>sys_xxxhandler.c\<close>, \<open>libstd.c\<close>). Interpret \<open>prio_queue\<close> and \<open>ready_pool\<close>.
  \<^item> \<open>Cpu\<close> (\<open>cpu.c\<close>): \<open>run\<close> and the instructions, on the state \<open>kernel\<close> (processes, scheduler, devices).
  \<^item> \<open>Timer\<close> (\<open>timer.c\<close>), \<open>Loader\<close> (\<open>loader.c\<close>), \<open>Config\<close> (\<open>read_config\<close> and \<open>main\<close> of \<open>os.c\<close>), \<open>Legacy\<close>
    (\<open>read_config\<close> with \<open>MM_FIXED_MEMSZ\<close>), \<open>Inputs\<close> (the files of \<open>src/input\<close>, character by character).
  \<^item> \<open>Os\<close> (\<open>os.c\<close>): the routines of the threads and their interleaving, on the state \<open>os\<close>. \<open>Os_Safety\<close>
    and \<open>Os_Progress\<close>: what holds in every reachable state.
  \<^item> \<open>Isolation\<close> and \<open>Isolated_Runs\<close>: what a call of the memory library may do to physical memory, and
    interleaved processes. They interpret \<open>bystanders\<close>. \<open>Quiet\<close> and \<open>Os_Quiet\<close>: processes that never get a
    page, and when every thread has a next step. \<open>Demo\<close>: the simulator on the configurations of \<open>src/input\<close>. \<open>Driver\<close> (\<open>paging.c\<close>): the driver of the flat memory. \<open>Race\<close>:
    \<open>MEMPHY_get_freefp\<close> statement by statement, for several threads.

  \<^bold>\<open>Correspondence.\<close> A definition has the name of its C function or type; leading underscores are
  dropped and clashes with library names get a suffix. \<open>unsigned int\<close> is \<open>32 word\<close>, \<open>unsigned long\<close>
  \<open>64 word\<close>, \<open>BYTE\<close> \<open>8 word\<close>, \<open>int\<close> an integer whose overflow (\<open>c_ret\<close>) is undefined. \<open>None\<close> is
  undefined behaviour or a loop that does not end; error codes are values inside \<open>Some\<close>. Out
  parameters are extra results. Static variables are passed and returned. Processes live in a store
  indexed by pointers, in which 0 is null and a freed or never allocated name is undefined; region
  nodes live in the heap of their \<open>mm_struct\<close>. What \<open>malloc\<close> leaves in a block is an argument;
  in \<open>Os\<close> the loader takes any block of a set \<open>heap\<close>, which the properties either leave arbitrary or, where
  they say so, restrict to zeroed blocks. The file system is a function from paths to contents.

  \<^bold>\<open>What is shown.\<close>
  \<^item> Memory: a write to a present page is read back and no other byte changes; processes on different
    frames are separated, in the paged and in the flat memory; mapping a range uses the free frames in
    order and touches no other entry; \<open>inc_vma_limit\<close> maps the
    pages of the amount from the old end of the area, and sets the end from the break pointer, which may lie
    further on; a byte that \<open>libwrite\<close> stores is what \<open>__read\<close> gets, and what \<open>libread\<close> drops; the region search is
    first fit and allocation conserves the free bytes; page copies, frame pools, address and entry
    fields. As long as no instruction faults, processes stay isolated under every interleaving of their
    instructions; one page fault ends that. And where the code does not do what it means to (page faults, \<open>__free\<close>, a first allocation).
  \<^item> Scheduling: \<open>dequeue\<close> and \<open>get_proc\<close> give strict priority, \<open>slot\<close> has no effect, and a process alone above
    all others keeps its CPU for any number of slices. The highest level is the one with the highest number, in
    the code and its comments; the recorded runs in \<open>src/output\<close> show the lowest number first. \<open>killall\<close> keeps and
    sorts the survivors, but looks for the empty name; system calls break the separation of memory.
  \<^item> Processes: \<open>run\<close> keeps the machine well formed and advances the program counter, and a program on
    present pages ends. Process files and configuration files are read back as written; a file that
    announces more processes than it lists makes \<open>read_config\<close> use unassigned values. Of the twelve
    configuration files that come with the program the default build reads six.
  \<^item> The simulator: in every reachable state of every interleaving, no process is in two places, the
    processes are well formed and those on a CPU have their memory structure, all working CPUs are in
    the slot the clock shows, no CPU is stuck outside its process; the timer neither
    deadlocks nor ends early. With process files in the loader's
    format neither the loader nor the timer is ever stuck; with zeroed blocks and \<open>tame\<close> programs no
    thread is, and no process ever gets a page: the configurations that come with the program, its
    paging demonstration among them, page nothing. A CPU that is idle when the last process ends never stops.
  \<^item> Races: alone, a thread in \<open>MEMPHY_get_freefp\<close> does what \<open>Memphy\<close> says; two can take the same frame.
    A call of \<open>put_proc\<close> is one step unless another thread enqueues into \<open>running_list\<close> between its lock
    regions.
  \<^item> Failures of \<open>malloc\<close> while an area grows: nothing changes, or frames are lost and the bounds move
    without a page, or a null pointer is dereferenced, by which call it is.

  \<^bold>\<open>Loops and termination.\<close> Counted loops run over the list of their indices; list walks in the region
  heap and the two loops of \<open>killall\<close> are \<open>partial_function (option)\<close>, and the lemmas about them prove
  that they return. Steps of threads need no fuel: runs are inductive, of any length. The locale
  \<open>prio_queue\<close> counts \<open>transfer\<close> by the length of the queue.

  \<^bold>\<open>Interleaving.\<close> The steps of a thread lie between its accesses to shared state. A function that holds
  a lock is one step; \<open>put_proc\<close> and \<open>add_proc\<close>, which take \<open>queue_lock\<close> twice in a row, are one step
  too (\<open>Locking\<close> says when that is the same), and so is a call of \<open>run\<close>: two CPUs inside the memory library at once are not modelled, and the
  code does not exclude them, since \<open>mmvm_lock\<close> is only unlocked. \<open>Race\<close> shows what that costs
  on the frame pool; \<open>Isolated_Runs\<close> interleaves whole calls of \<open>run\<close>.

  \<^bold>\<open>Not modelled.\<close> The wording of log messages outside \<open>Print\<close>; failures of \<open>malloc\<close> outside \<open>Nomem\<close> and of thread
  creation; the addresses of blocks; the macros \<open>BIT_ULL_MASK\<close> and \<open>BIT_ULL_WORD\<close>, which have no expansion;
  headers that only declare functions; build files.
\<close>

end
